(* ===== verification/Gristle_Prelude.thy ===== *)
theory Gristle_Prelude
  imports Main "HOL-Library.Word" "HOL-Library.Monad_Syntax"
begin

unbundle bit_operations_syntax

text \<open>
  The shared ground of the development: the byte and block types, little-endian reads and
  writes of 16 and 32 bit fields in a byte buffer (the packed structs of the sources are
  such fields at fixed offsets), \<open>memcpy\<close> into a buffer, the errno values, and the
  collections of simplification rules the component theories fill:
  \<^item> \<open>buf_simps\<close>: lengths and lookups of buffers after writes;
  \<^item> \<open>state_simps\<close>: what each helper that updates the driver's globals changes and keeps.
  Partial results are \<open>option\<close> values, with the do-notation of Monad_Syntax; \<open>None\<close>
  always means that the C code would not return.
\<close>

section \<open>Types\<close>

type_synonym byte = "8 word"
type_synonym u16 = "16 word"
type_synonym u32 = "32 word"
type_synonym sector = "byte list"
type_synonym blockno = "32 word"

named_theorems buf_simps
named_theorems state_simps

text \<open>\<open>BLOCK_SIZE\<close> of block.h; both block drivers return it from \<open>block_get_block_size\<close>.\<close>

definition BLOCK_SIZE :: nat where
  "BLOCK_SIZE = 512"

section \<open>errno values (errno.h of the host the tests build on)\<close>

abbreviation (input) EPERM :: int where "EPERM \<equiv> 1"
abbreviation (input) ENOENT :: int where "ENOENT \<equiv> 2"
abbreviation (input) EIO :: int where "EIO \<equiv> 5"
abbreviation (input) EBADF :: int where "EBADF \<equiv> 9"
abbreviation (input) EACCES :: int where "EACCES \<equiv> 13"
abbreviation (input) EEXIST :: int where "EEXIST \<equiv> 17"
abbreviation (input) ENOTDIR :: int where "ENOTDIR \<equiv> 20"
abbreviation (input) EISDIR :: int where "EISDIR \<equiv> 21"
abbreviation (input) ENFILE :: int where "ENFILE \<equiv> 23"
abbreviation (input) ENOSPC :: int where "ENOSPC \<equiv> 28"
abbreviation (input) EROFS :: int where "EROFS \<equiv> 30"
abbreviation (input) ENAMETOOLONG :: int where "ENAMETOOLONG \<equiv> 36"
abbreviation (input) ENOTEMPTY :: int where "ENOTEMPTY \<equiv> 39"

section \<open>fcntl.h, unistd.h and sys/stat.h\<close>

abbreviation (input) O_RDONLY :: u32 where "O_RDONLY \<equiv> 0"
abbreviation (input) O_WRONLY :: u32 where "O_WRONLY \<equiv> 1"
abbreviation (input) O_RDWR :: u32 where "O_RDWR \<equiv> 2"
abbreviation (input) O_CREAT :: u32 where "O_CREAT \<equiv> 64"
abbreviation (input) O_EXCL :: u32 where "O_EXCL \<equiv> 128"
abbreviation (input) O_TRUNC :: u32 where "O_TRUNC \<equiv> 512"
abbreviation (input) O_APPEND :: u32 where "O_APPEND \<equiv> 1024"

abbreviation (input) SEEK_SET :: int where "SEEK_SET \<equiv> 0"
abbreviation (input) SEEK_CUR :: int where "SEEK_CUR \<equiv> 1"
abbreviation (input) SEEK_END :: int where "SEEK_END \<equiv> 2"

abbreviation (input) S_IWUSR :: u32 where "S_IWUSR \<equiv> 128"
abbreviation (input) S_IFDIR :: u32 where "S_IFDIR \<equiv> 0x4000"
abbreviation (input) S_IFREG :: u32 where "S_IFREG \<equiv> 0x8000"

record stat =
  st_dev :: nat
  st_ino :: nat
  st_mode :: u32
  st_nlink :: nat
  st_uid :: nat
  st_gid :: nat
  st_rdev :: nat
  st_size :: u32
  st_atime :: int
  st_mtime :: int
  st_ctime :: int
  st_blksize :: nat
  st_blocks :: nat

section \<open>Buffers\<close>

text \<open>\<open>memcpy(buf + off, src, length src)\<close>; the callers stay inside the buffer.\<close>

definition splice :: "'a list \<Rightarrow> nat \<Rightarrow> 'a list \<Rightarrow> 'a list" where
  "splice buf off src = take off buf @ src @ drop (off + length src) buf"

text \<open>\<open>n\<close> bytes read from offset \<open>off\<close>.\<close>

definition slice :: "nat \<Rightarrow> nat \<Rightarrow> 'a list \<Rightarrow> 'a list" where
  "slice off n buf = take n (drop off buf)"

lemma length_splice [simp, buf_simps]:
  "off + length src \<le> length buf \<Longrightarrow> length (splice buf off src) = length buf"
  by (simp add: splice_def)

lemma nth_splice:
  assumes "off + length src \<le> length buf" and "i < length buf"
  shows "splice buf off src ! i =
    (if off \<le> i \<and> i < off + length src then src ! (i - off) else buf ! i)"
proof -
  have "off \<le> length buf" using assms(1) by simp
  then show ?thesis
    using assms by (auto simp: splice_def nth_append min_def not_less algebra_simps)
qed

lemma nth_splice_in [buf_simps]:
  "off + length src \<le> length buf \<Longrightarrow> off \<le> i \<Longrightarrow> i < off + length src \<Longrightarrow>
    splice buf off src ! i = src ! (i - off)"
  by (simp add: nth_splice)

lemma nth_splice_out [buf_simps]:
  "off + length src \<le> length buf \<Longrightarrow> i < length buf \<Longrightarrow> i < off \<or> off + length src \<le> i \<Longrightarrow>
    splice buf off src ! i = buf ! i"
  by (auto simp: nth_splice)

lemma length_slice [simp, buf_simps]:
  "off + n \<le> length buf \<Longrightarrow> length (slice off n buf) = n"
  by (simp add: slice_def)

lemma nth_slice [buf_simps]:
  "off + n \<le> length buf \<Longrightarrow> i < n \<Longrightarrow> slice off n buf ! i = buf ! (off + i)"
  by (simp add: slice_def)

lemma slice_splice_same [simp, buf_simps]:
  "off + length src \<le> length buf \<Longrightarrow> n = length src \<Longrightarrow> slice off n (splice buf off src) = src"
  by (simp add: slice_def splice_def)

lemma slice_splice_other [buf_simps]:
  assumes "off + length src \<le> length buf" and "off' + n \<le> length buf"
    and "off' + n \<le> off \<or> off + length src \<le> off'"
  shows "slice off' n (splice buf off src) = slice off' n buf"
  using assms by (intro nth_equalityI) (auto simp: nth_slice nth_splice)

lemma splice_slice_id: "off + n \<le> length buf \<Longrightarrow> splice buf off (slice off n buf) = buf"
  by (simp add: splice_def slice_def flip: drop_drop)
    (metis add.commute append_take_drop_id drop_drop)

section \<open>Widening casts\<close>

lemma unat_ucast_widen:
  assumes "LENGTH('a) \<le> LENGTH('b)"
  shows "unat (ucast (x :: 'a::len word) :: 'b::len word) = unat x"
proof -
  have "unat x < 2 ^ LENGTH('a)" by (rule unsigned_less)
  also have "(2::nat) ^ LENGTH('a) \<le> 2 ^ LENGTH('b)" using assms by (simp add: power_increasing)
  finally have "unat x < 2 ^ LENGTH('b)" .
  then show ?thesis
    by (simp add: unsigned_ucast_eq take_bit_nat_eq_self)
qed

lemma unat_ucast_8_16 [simp]: "unat (ucast (x :: 8 word) :: 16 word) = unat x"
  by (rule unat_ucast_widen) simp

lemma unat_ucast_8_32 [simp]: "unat (ucast (x :: 8 word) :: 32 word) = unat x"
  by (rule unat_ucast_widen) simp

lemma unat_ucast_16_32 [simp]: "unat (ucast (x :: 16 word) :: 32 word) = unat x"
  by (rule unat_ucast_widen) simp

lemma unat_ucast_32_64 [simp]: "unat (ucast (x :: 32 word) :: 64 word) = unat x"
  by (rule unat_ucast_widen) simp

section \<open>Little-endian fields\<close>

definition le16 :: "byte \<Rightarrow> byte \<Rightarrow> u16" where
  "le16 a b = ucast a + push_bit 8 (ucast b)"

definition le32 :: "byte \<Rightarrow> byte \<Rightarrow> byte \<Rightarrow> byte \<Rightarrow> u32" where
  "le32 a b c d = ucast a + push_bit 8 (ucast b) + push_bit 16 (ucast c) + push_bit 24 (ucast d)"

definition get16 :: "byte list \<Rightarrow> nat \<Rightarrow> u16" where
  "get16 buf i = le16 (buf ! i) (buf ! (i + 1))"

definition get32 :: "byte list \<Rightarrow> nat \<Rightarrow> u32" where
  "get32 buf i = le32 (buf ! i) (buf ! (i + 1)) (buf ! (i + 2)) (buf ! (i + 3))"

definition bytes16 :: "u16 \<Rightarrow> byte list" where
  "bytes16 w = [ucast w, ucast (drop_bit 8 w)]"

definition bytes32 :: "u32 \<Rightarrow> byte list" where
  "bytes32 w = [ucast w, ucast (drop_bit 8 w), ucast (drop_bit 16 w), ucast (drop_bit 24 w)]"

lemma length_bytes16 [simp]: "length (bytes16 w) = 2"
  by (simp add: bytes16_def)

lemma length_bytes32 [simp]: "length (bytes32 w) = 4"
  by (simp add: bytes32_def)

lemma le16_or: "le16 a b = ucast a OR push_bit 8 (ucast b)"
  unfolding le16_def
  by (rule disjunctive_add_eq_or, rule bit_word_eqI) (auto simp: bit_simps dest: bit_imp_le_length)

lemma le32_or: "le32 a b c d =
    ((ucast a OR push_bit 8 (ucast b)) OR push_bit 16 (ucast c)) OR push_bit 24 (ucast d)"
proof -
  have 1: "ucast a + push_bit 8 (ucast b) = (ucast a OR push_bit 8 (ucast b) :: u32)"
    by (rule disjunctive_add_eq_or, rule bit_word_eqI) (auto simp: bit_simps dest: bit_imp_le_length)
  have 2: "(ucast a OR push_bit 8 (ucast b)) + push_bit 16 (ucast c) =
      ((ucast a OR push_bit 8 (ucast b)) OR push_bit 16 (ucast c) :: u32)"
    by (rule disjunctive_add_eq_or, rule bit_word_eqI) (auto simp: bit_simps dest: bit_imp_le_length)
  have 3: "((ucast a OR push_bit 8 (ucast b)) OR push_bit 16 (ucast c)) + push_bit 24 (ucast d) =
      (((ucast a OR push_bit 8 (ucast b)) OR push_bit 16 (ucast c)) OR push_bit 24 (ucast d) :: u32)"
    by (rule disjunctive_add_eq_or, rule bit_word_eqI) (auto simp: bit_simps dest: bit_imp_le_length)
  show ?thesis
    unfolding le32_def by (simp only: 1 2 3)
qed

lemma le16_bytes16: "le16 (ucast w) (ucast (drop_bit 8 w)) = w"
  unfolding le16_or
  by (rule bit_word_eqI) (auto simp: bit_simps)

lemma le32_bytes32:
  "le32 (ucast w) (ucast (drop_bit 8 w)) (ucast (drop_bit 16 w)) (ucast (drop_bit 24 w)) = w"
  unfolding le32_or
proof (rule bit_word_eqI)
  fix n assume "n < LENGTH(32)"
  then show "bit (((ucast (ucast w :: byte) OR push_bit 8 (ucast (ucast (drop_bit 8 w) :: byte))) OR
      push_bit 16 (ucast (ucast (drop_bit 16 w) :: byte))) OR
      push_bit 24 (ucast (ucast (drop_bit 24 w) :: byte)) :: u32) n = bit w n"
    by (cases "n < 8"; cases "n < 16"; cases "n < 24") (auto simp: bit_simps)
qed

lemma get16_bytes16 [simp]: "get16 (bytes16 w) 0 = w"
  by (simp add: get16_def bytes16_def le16_bytes16)

lemma get32_bytes32 [simp]: "get32 (bytes32 w) 0 = w"
  by (simp add: get32_def bytes32_def le32_bytes32 numeral_2_eq_2 numeral_3_eq_3)

section \<open>Numbers of a block\<close>

text \<open>The number that \<open>n\<close> bytes of a block store from offset \<open>i\<close> on, the least significant byte first.\<close>

definition le_number :: "byte list \<Rightarrow> nat \<Rightarrow> nat \<Rightarrow> nat" where
  "le_number b i n = (\<Sum>k<n. unat (b ! (i + k)) * 256 ^ k)"

lemma byte_less: "unat (b :: byte) < 256"
  using unsigned_less [of b] by simp

lemma unat_byte_push: "n \<le> 24 \<Longrightarrow> unat (push_bit n (ucast (b :: byte)) :: u32) = unat b * 2 ^ n"
proof -
  assume n: "n \<le> 24"
  have "unat b * 2 ^ n \<le> 255 * 2 ^ 24"
    using byte_less [of b] n by (intro mult_mono power_increasing) auto
  then show ?thesis
    using byte_less [of b] by (simp add: unsigned_push_bit_eq unsigned_ucast_eq take_bit_nat_eq_self push_bit_nat_def)
qed

lemma unat_le32: "unat (le32 a b c d) = unat a + unat b * 256 + unat c * 65536 + unat d * 16777216"
  using unat_byte_push [of 0 a] byte_less [of a] byte_less [of b] byte_less [of c] byte_less [of d]
  by (simp add: le32_def unat_word_ariths unat_byte_push)

lemma le_number_simps:
  "le_number b i 2 = unat (b ! i) + 256 * unat (b ! (i + 1))"
  "le_number b i 4 =
    unat (b ! i) + 256 * unat (b ! (i + 1)) + 65536 * unat (b ! (i + 2)) + 16777216 * unat (b ! (i + 3))"
proof -
  have "{..<2 :: nat} = {0, 1}" "{..<4 :: nat} = {0, 1, 2, 3}" by auto
  then show "le_number b i 2 = unat (b ! i) + 256 * unat (b ! (i + 1))" and
    "le_number b i 4 =
      unat (b ! i) + 256 * unat (b ! (i + 1)) + 65536 * unat (b ! (i + 2)) + 16777216 * unat (b ! (i + 3))"
    by (simp_all add: le_number_def)
qed

lemma unat_le16: "unat (le16 a b) = unat a + unat b * 256"
  using byte_less [of a] byte_less [of b]
  by (simp add: le16_def unat_word_ariths unsigned_push_bit_eq unsigned_ucast_eq take_bit_nat_eq_self push_bit_nat_def)

lemma unat_get16: "unat (get16 b i) = le_number b i 2"
  by (simp add: get16_def unat_le16 le_number_simps)

lemma unat_get32: "unat (get32 b i) = le_number b i 4"
  by (simp add: get32_def unat_le32 le_number_simps)

lemma le_number_append:
  "i + n \<le> length xs \<Longrightarrow> le_number (xs @ ys) i n = le_number xs i n"
  by (simp add: le_number_def nth_append)

end
