(* ===== verification/Block_Device.thy ===== *)
theory Block_Device
  imports Gristle_Prelude
begin

text \<open>
  The block layer. \<open>'d platform\<close> is the interface of block.h that gristle.c is linked
  against (\<open>block_read\<close>, \<open>block_write\<close>, \<open>block_get_device_read_only\<close>), with the two other
  things the driver takes from its surroundings: the clock behind \<open>GRISTLE_TIME\<close> and the
  indeterminate bytes of uninitialised stack variables. The locale \<open>block_device\<close> states
  what a driver promises for the blocks that exist. The model of block_drivers/block_pc.c
  follows, with the interpretation that shows it keeps the promise.
\<close>

section \<open>The interface: block.h and the surroundings\<close>

text \<open>
  \<open>blk_read P d b buf\<close> is \<open>block_read(b, buf)\<close> on the device state \<open>d\<close>: the new device
  state, the new contents of \<open>buf\<close> and the return code. \<open>plat_time P n\<close> is the value of the
  \<open>n\<close>-th evaluation of \<open>GRISTLE_TIME\<close>; \<open>plat_junk P i\<close> is byte \<open>i\<close> of the stack memory an
  uninitialised local array occupies.
\<close>

record 'd platform =
  blk_read :: "'d \<Rightarrow> blockno \<Rightarrow> sector \<Rightarrow> 'd \<times> sector \<times> int"
  blk_write :: "'d \<Rightarrow> blockno \<Rightarrow> sector \<Rightarrow> 'd \<times> int"
  blk_read_only :: "'d \<Rightarrow> int"
  plat_time :: "nat \<Rightarrow> int"
  plat_junk :: "nat \<Rightarrow> byte"

text \<open>
  The contract. \<open>ok d b\<close> says that block \<open>b\<close> exists on \<open>d\<close>, \<open>view d b\<close> is its contents. Reads
  of existing blocks succeed, return the contents and leave the device as it is; writes of
  existing blocks succeed and change this block only; a read never changes the size of the
  caller's buffer. Nothing is promised about blocks that do not exist.
\<close>

locale block_device =
  fixes P :: "'d platform"
    and view :: "'d \<Rightarrow> blockno \<Rightarrow> sector"
    and ok :: "'d \<Rightarrow> blockno \<Rightarrow> bool"
  assumes length_view [simp]: "length (view d b) = 512"
    and read_ok [simp]: "ok d b \<Longrightarrow> blk_read P d b buf = (d, view d b, 0)"
    and read_length: "length buf = 512 \<Longrightarrow> length (fst (snd (blk_read P d b buf))) = 512"
    and write_rc [simp]: "ok d b \<Longrightarrow> length buf = 512 \<Longrightarrow> snd (blk_write P d b buf) = 0"
    and write_dom [simp]:
      "ok d b \<Longrightarrow> length buf = 512 \<Longrightarrow> ok (fst (blk_write P d b buf)) c = ok d c"
    and write_view:
      "ok d b \<Longrightarrow> length buf = 512 \<Longrightarrow> ok d c \<Longrightarrow>
        view (fst (blk_write P d b buf)) c = (if c = b then buf else view d c)"
begin

lemma write_read_same:
  assumes "ok d b" and "length buf = 512"
  shows "blk_read P (fst (blk_write P d b buf)) b buf' = (fst (blk_write P d b buf), buf, 0)"
  using assms by (simp add: write_view)

lemma write_read_other:
  assumes "ok d b" and "length buf = 512" and "ok d c" and "c \<noteq> b"
  shows "blk_read P (fst (blk_write P d b buf)) c buf' =
    (fst (blk_write P d b buf), view d c, 0)"
  using assms by (simp add: write_view)

lemma write_write_view:
  assumes "ok d b" and "length buf = 512" and "length buf' = 512" and "ok d c"
  shows "view (fst (blk_write P (fst (blk_write P d b buf)) b buf')) c =
    view (fst (blk_write P d b buf')) c"
  using assms by (simp add: write_view)

end

section \<open>The PC driver: block\_drivers/block\_pc.c\<close>

text \<open>
  The globals of the driver: \<open>pc_blocks\<close> is the heap region behind \<open>blocks\<close>, addressed from its
  first byte; only the first \<open>block_fs_size\<close> bytes are allocated.
\<close>

record pc_dev =
  pc_blocks :: "nat \<Rightarrow> byte"
  block_fs_size :: "64 word"
  block_ro :: int
  image_name :: "byte list option"

definition block_pc_set_image_name :: "byte list \<Rightarrow> pc_dev \<Rightarrow> pc_dev" where
  "block_pc_set_image_name filename d = d\<lparr>image_name := Some filename\<rparr>"

text \<open>
  \<open>block_init\<close>: \<open>fopen name\<close> is the contents of the image file, \<open>None\<close> when it cannot be opened,
  \<open>malloc_ok\<close> says whether the allocation succeeds, and \<open>fread_count\<close> is the number of bytes \<open>fread\<close>
  delivers. The memory of a failed read is freed; \<open>freed\<close> is what it reads as from then on.
\<close>

definition pc_block_init ::
  "(byte list \<Rightarrow> byte list option) \<Rightarrow> bool \<Rightarrow> nat \<Rightarrow> (nat \<Rightarrow> byte) \<Rightarrow> pc_dev \<Rightarrow> int \<times> pc_dev" where
  "pc_block_init fopen malloc_ok fread_count freed d =
    (case Option.bind (image_name d) fopen of
      None \<Rightarrow> (- 1, d)
    | Some f \<Rightarrow>
        let d1 = d\<lparr>block_fs_size := of_nat (length f)\<rparr> in
        if \<not> block_fs_size d1 < 2048 * 1024 * 1024 then (- 1, d1)
        else if \<not> malloc_ok then (- 1, d1)
        else if fread_count < length f then (- 1, d1\<lparr>pc_blocks := freed\<rparr>)
        else (0, d1\<lparr>pc_blocks := (\<lambda>a. if a < length f then f ! a else pc_blocks d a)\<rparr>))"

text \<open>\<open>block_halt\<close> frees the memory and leaves the pointer as it is.\<close>

definition block_halt :: "(nat \<Rightarrow> byte) \<Rightarrow> pc_dev \<Rightarrow> int \<times> pc_dev" where
  "block_halt freed d = (0, d\<lparr>pc_blocks := freed\<rparr>)"

text \<open>The range check of \<open>block_read\<close> and \<open>block_write\<close>, in the \<open>uint32_t\<close> arithmetic of \<open>blockno_t\<close>.\<close>

definition pc_beyond_end :: "pc_dev \<Rightarrow> blockno \<Rightarrow> bool" where
  "pc_beyond_end d block \<longleftrightarrow> ucast ((block + 1) * 512 - 1) > block_fs_size d"

definition pc_block_read :: "pc_dev \<Rightarrow> blockno \<Rightarrow> sector \<Rightarrow> pc_dev \<times> sector \<times> int" where
  "pc_block_read d block buffer =
    (if pc_beyond_end d block then (d, buffer, - 1)
     else (d, map (\<lambda>i. pc_blocks d (unat (block * 512) + i)) [0..<512], 0))"

definition pc_block_write :: "pc_dev \<Rightarrow> blockno \<Rightarrow> sector \<Rightarrow> pc_dev \<times> int" where
  "pc_block_write d block buffer =
    (if pc_beyond_end d block then (d, - 1)
     else (d\<lparr>pc_blocks := (\<lambda>a. if unat (block * 512) \<le> a \<and> a < unat (block * 512) + 512
                             then buffer ! (a - unat (block * 512)) else pc_blocks d a)\<rparr>, 0))"

definition pc_get_volume_size :: "pc_dev \<Rightarrow> blockno" where
  "pc_get_volume_size d = ucast (block_fs_size d div 512)"

definition pc_get_device_read_only :: "pc_dev \<Rightarrow> int" where
  "pc_get_device_read_only d = block_ro d"

definition block_pc_set_ro :: "pc_dev \<Rightarrow> pc_dev" where
  "block_pc_set_ro d = d\<lparr>block_ro := - 1\<rparr>"

definition block_pc_set_rw :: "pc_dev \<Rightarrow> pc_dev" where
  "block_pc_set_rw d = d\<lparr>block_ro := 0\<rparr>"

text \<open>\<open>block_get_block_size\<close> of both drivers.\<close>

definition block_get_block_size :: nat where
  "block_get_block_size = BLOCK_SIZE"

text \<open>The bytes \<open>block_pc_snapshot\<close> writes to its file, when the file can be created.\<close>

definition block_pc_snapshot :: "bool \<Rightarrow> nat \<Rightarrow> nat \<Rightarrow> pc_dev \<Rightarrow> int \<times> byte list option" where
  "block_pc_snapshot fopen_ok start len d =
    (if \<not> fopen_ok then (- 1, None)
     else (0, Some (map (\<lambda>i. pc_blocks d (start + i)) [0..<len])))"

definition block_pc_snapshot_all :: "bool \<Rightarrow> pc_dev \<Rightarrow> int \<times> byte list option" where
  "block_pc_snapshot_all fopen_ok d = block_pc_snapshot fopen_ok 0 (unat (block_fs_size d)) d"

definition pc_platform :: "(nat \<Rightarrow> int) \<Rightarrow> (nat \<Rightarrow> byte) \<Rightarrow> pc_dev platform" where
  "pc_platform clk junk =
    \<lparr>blk_read = pc_block_read, blk_write = pc_block_write,
     blk_read_only = pc_get_device_read_only, plat_time = clk, plat_junk = junk\<rparr>"

subsection \<open>The driver keeps the contract\<close>

definition pc_view :: "pc_dev \<Rightarrow> blockno \<Rightarrow> sector" where
  "pc_view d b = map (\<lambda>i. pc_blocks d (512 * unat b + i)) [0..<512]"

definition pc_ok :: "pc_dev \<Rightarrow> blockno \<Rightarrow> bool" where
  "pc_ok d b \<longleftrightarrow> block_fs_size d < 2 ^ 31 \<and> 512 * (unat b + 1) \<le> unat (block_fs_size d)"

lemma pc_ok_offset:
  assumes "pc_ok d b"
  shows "unat (b * 512) = 512 * unat b" and "unat ((b + 1) * 512 - 1) = 512 * unat b + 511"
proof -
  have size: "unat (block_fs_size d) < 2 ^ 31"
    using assms by (simp add: pc_ok_def word_less_nat_alt)
  then have b: "512 * unat b + 512 < 2 ^ 31"
    using assms by (simp add: pc_ok_def)
  then show 1: "unat (b * 512) = 512 * unat b"
    by (subst unat_word_ariths) simp
  have "(b + 1) * 512 - 1 = b * 512 + 511"
    by (simp add: algebra_simps)
  then show "unat ((b + 1) * 512 - 1) = 512 * unat b + 511"
    using b 1 by (simp add: unat_word_ariths)
qed

lemma pc_ok_not_beyond: "pc_ok d b \<Longrightarrow> \<not> pc_beyond_end d b"
  using pc_ok_offset(2) [of d b]
  by (auto simp: pc_beyond_end_def pc_ok_def word_less_nat_alt)

lemma pc_ok_inj:
  assumes "512 * unat b \<le> 512 * unat c + i" and "512 * unat c + i < 512 * unat b + 512" and "i < 512"
  shows "c = b"
proof -
  have "unat c = unat b" using assms by arith
  then show ?thesis by (simp add: word_unat_eq_iff)
qed

lemma pc_write_view:
  assumes b: "pc_ok d b" and "length buf = 512"
  shows "pc_view (fst (pc_block_write d b buf)) c = (if c = b then buf else pc_view d c)"
proof (rule nth_equalityI)
  show "length (pc_view (fst (pc_block_write d b buf)) c) =
      length (if c = b then buf else pc_view d c)"
    using assms by (simp add: pc_view_def)
next
  fix i assume "i < length (pc_view (fst (pc_block_write d b buf)) c)"
  then have i: "i < 512" by (simp add: pc_view_def)
  show "pc_view (fst (pc_block_write d b buf)) c ! i = (if c = b then buf else pc_view d c) ! i"
    using i assms pc_ok_inj [of b c i]
    by (auto simp: pc_view_def pc_block_write_def pc_ok_not_beyond pc_ok_offset)
qed

interpretation pc: block_device "pc_platform clk junk" pc_view pc_ok for clk junk
proof
  fix d b c and buf :: sector
  show "length (pc_view d b) = 512"
    by (simp add: pc_view_def)
  show "pc_ok d b \<Longrightarrow> blk_read (pc_platform clk junk) d b buf = (d, pc_view d b, 0)"
    by (simp add: pc_platform_def pc_block_read_def pc_ok_not_beyond pc_ok_offset pc_view_def)
  show "length buf = 512 \<Longrightarrow> length (fst (snd (blk_read (pc_platform clk junk) d b buf))) = 512"
    by (simp add: pc_platform_def pc_block_read_def)
  show "pc_ok d b \<Longrightarrow> length buf = 512 \<Longrightarrow> snd (blk_write (pc_platform clk junk) d b buf) = 0"
    by (simp add: pc_platform_def pc_block_write_def pc_ok_not_beyond)
  show "pc_ok d b \<Longrightarrow> length buf = 512 \<Longrightarrow>
      pc_ok (fst (blk_write (pc_platform clk junk) d b buf)) c = pc_ok d c"
    by (simp add: pc_platform_def pc_block_write_def pc_ok_def)
  show "pc_ok d b \<Longrightarrow> length buf = 512 \<Longrightarrow> pc_ok d c \<Longrightarrow>
      pc_view (fst (blk_write (pc_platform clk junk) d b buf)) c =
        (if c = b then buf else pc_view d c)"
    by (simp add: pc_platform_def pc_write_view)
qed

text \<open>After a successful start every whole block of the image exists and holds its bytes of the file.\<close>

lemma pc_init_view:
  assumes "pc_block_init fopen malloc_ok fread_count freed d = (0, d')"
    and "image_name d = Some name" and "fopen name = Some f" and "length f < 2 ^ 64"
    and "512 * (unat b + 1) \<le> length f"
  shows "pc_ok d' b" and "pc_view d' b = slice (512 * unat b) 512 f"
proof -
  have size: "unat (of_nat (length f) :: 64 word) = length f"
    using assms(4) by (simp add: unsigned_of_nat take_bit_nat_eq_self)
  have d': "block_fs_size d' = of_nat (length f)" "pc_blocks d' = (\<lambda>a. if a < length f then f ! a else pc_blocks d a)"
    "(of_nat (length f) :: 64 word) < 2 ^ 31"
    using assms(1-3) by (auto simp: pc_block_init_def Let_def split: if_splits)
  show "pc_ok d' b" using assms(5) by (simp add: pc_ok_def d'(1) size) (use d'(3) in simp)
  show "pc_view d' b = slice (512 * unat b) 512 f"
    using assms(5) by (intro nth_equalityI) (simp_all add: pc_view_def nth_slice d'(2))
qed

end
