(* ===== verification/Md5.thy ===== *)
theory Md5
  imports Block_Device
begin

unbundle bit_operations_syntax

text \<open>
  The MD5 digest of test/hash.c, with which \<open>block_pc_hash\<close> identifies the contents of an image: the
  incremental computation with its 64 byte buffer, and the proof that it is the digest of the whole
  message as RFC 1321 defines it. The C code copies words between memory and \<open>uint32_t\<close> as they are,
  which is the little-endian order of the hosts it is built on.
\<close>

section \<open>Model\<close>

record md_context =
  md_h :: "u32 list"
  md_digest :: "byte list"
  md_count :: "64 word"
  md_buffer :: "byte list"

definition BUFSIZE :: nat where
  "BUFSIZE = 1024 * 1024"

definition leftrotate :: "u32 \<Rightarrow> nat \<Rightarrow> u32" where
  "leftrotate x c = (push_bit c x OR drop_bit (32 - c) x)"

definition md5_r :: "nat list" where
  "md5_r =
    [7, 12, 17, 22, 7, 12, 17, 22, 7, 12, 17, 22, 7, 12, 17, 22,
     5,  9, 14, 20, 5,  9, 14, 20, 5,  9, 14, 20, 5,  9, 14, 20,
     4, 11, 16, 23, 4, 11, 16, 23, 4, 11, 16, 23, 4, 11, 16, 23,
     6, 10, 15, 21, 6, 10, 15, 21, 6, 10, 15, 21, 6, 10, 15, 21]"

definition md5_k :: "u32 list" where
  "md5_k =
    [0xd76aa478, 0xe8c7b756, 0x242070db, 0xc1bdceee,
     0xf57c0faf, 0x4787c62a, 0xa8304613, 0xfd469501,
     0x698098d8, 0x8b44f7af, 0xffff5bb1, 0x895cd7be,
     0x6b901122, 0xfd987193, 0xa679438e, 0x49b40821,
     0xf61e2562, 0xc040b340, 0x265e5a51, 0xe9b6c7aa,
     0xd62f105d, 0x02441453, 0xd8a1e681, 0xe7d3fbc8,
     0x21e1cde6, 0xc33707d6, 0xf4d50d87, 0x455a14ed,
     0xa9e3e905, 0xfcefa3f8, 0x676f02d9, 0x8d2a4c8a,
     0xfffa3942, 0x8771f681, 0x6d9d6122, 0xfde5380c,
     0xa4beea44, 0x4bdecfa9, 0xf6bb4b60, 0xbebfbc70,
     0x289b7ec6, 0xeaa127fa, 0xd4ef3085, 0x04881d05,
     0xd9d4d039, 0xe6db99e5, 0x1fa27cf8, 0xc4ac5665,
     0xf4292244, 0x432aff97, 0xab9423a7, 0xfc93a039,
     0x655b59c3, 0x8f0ccc92, 0xffeff47d, 0x85845dd1,
     0x6fa87e4f, 0xfe2ce6e0, 0xa3014314, 0x4e0811a1,
     0xf7537e82, 0xbd3af235, 0x2ad7d2bb, 0xeb86d391]"

type_synonym quad = "u32 \<times> u32 \<times> u32 \<times> u32"

text \<open>The body the four loops share: they differ in \<open>f\<close> and in the word \<open>g\<close> of the block.\<close>

definition md5_step ::
  "(u32 \<Rightarrow> u32 \<Rightarrow> u32 \<Rightarrow> u32) \<Rightarrow> (nat \<Rightarrow> nat) \<Rightarrow> byte list \<Rightarrow> nat \<Rightarrow> quad \<Rightarrow> quad" where
  "md5_step f g buffer j q =
    (case q of (a, b, c, d) \<Rightarrow>
       let x = a + f b c d + md5_k ! j + get32 buffer (g j * 4) in
       (d, b + leftrotate x (md5_r ! j), b, c))"

definition md5_transform :: "md_context \<Rightarrow> md_context" where
  "md5_transform context =
    (let h = md_h context; buf = md_buffer context;
         q0 = (h ! 0, h ! 1, h ! 2, h ! 3);
         q1 = fold (md5_step (\<lambda>b c d. ((c XOR d) AND b) XOR d) (\<lambda>j. j) buf) [0..<16] q0;
         q2 = fold (md5_step (\<lambda>b c d. ((b XOR c) AND d) XOR c) (\<lambda>j. (5 * j + 1) mod 16) buf) [16..<32] q1;
         q3 = fold (md5_step (\<lambda>b c d. (b XOR c) XOR d) (\<lambda>j. (3 * j + 5) mod 16) buf) [32..<48] q2;
         (a, b, c, d) = fold (md5_step (\<lambda>b c d. c XOR (b OR NOT d)) (\<lambda>j. (7 * j) mod 16) buf) [48..<64] q3
     in context\<lparr>md_h := [h ! 0 + a, h ! 1 + b, h ! 2 + c, h ! 3 + d]\<rparr>)"

definition md5_init :: "u32 list" where
  "md5_init = [0x67452301, 0xefcdab89, 0x98badcfe, 0x10325476]"

definition md5_start :: "md_context \<Rightarrow> md_context" where
  "md5_start context = context\<lparr>md_h := md5_init, md_count := 0, md_buffer := replicate 64 0\<rparr>"

text \<open>The loop of \<open>md5_update\<close> over whole blocks, and the copy of what is left.\<close>

function md5_blocks :: "byte list \<Rightarrow> md_context \<Rightarrow> md_context" where
  "md5_blocks chunk context =
    (if length chunk \<ge> 64
     then md5_blocks (drop 64 chunk) (md5_transform (context\<lparr>md_buffer := take 64 chunk\<rparr>))
     else context\<lparr>md_buffer := splice (md_buffer context) 0 chunk\<rparr>)"
  by auto
termination by (relation "measure (length \<circ> fst)") auto

definition md5_update :: "md_context \<Rightarrow> byte list \<Rightarrow> md_context" where
  "md5_update context chunk =
    (let buflen = unat (md_count context AND 63);
         chunk_size = of_nat (length chunk) :: 64 word;
         context1 = context\<lparr>md_count := md_count context + chunk_size\<rparr> in
     if of_nat buflen + chunk_size < 64
     then context1\<lparr>md_buffer := splice (md_buffer context1) buflen chunk\<rparr>
     else md5_blocks (drop (64 - buflen) chunk)
       (md5_transform
         (context1\<lparr>md_buffer := splice (md_buffer context1) buflen (take (64 - buflen) chunk)\<rparr>)))"

definition bytes64 :: "64 word \<Rightarrow> byte list" where
  "bytes64 w = map (\<lambda>i. ucast (drop_bit (8 * i) w)) [0..<8]"

definition md5_finish :: "md_context \<Rightarrow> md_context" where
  "md5_finish context =
    (let buflen = unat (md_count context AND 63) + 1;
         b1 = (md_buffer context)[buflen - 1 := 0x80];
         context1 = context\<lparr>md_buffer := splice b1 buflen (replicate (64 - buflen) 0)\<rparr>;
         context2 = (if buflen > 56 then (md5_transform context1)\<lparr>md_buffer := replicate 64 0\<rparr>
                     else context1);
         bitcount = md_count context2 * 8;
         context3 = context2\<lparr>md_buffer := splice (md_buffer context2) 56 (bytes64 bitcount)\<rparr>;
         context4 = md5_transform context3 in
     context4\<lparr>md_digest := concat (map bytes32 (md_h context4))\<rparr>)"

text \<open>The loops that cut the data into buffers: a full one goes on in \<open>md5_file\<close>, not in \<open>md5_memory\<close>.\<close>

lemma BUFSIZE_pos [simp]: "0 < BUFSIZE"
  by (simp add: BUFSIZE_def)

function md5_file_loop :: "byte list \<Rightarrow> md_context \<Rightarrow> md_context" where
  "md5_file_loop data context =
    (if length data \<ge> BUFSIZE
     then md5_file_loop (drop BUFSIZE data) (md5_update context (take BUFSIZE data))
     else md5_update context data)"
  by auto
termination by (relation "measure (length \<circ> fst)") (auto simp: BUFSIZE_def)

function md5_memory_loop :: "byte list \<Rightarrow> md_context \<Rightarrow> md_context" where
  "md5_memory_loop data context =
    (if length data > BUFSIZE
     then md5_memory_loop (drop BUFSIZE data) (md5_update context (take BUFSIZE data))
     else md5_update context data)"
  by auto
termination by (relation "measure (length \<circ> fst)") (auto simp: BUFSIZE_def)

declare md5_blocks.simps [simp del] md5_file_loop.simps [simp del] md5_memory_loop.simps [simp del]

text \<open>
  \<open>junk\<close> is the context on the stack before \<open>md5_start\<close>; \<open>file\<close> the contents of the file, \<open>None\<close> when
  it cannot be opened. The 16 bytes of the digest are what goes to \<open>hash\<close>.
\<close>

definition md5_file :: "md_context \<Rightarrow> byte list option \<Rightarrow> int \<times> byte list option" where
  "md5_file junk file =
    (case file of
       None \<Rightarrow> (- 1, None)
     | Some data \<Rightarrow> (0, Some (take 16 (md_digest (md5_finish (md5_file_loop data (md5_start junk)))))))"

definition md5_memory :: "md_context \<Rightarrow> byte list \<Rightarrow> int \<times> byte list" where
  "md5_memory junk mem = (0, take 16 (md_digest (md5_finish (md5_memory_loop mem (md5_start junk)))))"

definition block_pc_hash :: "md_context \<Rightarrow> nat \<Rightarrow> nat \<Rightarrow> pc_dev \<Rightarrow> int \<times> byte list" where
  "block_pc_hash junk start len d = md5_memory junk (map (\<lambda>i. pc_blocks d (start + i)) [0..<len])"

definition block_pc_hash_all :: "md_context \<Rightarrow> pc_dev \<Rightarrow> int \<times> byte list" where
  "block_pc_hash_all junk d = md5_memory junk (map (pc_blocks d) [0..<unat (block_fs_size d)])"

section \<open>The digest of RFC 1321\<close>

definition rfc_f :: "nat \<Rightarrow> u32 \<Rightarrow> u32 \<Rightarrow> u32 \<Rightarrow> u32" where
  "rfc_f j x y z =
    (if j < 16 then (x AND y) OR (NOT x AND z)
     else if j < 32 then (x AND z) OR (y AND NOT z)
     else if j < 48 then x XOR y XOR z
     else y XOR (x OR NOT z))"

definition rfc_word :: "nat \<Rightarrow> nat" where
  "rfc_word j =
    (if j < 16 then j else if j < 32 then (5 * j + 1) mod 16
     else if j < 48 then (3 * j + 5) mod 16 else (7 * j) mod 16)"

definition rfc_step :: "byte list \<Rightarrow> nat \<Rightarrow> quad \<Rightarrow> quad" where
  "rfc_step block j q =
    (case q of (a, b, c, d) \<Rightarrow>
       (d, b + word_rotl (md5_r ! j) (a + rfc_f j b c d + get32 block (4 * rfc_word j) + md5_k ! j), b, c))"

definition compress :: "byte list \<Rightarrow> u32 list \<Rightarrow> u32 list" where
  "compress block h =
    (case fold (rfc_step block) [0..<64] (h ! 0, h ! 1, h ! 2, h ! 3) of
       (a, b, c, d) \<Rightarrow> [h ! 0 + a, h ! 1 + b, h ! 2 + c, h ! 3 + d])"

function blocks_of :: "'a list \<Rightarrow> 'a list list" where
  "blocks_of xs = (if length xs < 64 then [] else take 64 xs # blocks_of (drop 64 xs))"
  by auto
termination by (relation "measure length") auto

declare blocks_of.simps [simp del]

text \<open>The message, the bit 1, zeros up to the last eight bytes of a block, and the length in bits.\<close>

definition padded :: "byte list \<Rightarrow> byte list" where
  "padded msg =
    msg @ 0x80 # replicate (nat ((55 - int (length msg)) mod 64)) 0 @ bytes64 (of_nat (8 * length msg))"

definition rfc_md5 :: "byte list \<Rightarrow> byte list" where
  "rfc_md5 msg = concat (map bytes32 (fold compress (blocks_of (padded msg)) md5_init))"

section \<open>The rounds\<close>

lemma rotl_bit:
  fixes x :: u32
  assumes "0 < c" and "c < 32" and "n < 32"
  shows "bit (word_rotl c x) n = bit x (if c \<le> n then n - c else n + (32 - c))"
proof -
  have "(n + (32 - c)) mod 32 = (if c \<le> n then n - c else n + (32 - c))"
    using assms by (auto simp: mod_if)
  moreover have "bit (word_rotl c x) n = bit x ((n + (LENGTH(32) - c mod LENGTH(32))) mod LENGTH(32))"
    using assms(3) by (subst bit_word_rotl_iff) simp
  moreover have "LENGTH(32) = 32" by simp
  moreover have "c mod 32 = c" using assms(2) by simp
  ultimately show ?thesis by metis
qed

lemma leftrotate_rotl:
  assumes "0 < c" and "c < 32"
  shows "leftrotate x c = word_rotl c x"
proof (rule bit_word_eqI)
  fix n assume "n < LENGTH(32)"
  then have n: "n < 32" by simp
  have "\<not> bit x (n + (32 - c))" if "c \<le> n" using that assms by (auto dest: bit_imp_le_length)
  moreover have "bit (leftrotate x c) n \<longleftrightarrow> c \<le> n \<and> bit x (n - c) \<or> bit x (n + (32 - c))"
    using n by (simp add: leftrotate_def bit_or_iff bit_push_bit_iff bit_drop_bit_eq add.commute)
  ultimately show "bit (leftrotate x c) n = bit (word_rotl c x) n"
    unfolding rotl_bit [OF assms n] by auto
qed

lemma md5_r_range: "j < 64 \<Longrightarrow> 0 < md5_r ! j \<and> md5_r ! j < 32"
proof -
  assume "j < 64"
  then have "md5_r ! j \<in> set md5_r" by (intro nth_mem) (simp add: md5_r_def)
  moreover have "\<forall>c\<in>set md5_r. 0 < c \<and> c < 32" by (simp add: md5_r_def)
  ultimately show ?thesis by blast
qed

text \<open>The driver computes the first two functions with one operation less.\<close>

lemma md5_functions:
  fixes b c d :: u32
  shows "j < 16 \<Longrightarrow> ((c XOR d) AND b) XOR d = rfc_f j b c d"
    "16 \<le> j \<Longrightarrow> j < 32 \<Longrightarrow> ((b XOR c) AND d) XOR c = rfc_f j b c d"
    "32 \<le> j \<Longrightarrow> j < 48 \<Longrightarrow> (b XOR c) XOR d = rfc_f j b c d"
    "48 \<le> j \<Longrightarrow> c XOR (b OR NOT d) = rfc_f j b c d"
  by (simp_all add: rfc_f_def xor.assoc) (rule bit_word_eqI; auto simp: bit_simps)+

lemma md5_step_rfc:
  assumes "j < 64" and "\<And>b c d. f b c d = rfc_f j b c d" and "g j = rfc_word j"
  shows "md5_step f g block j q = rfc_step block j q"
  using md5_r_range [OF assms(1)] assms(2,3)
  by (simp add: md5_step_def rfc_step_def leftrotate_rotl Let_def split: prod.splits)
    (simp add: algebra_simps)

lemma rounds_fold:
  assumes "\<And>j b c d. lo \<le> j \<Longrightarrow> j < hi \<Longrightarrow> f b c d = rfc_f j b c d"
    and "\<And>j. lo \<le> j \<Longrightarrow> j < hi \<Longrightarrow> g j = rfc_word j" and "hi \<le> 64"
  shows "fold (md5_step f g block) [lo..<hi] = fold (rfc_step block) [lo..<hi]"
  using assms by (intro ext fold_cong) (auto intro!: md5_step_rfc)

lemma sixty_four: "[0..<64] = [0..<16] @ [16..<32] @ [32..<48] @ [48..<64]"
  by (simp add: upt_rec)

lemma transform_compress:
  "md5_transform ctx = ctx\<lparr>md_h := compress (md_buffer ctx) (md_h ctx)\<rparr>"
proof -
  have rounds:
    "fold (md5_step (\<lambda>b c d. ((c XOR d) AND b) XOR d) (\<lambda>j. j) block) [0..<16] = fold (rfc_step block) [0..<16]"
    "fold (md5_step (\<lambda>b c d. ((b XOR c) AND d) XOR c) (\<lambda>j. (5 * j + 1) mod 16) block) [16..<32] =
      fold (rfc_step block) [16..<32]"
    "fold (md5_step (\<lambda>b c d. (b XOR c) XOR d) (\<lambda>j. (3 * j + 5) mod 16) block) [32..<48] =
      fold (rfc_step block) [32..<48]"
    "fold (md5_step (\<lambda>b c d. c XOR (b OR NOT d)) (\<lambda>j. (7 * j) mod 16) block) [48..<64] =
      fold (rfc_step block) [48..<64]" for block
    by (rule rounds_fold; (rule md5_functions | simp add: rfc_word_def); simp)+
  then show ?thesis
    by (simp only: md5_transform_def compress_def sixty_four fold_append comp_apply Let_def rounds)
      (simp split: prod.splits)
qed

section \<open>Incremental hashing\<close>

text \<open>
  The context after \<open>msg\<close>: the whole blocks have been hashed, the rest stands at the start of the
  buffer.
\<close>

definition absorbed :: "md_context \<Rightarrow> byte list \<Rightarrow> byte list \<Rightarrow> bool" where
  "absorbed ctx whole rest \<longleftrightarrow>
    64 dvd length whole \<and> length rest < 64 \<and> length (md_buffer ctx) = 64 \<and>
    md_h ctx = fold compress (blocks_of whole) md5_init \<and> take (length rest) (md_buffer ctx) = rest"

lemma blocks_of_append:
  "64 dvd length xs \<Longrightarrow> blocks_of (xs @ ys) = blocks_of xs @ blocks_of ys"
proof (induction xs rule: blocks_of.induct)
  case (1 xs)
  show ?case
  proof (cases "length xs < 64")
    case True
    then have "xs = []" using 1(2) by (auto dest: dvd_imp_le)
    then show ?thesis by (simp add: blocks_of.simps [of "[]"])
  next
    case False
    then have "64 dvd length (drop 64 xs)" using 1(2) by (simp add: dvd_diff_nat)
    then show ?thesis
      using 1(1) [OF False] False by (simp add: blocks_of.simps [of xs] blocks_of.simps [of "xs @ ys"])
  qed
qed

lemma blocks_of_one [simp]: "length block = 64 \<Longrightarrow> blocks_of block = [block]"
  by (simp add: blocks_of.simps)

lemma hash_next:
  assumes "64 dvd length whole" and "length block = 64"
  shows "fold compress (blocks_of (whole @ block)) md5_init = compress block (fold compress (blocks_of whole) md5_init)"
  using assms by (simp add: blocks_of_append)

definition hashing :: "md_context \<Rightarrow> byte list \<Rightarrow> bool" where
  "hashing ctx msg \<longleftrightarrow>
    (\<exists>whole rest. msg = whole @ rest \<and> absorbed ctx whole rest \<and> md_count ctx = of_nat (length msg))"

lemma low_six: "unat (of_nat n AND 63 :: 64 word) = n mod 64"
proof -
  have "(of_nat n AND 63 :: 64 word) = take_bit 6 (of_nat n)"
    by (simp add: take_bit_eq_mask mask_eq_exp_minus_1)
  moreover have "unat (take_bit 6 (of_nat n :: 64 word)) = take_bit 6 n"
    by (simp only: unsigned_take_bit_eq unsigned_of_nat take_bit_take_bit) simp
  ultimately show ?thesis by (simp add: take_bit_eq_mod)
qed

lemma unat_of_nat64: "n < 2 ^ 64 \<Longrightarrow> unat (of_nat n :: 64 word) = n"
  by (simp add: unsigned_of_nat take_bit_nat_eq_self)

lemma buffered:
  assumes "hashing ctx msg"
  shows "\<exists>whole rest. msg = whole @ rest \<and> absorbed ctx whole rest \<and> unat (md_count ctx AND 63) = length rest"
proof -
  obtain whole rest where m: "msg = whole @ rest" "absorbed ctx whole rest"
    "md_count ctx = of_nat (length msg)"
    using assms by (auto simp: hashing_def)
  have "unat (md_count ctx AND 63) = length msg mod 64" unfolding m(3) by (rule low_six)
  moreover have "length msg mod 64 = length rest" using m(1,2) by (auto simp: absorbed_def elim!: dvdE)
  ultimately show ?thesis using m(1,2) by auto
qed

lemma md5_blocks_absorb:
  assumes "64 dvd length whole" and "length (md_buffer ctx) = 64"
    and "md_h ctx = fold compress (blocks_of whole) md5_init"
  shows "\<exists>whole' rest'. whole @ chunk = whole' @ rest' \<and> absorbed (md5_blocks chunk ctx) whole' rest' \<and>
    md_count (md5_blocks chunk ctx) = md_count ctx"
  using assms
proof (induction chunk ctx arbitrary: whole rule: md5_blocks.induct)
  case (1 chunk ctx)
  show ?case
  proof (cases "64 \<le> length chunk")
    case True
    let ?next = "md5_transform (ctx\<lparr>md_buffer := take 64 chunk\<rparr>)"
    have "md_h ?next = fold compress (blocks_of (whole @ take 64 chunk)) md5_init"
      using True 1(2,4) by (simp add: transform_compress hash_next)
    then show ?thesis
      using 1(1) [OF True, of "whole @ take 64 chunk"] True 1(2)
      by (simp add: md5_blocks.simps [of chunk] transform_compress)
  next
    case False
    then show ?thesis
      using 1(2-4) by (intro exI [of _ whole] exI [of _ chunk])
        (simp add: md5_blocks.simps [of chunk] absorbed_def splice_def)
  qed
qed

lemma md5_update_hashing:
  assumes "hashing ctx msg" and "length chunk < 2 ^ 63"
  shows "hashing (md5_update ctx chunk) (msg @ chunk)"
proof -
  obtain whole rest where m: "msg = whole @ rest" "absorbed ctx whole rest"
    "unat (md_count ctx AND 63) = length rest"
    using buffered [OF assms(1)] by blast
  let ?r = "length rest" and ?buf = "md_buffer ctx"
  have r: "?r < 64" "length ?buf = 64" "take ?r ?buf = rest" "64 dvd length whole"
    "md_h ctx = fold compress (blocks_of whole) md5_init"
    using m(2) by (simp_all add: absorbed_def)
  have count: "md_count ctx + of_nat (length chunk) = of_nat (length (msg @ chunk))"
    using assms(1) by (auto simp: hashing_def)
  have short: "(of_nat ?r + of_nat (length chunk) :: 64 word) < 64 \<longleftrightarrow> ?r + length chunk < 64"
  proof -
    have "unat (of_nat (?r + length chunk) :: 64 word) = ?r + length chunk"
      using r(1) assms(2) by (intro unat_of_nat64) simp
    then show ?thesis by (simp only: of_nat_add word_less_nat_alt) simp
  qed
  show ?thesis
  proof (cases "?r + length chunk < 64")
    case True
    then have "absorbed (md5_update ctx chunk) whole (rest @ chunk)"
      using r by (simp add: absorbed_def md5_update_def m(3) short splice_def)
    moreover have "md_count (md5_update ctx chunk) = of_nat (length (msg @ chunk))"
      unfolding count [symmetric] using True by (simp add: md5_update_def m(3) short)
    ultimately show ?thesis using m(1) by (auto simp: hashing_def)
  next
    case False
    let ?fill = "take (64 - ?r) chunk"
    let ?c = "md5_transform (ctx\<lparr>md_count := md_count ctx + of_nat (length chunk),
      md_buffer := splice ?buf ?r ?fill\<rparr>)"
    have block: "splice ?buf ?r ?fill = rest @ ?fill" "length (rest @ ?fill) = 64"
      using False r(1-3) by (simp_all add: splice_def)
    then have "md_h ?c = fold compress (blocks_of (whole @ rest @ ?fill)) md5_init" "length (md_buffer ?c) = 64"
      using r(4,5) by (simp_all add: transform_compress hash_next)
    moreover have "64 dvd length (whole @ rest @ ?fill)" using r(4) block(2) by simp
    ultimately obtain whole' rest' where w: "(whole @ rest @ ?fill) @ drop (64 - ?r) chunk = whole' @ rest'"
      "absorbed (md5_blocks (drop (64 - ?r) chunk) ?c) whole' rest'"
      "md_count (md5_blocks (drop (64 - ?r) chunk) ?c) = md_count ?c"
      using md5_blocks_absorb [of "whole @ rest @ ?fill" ?c "drop (64 - ?r) chunk"] by blast
    have "md5_update ctx chunk = md5_blocks (drop (64 - ?r) chunk) ?c"
      using False by (simp add: md5_update_def m(3) short Let_def)
    moreover have "md_count ?c = of_nat (length (msg @ chunk))"
      unfolding count [symmetric] by (simp add: transform_compress)
    moreover have "msg @ chunk = whole' @ rest'" unfolding w(1) [symmetric] m(1) by simp
    ultimately show ?thesis unfolding hashing_def using w(2,3) by metis
  qed
qed

section \<open>The digest\<close>

lemma length_bytes64 [simp]: "length (bytes64 w) = 8"
  by (simp add: bytes64_def)

lemma finish_buffer:
  assumes "length buf = 64" and "r < 64" and "take r buf = rest" and "length rest = r"
  shows "splice (buf[r := x]) (r + 1) (replicate (63 - r) 0) = rest @ x # replicate (63 - r) 0"
  using assms by (simp add: splice_def take_Suc_conv_app_nth nth_list_update)

lemma padding_length:
  assumes "64 dvd length whole" and "length rest < 64"
  shows "nat ((55 - int (length (whole @ rest))) mod 64) =
    (if length rest < 56 then 55 - length rest else 119 - length rest)"
proof -
  obtain k where k: "length whole = 64 * k" using assms(1) by (auto elim: dvdE)
  have "(55 - int (length (whole @ rest))) mod 64 = (55 - int (length rest) + 64 * (- int k)) mod 64"
    by (simp add: k algebra_simps)
  also have "\<dots> = (55 - int (length rest)) mod 64" by (rule mod_mult_self2)
  finally have *: "(55 - int (length (whole @ rest))) mod 64 = (55 - int (length rest)) mod 64" .
  show ?thesis
  proof (cases "length rest < 56")
    case True
    then show ?thesis unfolding * by (simp add: nat_diff_distrib')
  next
    case False
    have "(55 - int (length rest)) mod 64 = (119 - int (length rest) + 64 * (- 1)) mod 64" by simp
    also have "\<dots> = (119 - int (length rest)) mod 64" by (rule mod_mult_self2)
    finally show ?thesis unfolding * using False assms(2) by (simp add: nat_diff_distrib')
  qed
qed

lemma md5_finish_rfc:
  assumes "hashing ctx msg"
  shows "md_digest (md5_finish ctx) = rfc_md5 msg"
proof -
  obtain whole rest where m: "msg = whole @ rest" "absorbed ctx whole rest"
    "unat (md_count ctx AND 63) = length rest"
    using buffered [OF assms] by blast
  let ?r = "length rest" and ?buf = "md_buffer ctx" and ?bits = "bytes64 (of_nat (8 * length msg))"
  let ?h = "fold compress (blocks_of whole) md5_init"
  have r: "?r < 64" "length ?buf = 64" "take ?r ?buf = rest" "64 dvd length whole" "md_h ctx = ?h"
    using m(2) by (simp_all add: absorbed_def)
  have count: "md_count ctx * 8 = of_nat (8 * length msg)"
    using assms by (auto simp: hashing_def)
  have first: "splice (?buf[?r := 0x80]) (Suc ?r) (replicate (63 - ?r) 0) = rest @ 0x80 # replicate (63 - ?r) 0"
    using finish_buffer [OF r(2,1,3) refl] by simp
  have pad: "padded msg = whole @ rest @ 0x80 #
      replicate (if ?r < 56 then 55 - ?r else 119 - ?r) 0 @ ?bits"
    unfolding padded_def m(1) padding_length [OF r(4,1)] by simp
  show ?thesis
  proof (cases "?r < 56")
    case True
    let ?block = "rest @ 0x80 # replicate (55 - ?r) 0 @ ?bits"
    have "63 - ?r = (55 - ?r) + 8" using True by simp
    then have "splice (rest @ 0x80 # replicate (63 - ?r) 0) 56 ?bits = ?block"
      using True by (simp add: splice_def take_Cons' Suc_diff_le)
    moreover have "blocks_of (padded msg) = blocks_of whole @ [?block]"
      using True r(4) by (simp add: pad blocks_of_append)
    ultimately show ?thesis
      using True r(5) by (simp add: md5_finish_def m(3) first Let_def count transform_compress rfc_md5_def)
  next
    case False
    let ?block = "rest @ 0x80 # replicate (63 - ?r) 0" and ?last = "replicate 56 0 @ ?bits"
    have "119 - ?r = (63 - ?r) + 56" using False r(1) by simp
    then have "replicate (119 - ?r) (0 :: byte) = replicate (63 - ?r) 0 @ replicate 56 0"
      by (simp only: replicate_add)
    then have "padded msg = whole @ ?block @ ?last"
      unfolding pad if_not_P [OF False] by (simp only: append_assoc append_Cons)
    moreover have two: "length ?block = 64" "length ?last = 64" using r(1) by simp_all
    then have "64 dvd length ?block" by simp
    ultimately have "blocks_of (padded msg) = blocks_of whole @ [?block, ?last]"
      using r(4) by (simp only: blocks_of_append blocks_of_one [OF two(1)] blocks_of_one [OF two(2)]) simp
    moreover have "splice (replicate 64 0) 56 ?bits = ?last" by (simp add: splice_def)
    ultimately show ?thesis
      using False r(5) by (simp add: md5_finish_def m(3) first Let_def count transform_compress rfc_md5_def)
  qed
qed

lemma hashing_start: "hashing (md5_start junk) []"
  by (simp add: hashing_def absorbed_def md5_start_def blocks_of.simps [of "[]"])

lemma md5_memory_loop_hashing:
  "hashing ctx msg \<Longrightarrow> hashing (md5_memory_loop mem ctx) (msg @ mem)"
proof (induction mem ctx arbitrary: msg rule: md5_memory_loop.induct)
  case (1 mem ctx)
  have small: "length (take BUFSIZE mem) < 2 ^ 63" by (simp add: BUFSIZE_def)
  show ?case
  proof (cases "length mem > BUFSIZE")
    case True
    from 1(1) [OF True md5_update_hashing [OF 1(2) small]] True show ?thesis
      by (simp add: md5_memory_loop.simps [of mem])
  next
    case False
    then have "length mem < 2 ^ 63" by (simp add: BUFSIZE_def)
    from md5_update_hashing [OF 1(2) this] False show ?thesis
      by (simp add: md5_memory_loop.simps [of mem])
  qed
qed

lemma md5_file_loop_hashing:
  "hashing ctx msg \<Longrightarrow> hashing (md5_file_loop data ctx) (msg @ data)"
proof (induction data ctx arbitrary: msg rule: md5_file_loop.induct)
  case (1 data ctx)
  have small: "length (take BUFSIZE data) < 2 ^ 63" by (simp add: BUFSIZE_def)
  show ?case
  proof (cases "length data \<ge> BUFSIZE")
    case True
    from 1(1) [OF True md5_update_hashing [OF 1(2) small]] True show ?thesis
      by (simp add: md5_file_loop.simps [of data])
  next
    case False
    then have "length data < 2 ^ 63" by (simp add: BUFSIZE_def)
    from md5_update_hashing [OF 1(2) this] False show ?thesis
      by (simp add: md5_file_loop.simps [of data])
  qed
qed

lemma length_compress: "length (compress block h) = 4"
  by (simp add: compress_def split: prod.splits)

lemma length_chain: "length h = 4 \<Longrightarrow> length (fold compress bs h) = 4"
  by (induction bs arbitrary: h) (simp_all add: length_compress)

lemma rfc_md5_length: "length (rfc_md5 msg) = 16"
proof -
  obtain a b c d where "fold compress (blocks_of (padded msg)) md5_init = [a, b, c, d]"
    using length_chain [of md5_init "blocks_of (padded msg)"]
    by (auto simp: md5_init_def length_Suc_conv numeral_eq_Suc)
  then show ?thesis by (simp add: rfc_md5_def)
qed

text \<open>
  C39: The incremental digests of memory and of a file, whatever the sizes of the pieces and whatever
  the context held before, are the MD5 digest of RFC 1321 of the whole message; the driver's hash of
  an image region is the digest of its bytes.
\<close>

theorem md5_digest_rfc:
  "md5_memory junk mem = (0, rfc_md5 mem) \<and> md5_file junk (Some mem) = (0, Some (rfc_md5 mem)) \<and>
    block_pc_hash junk start len d = (0, rfc_md5 (map (\<lambda>i. pc_blocks d (start + i)) [0..<len]))"
  using md5_finish_rfc [OF md5_memory_loop_hashing [OF hashing_start]]
    md5_finish_rfc [OF md5_file_loop_hashing [OF hashing_start]]
  by (simp add: md5_memory_def md5_file_def block_pc_hash_def rfc_md5_length)

text \<open>The test suite of the RFC: the digest of \<open>abc\<close>.\<close>

lemma rfc_md5_abc:
  "rfc_md5 [0x61, 0x62, 0x63] =
    [0x90, 0x01, 0x50, 0x98, 0x3c, 0xd2, 0x4f, 0xb0, 0xd6, 0x96, 0x3f, 0x7d, 0x28, 0xe1, 0x7f, 0x72]"
  by code_simp

end
