(* ===== verification/Partition.thy ===== *)
theory Partition
  imports Gristle_Prelude
begin

text \<open>
  partition.c: the four primary entries of a master boot record, read out of the 512 byte block
  and validated against the size of the volume; the specification is over the numbers at the offsets of
  the record.
\<close>

section \<open>Model\<close>

record mbr_entry =
  bootable :: byte
  chs :: "byte list"
  mbr_type :: byte
  chs_end :: "byte list"
  lba_start :: u32
  mbr_length :: u32

record partition =
  p_start :: blockno
  p_length :: blockno
  p_type :: byte

definition PARTITION0START :: nat where
  "PARTITION0START = 0x1BE"

text \<open>The packed \<open>mbr_entry\<close> at \<open>mbr + PARTITION0START + 16 * i\<close>.\<close>

definition mbr_entry_at :: "byte list \<Rightarrow> nat \<Rightarrow> mbr_entry" where
  "mbr_entry_at mbr i =
    (let o0 = PARTITION0START + 16 * i in
     \<lparr>bootable = mbr ! o0, chs = slice (o0 + 1) 3 mbr, mbr_type = mbr ! (o0 + 4),
      chs_end = slice (o0 + 5) 3 mbr, lba_start = get32 mbr (o0 + 8),
      mbr_length = get32 mbr (o0 + 12)\<rparr>)"

text \<open>The test of the loop, with the sum in \<open>uint32_t\<close> as in the code.\<close>

definition entry_accepted :: "blockno \<Rightarrow> mbr_entry \<Rightarrow> bool" where
  "entry_accepted volume_size e \<longleftrightarrow>
    lba_start e < volume_size \<and> lba_start e + mbr_length e \<le> volume_size \<and>
    lba_start e > 0 \<and> mbr_length e > 0"

definition to_partition :: "mbr_entry \<Rightarrow> partition" where
  "to_partition e = \<lparr>p_start = lba_start e, p_length = mbr_length e, p_type = mbr_type e\<rparr>"

text \<open>One iteration: \<open>retval\<close> is the function's static array, \<open>j\<close> the entries stored so far.\<close>

definition rpt_step :: "byte list \<Rightarrow> blockno \<Rightarrow> nat \<Rightarrow> nat \<times> partition list \<Rightarrow> nat \<times> partition list" where
  "rpt_step mbr volume_size i jr =
    (let e = mbr_entry_at mbr i in
     if entry_accepted volume_size e
     then (fst jr + 1, (snd jr)[fst jr := to_partition e])
     else jr)"

definition read_partition_table ::
  "byte list \<Rightarrow> blockno \<Rightarrow> partition list \<Rightarrow> nat \<times> partition list" where
  "read_partition_table mbr volume_size retval =
    fold (rpt_step mbr volume_size) [0..<4] (0, retval)"

section \<open>What the table contains\<close>

lemma rpt_fold:
  assumes "j + length ks \<le> length r"
  shows "\<exists>r'. fold (rpt_step mbr vol) ks (j, r) =
      (j + length (filter (entry_accepted vol) (map (mbr_entry_at mbr) ks)), r') \<and>
    length r' = length r \<and>
    take (j + length (filter (entry_accepted vol) (map (mbr_entry_at mbr) ks))) r' =
      take j r @ map to_partition (filter (entry_accepted vol) (map (mbr_entry_at mbr) ks))"
  using assms
proof (induction ks arbitrary: j r)
  case Nil
  then show ?case by simp
next
  case (Cons i ks)
  show ?case
  proof (cases "entry_accepted vol (mbr_entry_at mbr i)")
    case False
    with Cons.IH [of j r] Cons.prems show ?thesis by (simp add: rpt_step_def)
  next
    case True
    let ?r1 = "r[j := to_partition (mbr_entry_at mbr i)]"
    have "take (Suc j) ?r1 = take j r @ [to_partition (mbr_entry_at mbr i)]"
      using Cons.prems by (simp add: take_Suc_conv_app_nth)
    with True Cons.IH [of "Suc j" ?r1] Cons.prems show ?thesis
      by (auto simp: rpt_step_def Let_def)
  qed
qed

text \<open>
  The table apart from the program: entry \<open>i\<close> lies at byte \<open>446 + 16 i\<close> of the record, with its type
  in byte 4, its first block in bytes 8 to 11 and its length in bytes 12 to 15. It counts when both
  numbers are positive, it starts within the volume, and its end, a number modulo \<open>2^32\<close> as the driver
  computes it, is not behind the end of the volume.
\<close>

definition mbr_numbers :: "byte list \<Rightarrow> nat \<Rightarrow> nat \<times> nat \<times> byte" where
  "mbr_numbers mbr i =
    (le_number mbr (446 + 16 * i + 8) 4, le_number mbr (446 + 16 * i + 12) 4, mbr ! (446 + 16 * i + 4))"

fun numbers_fit :: "nat \<Rightarrow> nat \<times> nat \<times> byte \<Rightarrow> bool" where
  "numbers_fit vol (start, len, ty) \<longleftrightarrow>
    0 < start \<and> 0 < len \<and> start < vol \<and> (start + len) mod 2 ^ 32 \<le> vol"

definition partition_numbers :: "partition \<Rightarrow> nat \<times> nat \<times> byte" where
  "partition_numbers p = (unat (p_start p), unat (p_length p), p_type p)"

lemma partition_numbers_entry: "partition_numbers (to_partition (mbr_entry_at mbr i)) = mbr_numbers mbr i"
  by (simp add: partition_numbers_def to_partition_def mbr_entry_at_def mbr_numbers_def unat_get32
      PARTITION0START_def)

lemma entry_accepted_numbers: "entry_accepted vol (mbr_entry_at mbr i) \<longleftrightarrow> numbers_fit (unat vol) (mbr_numbers mbr i)"
  unfolding partition_numbers_entry [symmetric]
  by (auto simp: partition_numbers_def to_partition_def entry_accepted_def word_less_nat_alt word_le_nat_alt
      unat_word_ariths)

lemma accepted_numbers:
  "map (partition_numbers \<circ> to_partition) (filter (entry_accepted vol) (map (mbr_entry_at mbr) ks)) =
    filter (numbers_fit (unat vol)) (map (mbr_numbers mbr) ks)"
  by (induction ks) (simp_all add: entry_accepted_numbers partition_numbers_entry)

text \<open>
  C40: The table holds the start, length and type of exactly the entries of the record that count, in
  the order of the record, and the result is their number. (The end of an entry is taken modulo \<open>2^32\<close>,
  as in the code, so that an entry can count that runs far behind the volume.)
\<close>

theorem partition_table_exact:
  assumes "length retval = 4" and "read_partition_table mbr vol retval = (j, r)"
  shows "map (\<lambda>p. (unat (p_start p), unat (p_length p), p_type p)) (take j r) =
      filter (numbers_fit (unat vol)) (map (mbr_numbers mbr) [0..<4]) \<and>
    j = length (filter (numbers_fit (unat vol)) (map (mbr_numbers mbr) [0..<4])) \<and> length r = 4"
proof -
  let ?es = "filter (entry_accepted vol) (map (mbr_entry_at mbr) [0..<4])"
  have "j = length ?es" "length r = 4" "take j r = map to_partition ?es"
    using assms rpt_fold [of 0 "[0..<4]" retval mbr vol] by (auto simp: read_partition_table_def)
  moreover from this have "map partition_numbers (take j r) =
      filter (numbers_fit (unat vol)) (map (mbr_numbers mbr) [0..<4])"
    using accepted_numbers [of vol mbr "[0..<4]"] by simp
  moreover from this have "length (take j r) = length (filter (numbers_fit (unat vol)) (map (mbr_numbers mbr) [0..<4]))"
    by (metis length_map)
  ultimately show ?thesis
    by (simp add: partition_numbers_def [abs_def])
qed

definition demo_mbr :: "byte list" where
  "demo_mbr = replicate 446 0 @
    [0x80, 0, 0, 0, 6, 0, 0, 0, 10, 0, 0, 0, 20, 0, 0, 0] @ replicate 50 0"

lemma demo_mbr_lookup:
  "demo_mbr ! i = (if i < 446 then 0
    else if i < 462 then [0x80, 0, 0, 0, 6, 0, 0, 0, 10, 0, 0, 0, 20, 0, 0, 0] ! (i - 446) else 0)"
  if "i < 512" using that by (auto simp: demo_mbr_def nth_append simp del: append.simps)

lemma demo_mbr_numbers:
  "filter (numbers_fit 100) (map (mbr_numbers demo_mbr) [0..<4]) = [(10, 20, 6)]"
  by (simp add: upt_rec mbr_numbers_def le_number_simps demo_mbr_lookup)

lemma partition_table_exact_witness:
  "\<exists>j r. read_partition_table demo_mbr 100 (replicate 4 \<lparr>p_start = 0, p_length = 0, p_type = 0\<rparr>) =
      (j, r) \<and> j = 1 \<and> map (\<lambda>p. (unat (p_start p), unat (p_length p), p_type p)) (take j r) = [(10, 20, 6)]"
proof -
  obtain j r where t: "read_partition_table demo_mbr 100
      (replicate 4 \<lparr>p_start = 0, p_length = 0, p_type = 0\<rparr>) = (j, r)" by fastforce
  have "map (\<lambda>p. (unat (p_start p), unat (p_length p), p_type p)) (take j r) = [(10, 20, 6)] \<and> j = 1"
    using partition_table_exact [OF _ t] by (auto simp: demo_mbr_numbers)
  then show ?thesis
    by (intro exI [of _ j] exI [of _ r] conjI t) (erule conjunct2, erule conjunct1)
qed

lemma entry_accepted_bounds:
  assumes "entry_accepted vol e" and "unat (lba_start e) + unat (mbr_length e) < 2 ^ 32"
  shows "unat (lba_start e) + unat (mbr_length e) \<le> unat vol"
proof -
  have "unat (lba_start e + mbr_length e) = unat (lba_start e) + unat (mbr_length e)"
    using assms(2) by (simp add: unat_word_ariths)
  then show ?thesis
    using assms(1) by (simp add: entry_accepted_def word_le_nat_alt)
qed

end
