(* ===== verification/Fat_Time.thy ===== *)
theory Fat_Time
  imports Gristle_Prelude
begin

text \<open>
  Time formatting of gristle.c: the 16 bit FAT date and time words against \<open>time_t\<close>. The C
  library's \<open>gmtime\<close> and \<open>mktime\<close> are modelled on the proleptic Gregorian calendar, in UTC
  (newlib without TZ, the setting of the target), with a 64 bit \<open>time_t\<close>.
\<close>

section \<open>The calendar of the C library\<close>

record tm =
  tm_sec :: int
  tm_min :: int
  tm_hour :: int
  tm_mday :: int
  tm_mon :: int
  tm_year :: int

definition is_leap :: "int \<Rightarrow> bool" where
  "is_leap y \<longleftrightarrow> (y mod 4 = 0 \<and> y mod 100 \<noteq> 0) \<or> y mod 400 = 0"

definition days_in_year :: "int \<Rightarrow> int" where
  "days_in_year y = (if is_leap y then 366 else 365)"

definition month_lengths :: "int \<Rightarrow> int list" where
  "month_lengths y = [31, if is_leap y then 29 else 28, 31, 30, 31, 30, 31, 31, 30, 31, 30, 31]"

text \<open>Days from 1970-01-01 to the first of January of year \<open>y\<close>.\<close>

definition days_before_year :: "int \<Rightarrow> int" where
  "days_before_year y =
    365 * (y - 1970) + ((y - 1) div 4 - (y - 1) div 100 + (y - 1) div 400) - 477"

definition days_before_month :: "int \<Rightarrow> nat \<Rightarrow> int" where
  "days_before_month y m = sum_list (take m (month_lengths y))"

lemma div_pred:
  fixes n y :: int
  assumes "0 < n"
  shows "y div n = (y - 1) div n + (if y mod n = 0 then 1 else 0)"
proof (cases "y mod n = 0")
  case True
  have "y = n * (y div n)" using True by (simp add: minus_mod_eq_mult_div [symmetric])
  then have "y - 1 = n * (y div n - 1) + (n - 1)" by (simp add: algebra_simps)
  then have "(y - 1) div n = y div n - 1"
    by (rule int_div_pos_eq) (use assms in simp_all)
  with True show ?thesis by simp
next
  case False
  have "0 \<le> y mod n" "y mod n < n" using assms by simp_all
  moreover have "y - 1 = n * (y div n) + (y mod n - 1)"
    by (simp add: minus_mod_eq_mult_div [symmetric])
  ultimately have "(y - 1) div n = y div n"
    using False by (intro int_div_pos_eq [of "y - 1" n "y div n" "y mod n - 1"]) simp_all
  with False show ?thesis by simp
qed

lemma days_before_year_step: "days_before_year (y + 1) = days_before_year y + days_in_year y"
proof -
  have 400: "y mod 100 = 0" if "y mod 400 = 0"
    using that dvd_trans [of 100 400 y] by (simp add: dvd_eq_mod_eq_0)
  have 100: "y mod 4 = 0" if "y mod 100 = 0"
    using that by presburger
  have step: "y div n - (y - 1) div n = (if y mod n = 0 then 1 else 0)" if "0 < n" for n
    using div_pred [OF that, of y] by simp
  have linear: "365 * (y + 1 - 1970) + (a - b + c) - 477 - (365 * (y - 1970) + (a' - b' + c') - 477) =
      365 + (a - a') - (b - b') + (c - c')" for a b c a' b' c' :: int
    by (simp add: algebra_simps)
  have "days_before_year (y + 1) - days_before_year y =
      365 + (y div 4 - (y - 1) div 4) - (y div 100 - (y - 1) div 100) + (y div 400 - (y - 1) div 400)"
    unfolding days_before_year_def by (simp only: add_diff_cancel_right' linear)
  also have "\<dots> = 365 + (if y mod 4 = 0 then 1 else 0) - (if y mod 100 = 0 then 1 else 0) +
      (if y mod 400 = 0 then 1 else 0)"
    by (simp only: step zero_less_numeral)
  also have "\<dots> = days_in_year y"
    unfolding days_in_year_def is_leap_def using 400 100 by (simp only: split: if_split) auto
  finally show ?thesis by simp
qed

lemma days_in_year_bounds: "365 \<le> days_in_year y" "days_in_year y \<le> 366"
  by (simp_all add: days_in_year_def)

text \<open>The year day \<open>d\<close> falls in: from a year that is not too late, step up.\<close>

function year_from :: "int \<Rightarrow> int \<Rightarrow> int" where
  "year_from y d = (if days_before_year (y + 1) \<le> d then year_from (y + 1) d else y)"
  by pat_completeness auto
termination
proof (relation "measure (\<lambda>(y, d). nat (d - days_before_year y))")
  fix y d assume "days_before_year (y + 1) \<le> d"
  then show "((y + 1, d), (y, d)) \<in> measure (\<lambda>(y, d). nat (d - days_before_year y))"
    using days_before_year_step [of y] days_in_year_bounds [of y] by auto
qed simp

declare year_from.simps [simp del]

definition year_of_day :: "int \<Rightarrow> int" where
  "year_of_day d = year_from (1970 + (if d \<ge> 0 then d div 366 else d div 365)) d"

fun find_month :: "int list \<Rightarrow> int \<Rightarrow> nat \<times> int" where
  "find_month [] d = (0, d)"
| "find_month (l # ls) d =
    (if d < l then (0, d) else (let (m, d') = find_month ls (d - l) in (Suc m, d')))"

definition gmtime :: "int \<Rightarrow> tm" where
  "gmtime t =
    (let day = t div 86400; s = t mod 86400; y = year_of_day day;
         (m, d) = find_month (month_lengths y) (day - days_before_year y)
     in \<lparr>tm_sec = s mod 60, tm_min = s div 60 mod 60, tm_hour = s div 3600,
         tm_mday = d + 1, tm_mon = int m, tm_year = y - 1900\<rparr>)"

text \<open>\<open>mktime\<close> accepts fields outside their ranges and normalises them.\<close>

definition mktime :: "tm \<Rightarrow> int" where
  "mktime tm =
    (let y = tm_year tm + 1900 + tm_mon tm div 12; m = nat (tm_mon tm mod 12);
         day = days_before_year y + days_before_month y m + tm_mday tm - 1
     in ((day * 24 + tm_hour tm) * 60 + tm_min tm) * 60 + tm_sec tm)"

section \<open>Conversions of gristle.c\<close>

definition fat_to_unix_time :: "u16 \<Rightarrow> int" where
  "fat_to_unix_time fat_time =
    mktime \<lparr>tm_sec = uint (push_bit 1 (fat_time AND 0x001F)),
            tm_min = uint (drop_bit 5 (fat_time AND 0x03E0)),
            tm_hour = uint (drop_bit 11 (fat_time AND 0xF800)),
            tm_mday = 0, tm_mon = 0, tm_year = 0\<rparr>"

definition fat_from_unix_time :: "int \<Rightarrow> u16" where
  "fat_from_unix_time seconds =
    (let tm = gmtime seconds in
     0 + word_of_int (push_bit 11 (tm_hour tm)) + word_of_int (push_bit 5 (tm_min tm)) +
     word_of_int (drop_bit 1 (tm_sec tm)))"

definition fat_to_unix_date :: "u16 \<Rightarrow> int" where
  "fat_to_unix_date fat_date =
    mktime \<lparr>tm_sec = 0, tm_min = 0, tm_hour = 0,
            tm_mday = uint (fat_date AND 0x001F),
            tm_mon = uint (drop_bit 5 (fat_date AND 0x01E0)) - 1,
            tm_year = uint (drop_bit 9 (fat_date AND 0xFE00)) + 80\<rparr>"

definition fat_from_unix_date :: "int \<Rightarrow> u16" where
  "fat_from_unix_date seconds =
    (let tm = gmtime seconds in
     0 + word_of_int (push_bit 9 (tm_year tm - 80)) + word_of_int (push_bit 5 (tm_mon tm + 1)) +
     word_of_int (tm_mday tm))"

section \<open>gmtime inverts mktime\<close>

lemma days_before_year_mono: "y \<le> z \<Longrightarrow> days_before_year y \<le> days_before_year z"
proof (induction "nat (z - y)" arbitrary: z)
  case 0
  then show ?case by simp
next
  case (Suc n)
  then have "days_before_year y \<le> days_before_year (z - 1)" by auto
  also have "\<dots> \<le> days_before_year z"
    using days_before_year_step [of "z - 1"] days_in_year_bounds [of "z - 1"] by simp
  finally show ?case .
qed

lemma year_from_bounds:
  "days_before_year y \<le> d \<Longrightarrow>
    days_before_year (year_from y d) \<le> d \<and> d < days_before_year (year_from y d + 1)"
proof (induction y d rule: year_from.induct)
  case (1 y d)
  then show ?case
    by (cases "days_before_year (y + 1) \<le> d") (simp_all add: year_from.simps [of y d])
qed

lemma days_before_year_after: "days_before_year (1970 + int n) \<le> 366 * int n"
proof (induction n)
  case 0
  show ?case by (simp add: days_before_year_def)
next
  case (Suc n)
  then show ?case
    using days_before_year_step [of "1970 + int n"] days_in_year_bounds [of "1970 + int n"]
    by (simp add: algebra_simps)
qed

lemma days_before_year_before: "days_before_year (1970 - int n) \<le> - 365 * int n"
proof (induction n)
  case 0
  show ?case by (simp add: days_before_year_def)
next
  case (Suc n)
  then show ?case
    using days_before_year_step [of "1970 - int (Suc n)"]
      days_in_year_bounds [of "1970 - int (Suc n)"]
    by (simp add: algebra_simps)
qed

lemma year_start_guess: "days_before_year (1970 + (if d \<ge> 0 then d div 366 else d div 365)) \<le> d"
proof (cases "d \<ge> 0")
  case True
  have "366 * (d div 366) \<le> d" by (simp add: minus_mod_eq_mult_div [symmetric])
  with True days_before_year_after [of "nat (d div 366)"] show ?thesis
    by (simp add: pos_imp_zdiv_nonneg_iff)
next
  case False
  have "365 * (d div 365) \<le> d" by (simp add: minus_mod_eq_mult_div [symmetric])
  moreover have "d div 365 < 0" using False by (simp add: pos_imp_zdiv_neg_iff)
  ultimately show ?thesis
    using False days_before_year_before [of "nat (- (d div 365))"] by simp
qed

lemma year_of_day_bounds:
  "days_before_year (year_of_day d) \<le> d" "d < days_before_year (year_of_day d + 1)"
  using year_from_bounds [OF year_start_guess [of d]] by (simp_all add: year_of_day_def)

lemma find_month_spec:
  "0 \<le> d \<Longrightarrow> d < sum_list ls \<Longrightarrow> find_month ls d = (m, r) \<Longrightarrow>
    m < length ls \<and> d = sum_list (take m ls) + r \<and> 0 \<le> r \<and> r < ls ! m"
proof (induction ls d arbitrary: m r rule: find_month.induct)
  case (1 d)
  then show ?case by simp
next
  case (2 l ls d)
  then show ?case
    by (fastforce split: if_splits prod.splits)
qed

lemma sum_month_lengths: "sum_list (month_lengths y) = days_in_year y"
  by (simp add: month_lengths_def days_in_year_def)

lemma length_month_lengths [simp]: "length (month_lengths y) = 12"
  by (simp add: month_lengths_def)

lemma month_lengths_le: "m < 12 \<Longrightarrow> month_lengths y ! m \<le> 31"
  by (auto simp: month_lengths_def less_Suc_eq numeral_eq_Suc nth_Cons split: nat.splits)

text \<open>The calendar fields of \<open>gmtime\<close> and the day they stand for.\<close>

lemma gmtime_fields:
  fixes t :: int
  defines "g \<equiv> gmtime t"
  shows "0 \<le> tm_mon g" "tm_mon g < 12" "1 \<le> tm_mday g" "tm_mday g \<le> 31"
    "tm_hour g = t mod 86400 div 3600" "tm_min g = t mod 86400 div 60 mod 60"
    "tm_sec g = t mod 86400 mod 60" "tm_year g = year_of_day (t div 86400) - 1900"
    "days_before_year (tm_year g + 1900) + days_before_month (tm_year g + 1900) (nat (tm_mon g)) +
      tm_mday g - 1 = t div 86400"
proof -
  define day where "day = t div 86400"
  define y where "y = year_of_day day"
  obtain m r where mr: "find_month (month_lengths y) (day - days_before_year y) = (m, r)"
    by fastforce
  have "0 \<le> day - days_before_year y" "day - days_before_year y < days_in_year y"
    using year_of_day_bounds [of day] days_before_year_step [of y] by (simp_all add: y_def)
  then have spec: "m < 12" "day - days_before_year y = days_before_month y m + r" "0 \<le> r"
    "r < month_lengths y ! m"
    using find_month_spec [OF _ _ mr] by (auto simp: sum_month_lengths days_before_month_def)
  have g: "g = \<lparr>tm_sec = t mod 86400 mod 60, tm_min = t mod 86400 div 60 mod 60,
      tm_hour = t mod 86400 div 3600, tm_mday = r + 1, tm_mon = int m, tm_year = y - 1900\<rparr>"
    using mr by (simp add: g_def gmtime_def Let_def y_def day_def)
  show "0 \<le> tm_mon g" "tm_mon g < 12" "1 \<le> tm_mday g" "tm_mday g \<le> 31"
    "tm_hour g = t mod 86400 div 3600" "tm_min g = t mod 86400 div 60 mod 60"
    "tm_sec g = t mod 86400 mod 60" "tm_year g = year_of_day (t div 86400) - 1900"
    "days_before_year (tm_year g + 1900) + days_before_month (tm_year g + 1900) (nat (tm_mon g)) +
      tm_mday g - 1 = t div 86400"
    using spec month_lengths_le [of m y] by (simp_all add: g y_def day_def)
qed

section \<open>Fields of the 16 bit words\<close>

lemma uint_16_less: "uint (w :: u16) < 65536"
  using unsigned_less [of w, where ?'a = int] by simp

lemma word_field:
  fixes w :: u16
  assumes "m = push_bit n (mask k)"
  shows "uint (drop_bit n (w AND m)) = uint w div 2 ^ n mod 2 ^ k"
proof -
  have "drop_bit n (w AND push_bit n (mask k)) = take_bit k (drop_bit n w)"
    by (rule bit_word_eqI) (auto simp: bit_simps dest: bit_imp_le_length)
  moreover have "uint (take_bit k (drop_bit n w)) = take_bit k (drop_bit n (uint w))"
    by (simp add: unsigned_take_bit_eq unsigned_drop_bit_eq take_bit_int_eq_self uint_16_less)
  ultimately show ?thesis
    unfolding assms by (simp add: take_bit_eq_mod [of k "uint w div 2 ^ n"] drop_bit_eq_div [of n "uint w"])
qed

lemma uint_16_top: "uint (w :: u16) div 512 mod 128 = uint w div 512"
  "uint (w :: u16) div 2048 mod 32 = uint w div 2048"
proof -
  have "uint w div 512 < 128" "uint w div 2048 < 32"
    using zdiv_mono1 [of "uint w" 65535 512] zdiv_mono1 [of "uint w" 65535 2048]
      uint_16_less [of w] by simp_all
  then show "uint w div 512 mod 128 = uint w div 512" "uint w div 2048 mod 32 = uint w div 2048"
    by (simp_all add: mod_pos_pos_trivial pos_imp_zdiv_nonneg_iff)
qed

lemma split_field:
  fixes a b n :: int
  assumes "0 \<le> b" and "b < n"
  shows "(n * a + b) div n = a" and "(n * a + b) mod n = b"
  using assms int_div_pos_eq [of "n * a + b" n a b] int_mod_pos_eq [of "n * a + b" n a b] by simp_all

lemma date_fields:
  "uint (w AND 0x001F :: u16) = uint w mod 32"
  "uint (drop_bit 5 (w AND 0x01E0 :: u16)) = uint w div 32 mod 16"
  "uint (drop_bit 9 (w AND 0xFE00 :: u16)) = uint w div 512"
  using word_field [of "0x001F" 0 5 w] word_field [of "0x01E0" 5 4 w]
    word_field [of "0xFE00" 9 7 w]
  by (simp_all add: mask_eq_exp_minus_1 push_bit_eq_mult uint_16_top)

lemma time_fields:
  "uint (push_bit 1 (w AND 0x001F :: u16)) = 2 * (uint w mod 32)"
  "uint (drop_bit 5 (w AND 0x03E0 :: u16)) = uint w div 32 mod 32"
  "uint (drop_bit 11 (w AND 0xF800 :: u16)) = uint w div 2048"
proof -
  have "uint (w AND 0x001F :: u16) = uint w mod 32" by (rule date_fields)
  then have "uint (2 * (w AND 0x001F :: u16)) = 2 * (uint w mod 32)"
    by (simp add: uint_word_ariths)
  then show "uint (push_bit 1 (w AND 0x001F :: u16)) = 2 * (uint w mod 32)"
    by (simp add: push_bit_eq_mult mult.commute)
  show "uint (drop_bit 5 (w AND 0x03E0 :: u16)) = uint w div 32 mod 32"
    "uint (drop_bit 11 (w AND 0xF800 :: u16)) = uint w div 2048"
    using word_field [of "0x03E0" 5 5 w] word_field [of "0xF800" 11 5 w]
    by (simp_all add: mask_eq_exp_minus_1 push_bit_eq_mult uint_16_top)
qed

lemma uint_of_sum:
  fixes a b c :: int
  assumes "0 \<le> a + b + c" and "a + b + c < 65536"
  shows "uint (0 + word_of_int a + word_of_int b + word_of_int c :: u16) = a + b + c"
proof -
  have "(0 + word_of_int a + word_of_int b + word_of_int c :: u16) = word_of_int (a + b + c)"
    by simp
  then show ?thesis
    using assms by (simp only: uint_word_of_int) (simp add: take_bit_int_eq_self)
qed

section \<open>Round trips\<close>

lemma year_range:
  assumes "315532800 \<le> t" and "t < 4354819200"
  shows "1980 \<le> year_of_day (t div 86400)" and "year_of_day (t div 86400) \<le> 2107"
proof -
  let ?d = "t div 86400" and ?y = "year_of_day (t div 86400)"
  have d: "3652 \<le> ?d" "?d < 50403"
    using assms zdiv_mono1 [of 315532800 t 86400] zdiv_mono1 [of t "4354819200 - 1" 86400]
    by simp_all
  have "days_before_year 1980 = 3652" "days_before_year 2108 = 50403"
    by (simp_all add: days_before_year_def)
  then show "1980 \<le> ?y" "?y \<le> 2107"
    using d year_of_day_bounds [of ?d] days_before_year_mono [of "?y + 1" 1980]
      days_before_year_mono [of 2108 ?y] by linarith+
qed

lemma fat_from_unix_date_uint:
  assumes "315532800 \<le> t" and "t < 4354819200"
  shows "uint (fat_from_unix_date t) =
    32 * (16 * (tm_year (gmtime t) - 80) + (tm_mon (gmtime t) + 1)) + tm_mday (gmtime t)"
proof -
  let ?g = "gmtime t"
  have sum: "uint (0 + word_of_int (512 * Y) + word_of_int (32 * (M + 1)) + word_of_int D :: u16) =
      512 * Y + 32 * (M + 1) + D"
    if "0 \<le> Y" "Y \<le> 127" "0 \<le> M" "M < 12" "1 \<le> D" "D \<le> 31" for Y M D
    using that by (intro uint_of_sum) simp_all
  have "0 \<le> tm_year ?g - 80" "tm_year ?g - 80 \<le> 127"
    using gmtime_fields(8) [of t] year_range [OF assms] by linarith+
  note sum [OF this gmtime_fields(1-4) [of t]]
  then show ?thesis
    by (simp add: fat_from_unix_date_def Let_def push_bit_eq_mult mult.commute)
qed

text \<open>
  C38: Every day FAT can represent (1980-01-01 to 2107-12-31) survives the date word.
\<close>

theorem fat_date_roundtrip:
  assumes "315532800 \<le> t" and "t < 4354819200"
  shows "fat_to_unix_date (fat_from_unix_date t) = t - t mod 86400"
proof -
  let ?g = "gmtime t"
  have M: "0 \<le> tm_mon ?g" "tm_mon ?g < 12" and D: "1 \<le> tm_mday ?g" "tm_mday ?g \<le> 31"
    by (rule gmtime_fields)+
  note w = fat_from_unix_date_uint [OF assms]
  have d: "uint (fat_from_unix_date t) mod 32 = tm_mday ?g"
    unfolding w using D by (intro split_field) linarith+
  have md: "uint (fat_from_unix_date t) div 32 = 16 * (tm_year ?g - 80) + (tm_mon ?g + 1)"
    unfolding w using D by (intro split_field) linarith+
  have m: "uint (fat_from_unix_date t) div 32 mod 16 = tm_mon ?g + 1"
    unfolding md using M by (intro split_field) linarith+
  have "uint (fat_from_unix_date t) div 32 div 16 = tm_year ?g - 80"
    unfolding md using M by (intro split_field) linarith+
  then have y: "uint (fat_from_unix_date t) div 512 = tm_year ?g - 80"
    using zdiv_zmult2_eq [of 16 "uint (fat_from_unix_date t)" 32] by simp
  have mon: "tm_mon ?g div 12 = 0" "tm_mon ?g mod 12 = tm_mon ?g"
    using M by (simp_all add: div_pos_pos_trivial mod_pos_pos_trivial)
  have "fat_to_unix_date (fat_from_unix_date t) = 86400 * (t div 86400)"
    unfolding gmtime_fields(9) [of t, symmetric]
    unfolding fat_to_unix_date_def date_fields mktime_def Let_def
    by (simp add: d m y mon add.commute)
  then show ?thesis
    by (simp add: minus_mod_eq_mult_div)
qed

lemma fat_date_roundtrip_witness:
  "fat_to_unix_date (fat_from_unix_date 1000000000) = 999993600"
  using fat_date_roundtrip [of 1000000000] by simp

lemma fat_from_unix_time_uint:
  "uint (fat_from_unix_time t) =
    32 * (64 * (t mod 86400 div 3600) + (t mod 86400 div 60 mod 60)) + t mod 86400 mod 60 div 2"
proof -
  let ?g = "gmtime t"
  have "0 \<le> t mod 86400 div 3600" "0 \<le> t mod 86400 mod 60 div 2"
    by (simp_all add: pos_imp_zdiv_nonneg_iff)
  moreover have "t mod 86400 div 3600 \<le> 23" "t mod 86400 mod 60 div 2 \<le> 29"
    using zdiv_mono1 [of "t mod 86400" 86399 3600] zdiv_mono1 [of "t mod 86400 mod 60" 59 2]
      pos_mod_bound [of 86400 t] pos_mod_bound [of 60 "t mod 86400"] by linarith+
  moreover have "0 \<le> t mod 86400 div 60 mod 60" "t mod 86400 div 60 mod 60 < 60"
    by simp_all
  ultimately have "uint (0 + word_of_int (2048 * (t mod 86400 div 3600)) +
      word_of_int (32 * (t mod 86400 div 60 mod 60)) + word_of_int (t mod 86400 mod 60 div 2) :: u16) =
      2048 * (t mod 86400 div 3600) + 32 * (t mod 86400 div 60 mod 60) + t mod 86400 mod 60 div 2"
    by (intro uint_of_sum) linarith+
  then show ?thesis
    unfolding fat_from_unix_time_def Let_def gmtime_fields push_bit_eq_mult drop_bit_eq_div
    by (simp add: mult.commute)
qed

text \<open>
  Reading a time word back does not give the time of day: the result counts from 1899-12-31,
  and bit 10 of the word is masked off, so 32 minutes are lost in the second half of an hour.
\<close>

theorem fat_time_decode:
  "fat_to_unix_time (fat_from_unix_time t) =
    - 2209075200 + 3600 * (t mod 86400 div 3600) + 60 * (t mod 86400 div 60 mod 60 mod 32) +
    2 * (t mod 86400 mod 60 div 2)"
proof -
  define h m s where "h = t mod 86400 div 3600" and "m = t mod 86400 div 60 mod 60"
    and "s = t mod 86400 mod 60 div 2"
  have b: "0 \<le> m" "m < 60"
    by (simp_all add: m_def)
  have c: "0 \<le> s" "s < 30"
    using zdiv_mono1 [of "t mod 86400 mod 60" 59 2] pos_mod_bound [of 60 "t mod 86400"]
    by (simp_all add: s_def pos_imp_zdiv_nonneg_iff)
  have w: "uint (fat_from_unix_time t) = 32 * (64 * h + m) + s"
    unfolding h_def m_def s_def by (rule fat_from_unix_time_uint)
  have 1: "uint (fat_from_unix_time t) mod 32 = s" "uint (fat_from_unix_time t) div 32 = 64 * h + m"
    unfolding w using c by (intro split_field; linarith)+
  have "uint (fat_from_unix_time t) div 32 div 64 = h"
    unfolding 1 using b by (intro split_field; linarith)+
  then have 2: "uint (fat_from_unix_time t) div 2048 = h"
    using zdiv_zmult2_eq [of 64 "uint (fat_from_unix_time t)" 32] by simp
  have 3: "(64 * h + m) mod 32 = m mod 32"
    using mod_mult_self4 [of 32 "2 * h" m] by simp
  have "fat_to_unix_time (fat_from_unix_time t) =
      - 2209075200 + 3600 * h + 60 * (m mod 32) + 2 * s"
    unfolding fat_to_unix_time_def time_fields mktime_def Let_def
    by (simp add: days_before_month_def days_before_year_def 1 2 3)
  then show ?thesis
    unfolding h_def m_def s_def .
qed

end
