(* ===== verification/Fat_Name.thy ===== *)
theory Fat_Name
  imports Gristle_Prelude
begin

text \<open>
  Names: the translation between path elements and the 8.3 names of directory entries
  (\<open>doschar\<close>, \<open>make_dos_name\<close>, \<open>fatname_to_str\<close>, \<open>str_to_fatname\<close> of gristle.c) and the
  splitting of a path by \<open>strtok\<close>. A C string is the list of its bytes before the terminator;
  a \<open>char\<close> is modelled by its unsigned value.
\<close>

section \<open>Model\<close>

abbreviation (input) SPACE :: byte where "SPACE \<equiv> 0x20"
abbreviation (input) DOT :: byte where "DOT \<equiv> 0x2E"
abbreviation (input) SLASH :: byte where "SLASH \<equiv> 0x2F"
abbreviation (input) BACKSLASH :: byte where "BACKSLASH \<equiv> 0x5C"

text \<open>The byte a \<open>char *\<close> into the string reads at an index: the terminator at the end.\<close>

definition cstr_at :: "byte list \<Rightarrow> nat \<Rightarrow> byte" where
  "cstr_at s i = (if i < length s then s ! i else 0)"

text \<open>The C string stored in a buffer.\<close>

definition cstr :: "byte list \<Rightarrow> byte list" where
  "cstr buf = takeWhile (\<lambda>c. c \<noteq> 0) buf"

text \<open>The punctuation \<open>doschar\<close> lets through, \<open>! # $ % & ' ( ) - @ ^ _ ` { } ~\<close> and space.\<close>

definition dos_punctuation :: "byte list" where
  "dos_punctuation =
    [0x21, 0x23, 0x24, 0x25, 0x26, 0x27, 0x28, 0x29, 0x2D, 0x40, 0x5E, 0x5F, 0x60, 0x7B, 0x7D,
     0x7E, 0x20]"

definition doschar :: "byte \<Rightarrow> byte" where
  "doschar c =
    (if c = 0 then 0
     else if c = SLASH \<or> c = BACKSLASH then SLASH
     else if c = DOT then DOT
     else if 0x41 \<le> c \<and> c \<le> 0x5A then c
     else if 0x30 \<le> c \<and> c \<le> 0x39 then c
     else if 0x61 \<le> c \<and> c \<le> 0x7A then (c - 0x61) + 0x41
     else if c = 0xE5 then 0x05
     else if c > 127 then c
     else if List.member dos_punctuation c then c
     else 1)"

text \<open>
  \<open>make_dos_name\<close> works on the output buffer, the current character and the path pointer. One
  iteration of the loop over the eight characters of the name proper; \<open>None\<close> is the
  \<open>return -1\<close> inside it.
\<close>

type_synonym mdn_state = "byte list \<times> byte \<times> nat"

definition mdn_base_step :: "byte list \<Rightarrow> nat \<Rightarrow> mdn_state \<Rightarrow> mdn_state option" where
  "mdn_base_step path i st =
    (case st of (dosname, c, pp) \<Rightarrow>
       if c = SLASH \<or> c = 0 then Some (dosname[i := SPACE], c, pp)
       else if c = DOT then
         if i = 0 then Some (dosname[i := DOT], doschar (cstr_at path pp), Suc pp)
         else if i = 1 then
           if cstr_at path pp = 0 \<or> doschar (cstr_at path pp) = SLASH
           then Some (dosname[i := DOT], doschar (cstr_at path pp), Suc pp)
           else Some (dosname, c, pp)
         else Some (dosname[i := SPACE], c, pp)
       else if c = 1 then None
       else Some (dosname[i := c], doschar (cstr_at path pp), Suc pp))"

text \<open>One iteration of the loop over the three characters of the extension.\<close>

definition mdn_ext_step :: "byte list \<Rightarrow> bool \<Rightarrow> nat \<Rightarrow> mdn_state \<Rightarrow> mdn_state option" where
  "mdn_ext_step path ext_follows i st =
    (case st of (dosname, c, pp) \<Rightarrow>
       if ext_follows then
         if c = SLASH \<or> c = 0 then Some (dosname[8 + i := SPACE], c, pp)
         else if c = 1 then None
         else if c = DOT then None
         else Some (dosname[8 + i := c], doschar (cstr_at path pp), Suc pp)
       else Some (dosname[8 + i := SPACE], c, pp))"

text \<open>\<open>for\<close> over the given indices, left at the first \<open>None\<close> with the state of that iteration.\<close>

fun mdn_loop :: "(nat \<Rightarrow> mdn_state \<Rightarrow> mdn_state option) \<Rightarrow> nat list \<Rightarrow> mdn_state \<Rightarrow> bool \<times> mdn_state" where
  "mdn_loop step [] st = (True, st)"
| "mdn_loop step (i # ks) st =
    (case step i st of None \<Rightarrow> (False, st) | Some st' \<Rightarrow> mdn_loop step ks st')"

text \<open>
  The part between the loops: does an extension follow? \<open>None\<close> is its \<open>return -1\<close>.
\<close>

definition mdn_sep :: "byte list \<Rightarrow> byte \<Rightarrow> nat \<Rightarrow> (bool \<times> byte \<times> nat) option" where
  "mdn_sep path c pp =
    (if c = DOT then Some (True, doschar (cstr_at path pp), Suc pp)
     else if c = SLASH \<or> c = 0 then Some (False, c, pp)
     else
       let c' = doschar (cstr_at path pp); pp' = Suc pp in
       if c' = DOT then Some (True, doschar (cstr_at path pp'), Suc pp')
       else if c' = SLASH \<or> c' = 0 then Some (False, c', pp')
       else None)"

text \<open>
  \<open>make_dos_name(dosname, path, &pp)\<close>: return code, the 12 byte buffer and the path pointer.
\<close>

definition make_dos_name :: "byte list \<Rightarrow> byte list \<Rightarrow> nat \<Rightarrow> int \<times> byte list \<times> nat" where
  "make_dos_name dosname path pp =
    (case mdn_loop (mdn_base_step path) [0..<8]
            (dosname[11 := 0], doschar (cstr_at path pp), Suc pp) of
       (False, dosname1, c, pp1) \<Rightarrow> (- 1, dosname1, pp1)
     | (True, dosname1, c, pp1) \<Rightarrow>
         (case mdn_sep path c pp1 of
            None \<Rightarrow> (- 1, dosname1, Suc pp1)
          | Some (ext_follows, c2, pp2) \<Rightarrow>
              (case mdn_loop (mdn_ext_step path ext_follows) [0..<3] (dosname1, c2, pp2) of
                 (False, dosname2, c3, pp3) \<Rightarrow> (- 1, dosname2, pp3)
               | (True, dosname2, c3, pp3) \<Rightarrow>
                   (if c3 = SLASH \<or> c3 = 0 then 0 else - 1, dosname2, pp3 - 1))))"

text \<open>\<open>fatname_to_str\<close>: the string written to \<open>output\<close> for the eleven bytes of an entry's name.\<close>

definition fatname_to_str :: "byte list \<Rightarrow> byte list" where
  "fatname_to_str input =
    filter (\<lambda>c. c \<noteq> SPACE) (take 8 input) @
    (if input ! 8 = SPACE then []
     else DOT # takeWhile (\<lambda>c. c \<noteq> SPACE) (take 3 (drop 8 input)))"

text \<open>
  \<open>str_to_fatname\<close>. The copying loop with limit 6 or 8: \<open>Inl\<close> is an early return with its code,
  \<open>Inr\<close> the end of the loop with the index reached.
\<close>

function s2f_copy ::
  "nat \<Rightarrow> byte list \<Rightarrow> nat \<Rightarrow> nat \<Rightarrow> byte list \<Rightarrow> (int \<times> byte list) + (nat \<times> byte list)" where
  "s2f_copy lim url i j dosname =
    (if i < lim then
       let c = doschar (cstr_at url j); dosname' = dosname[i := c] in
       if c = 1 then Inl (1, dosname')
       else if c = 0 then Inl (0, dosname')
       else if c = DOT then Inr (i, dosname')
       else s2f_copy lim url (Suc i) (Suc j) dosname'
     else Inr (i, dosname))"
  by pat_completeness auto
termination
  by (relation "measure (\<lambda>(lim, url, i, _). lim - i)") auto

declare s2f_copy.simps [simp del]

text \<open>The loop over the extension; it ends with the terminator at \<open>dosname[i]\<close>.\<close>

function s2f_ext ::
  "byte list \<Rightarrow> nat \<Rightarrow> nat \<Rightarrow> byte list \<Rightarrow> int \<times> byte list" where
  "s2f_ext extension j i dosname =
    (if j < 3 then
       let c = doschar (cstr_at extension j); dosname' = dosname[i := c] in
       if c = 0 then (0, dosname'[Suc i := 0])
       else if c = 1 then (1, dosname')
       else s2f_ext extension (Suc j) (Suc i) dosname'
     else (0, dosname[i := 0]))"
  by pat_completeness auto
termination
  by (relation "measure (\<lambda>(ext, j, _). 3 - j)") auto

declare s2f_ext.simps [simp del]

text \<open>
  Where the extension starts: the name's length and the extension. \<open>url[strlen(url) - 1]\<close> of an
  empty string is the byte before it; the one caller that can get there, \<open>fat_mkdir\<close>, has just
  stored a terminator in that byte.
\<close>

definition s2f_split :: "byte list \<Rightarrow> nat \<times> byte list" where
  "s2f_split url =
    (if url \<noteq> [] \<and> last url = DOT then (length url - 1, [])
     else (case find (\<lambda>i. url ! i = DOT) (rev [1..<length url - 1]) of
             None \<Rightarrow> (length url, [])
           | Some i \<Rightarrow> (i, drop (i + 1) url)))"

definition str_to_fatname :: "byte list \<Rightarrow> byte list \<Rightarrow> int \<times> byte list" where
  "str_to_fatname url dosname =
    (let (name_len, extension) = s2f_split url in
     if name_len > 8 \<or> length extension > 3 then
       (case s2f_copy 6 url 0 0 dosname of
          Inl r \<Rightarrow> r
        | Inr (i, dosname1) \<Rightarrow>
            s2f_ext extension 0 (i + 3) (dosname1[i := 0x7E, i + 1 := 0x31, i + 2 := DOT]))
     else
       (case s2f_copy 8 url 0 0 dosname of
          Inl r \<Rightarrow> r
        | Inr (i, dosname1) \<Rightarrow> s2f_ext extension 0 (i + 1) (dosname1[i := DOT])))"

text \<open>The two steps \<open>fat_lookup_path\<close> takes for a path element; \<open>dosname\<close> has 12 bytes, \<open>dosname2\<close> 13.\<close>

definition element_dos_name ::
  "byte list \<Rightarrow> byte list \<Rightarrow> byte list \<Rightarrow> (byte list \<times> byte list) option" where
  "element_dos_name element dosname dosname2 =
    (case str_to_fatname element dosname2 of
       (rc, dosname2') \<Rightarrow>
         if rc \<noteq> 0 then None
         else
           (case make_dos_name dosname (cstr dosname2') 0 of
              (rc', dosname', pp) \<Rightarrow>
                if rc' \<noteq> 0 then None else Some (dosname', dosname2')))"

text \<open>\<open>strtok(path, \<open>/\<close>)\<close> called until it returns \<open>NULL\<close>: the non-empty pieces between slashes.\<close>

fun split_slash :: "byte list \<Rightarrow> byte list list" where
  "split_slash [] = [[]]"
| "split_slash (c # cs) =
    (if c = SLASH then [] # split_slash cs
     else (case split_slash cs of [] \<Rightarrow> [[c]] | t # ts \<Rightarrow> (c # t) # ts))"

definition tokens :: "byte list \<Rightarrow> byte list list" where
  "tokens path = filter (\<lambda>e. e \<noteq> []) (split_slash path)"

text \<open>\<open>elements[20]\<close> of \<open>fat_lookup_path\<close>.\<close>

definition path_elements :: "byte list \<Rightarrow> byte list list" where
  "path_elements path = take 20 (tokens path)"

section \<open>Properties\<close>

text \<open>
  The bytes the format allows in the name of a directory entry: no control characters but \<open>0x05\<close>,
  which stands for \<open>0xE5\<close>, none of \<open>" * + , . / : ; < = > ? [ \ ] |\<close> and no small letters.
\<close>

definition forbidden :: "byte list" where
  "forbidden =
    [0x22, 0x2A, 0x2B, 0x2C, 0x2E, 0x2F, 0x3A, 0x3B, 0x3C, 0x3D, 0x3E, 0x3F, 0x5B, 0x5C, 0x5D, 0x7C, 0xE5]"

definition name_byte :: "byte \<Rightarrow> bool" where
  "name_byte c \<longleftrightarrow> (0x20 \<le> c \<or> c = 5) \<and> \<not> List.member forbidden c \<and> \<not> (0x61 \<le> c \<and> c \<le> 0x7A)"

lemma upcase_unat:
  assumes "0x61 \<le> c" and "c \<le> 0x7A"
  shows "unat ((c - 0x61) + 0x41 :: byte) = unat c - 32"
  using assms by unat_arith

lemma name_byte_unat:
  "name_byte c \<longleftrightarrow> (32 \<le> unat c \<or> unat c = 5) \<and>
    unat c \<notin> {34, 42, 43, 44, 46, 47, 58, 59, 60, 61, 62, 63, 91, 92, 93, 124, 229} \<and>
    \<not> (97 \<le> unat c \<and> unat c \<le> 122)"
  by (auto simp: name_byte_def forbidden_def word_unat_eq_iff word_le_nat_alt)

lemma punctuation_name_byte: "List.member dos_punctuation c \<Longrightarrow> name_byte c"
  by (auto simp: dos_punctuation_def name_byte_unat)

lemma doschar_range: "doschar c \<in> {0, 1, SLASH, DOT} \<or> name_byte (doschar c)"
proof -
  have low: "name_byte ((c - 0x61) + 0x41)" if "0x61 \<le> c" "c \<le> 0x7A"
    using that upcase_unat [OF that] by (auto simp: name_byte_unat word_le_nat_alt)
  show ?thesis
    unfolding doschar_def
    using low punctuation_name_byte [of c]
    by (simp, simp add: name_byte_unat word_unat_eq_iff word_le_nat_alt word_less_nat_alt)
qed

lemma s2f_copy_frame:
  assumes "lim \<le> length d"
  shows "s2f_copy lim url i j (d @ x) =
    (case s2f_copy lim url i j d of
      Inl r \<Rightarrow> Inl (fst r, snd r @ x) | Inr r \<Rightarrow> Inr (fst r, snd r @ x))"
  using assms
proof (induction lim url i j d rule: s2f_copy.induct)
  case (1 lim url i j d)
  show ?case
    using 1 by (simp add: s2f_copy.simps [of lim url i j] list_update_append1 Let_def)
qed

lemma s2f_copy_result:
  "s2f_copy lim url i j d = r \<Longrightarrow> i \<le> lim \<Longrightarrow>
    (case r of Inl q \<Rightarrow> length (snd q) = length d
     | Inr q \<Rightarrow> fst q \<le> lim \<and> length (snd q) = length d)"
proof (induction lim url i j d arbitrary: r rule: s2f_copy.induct)
  case (1 lim url i j d)
  show ?case
    using 1(2,3) 1(1) [OF _ refl refl _ _ _ refl]
    by (auto simp: s2f_copy.simps [of lim url i j d] Let_def split: if_splits sum.splits)
qed

lemma s2f_ext_frame:
  "i + (3 - j) < length d \<Longrightarrow>
    s2f_ext e j i (d @ x) = (fst (s2f_ext e j i d), snd (s2f_ext e j i d) @ x)"
proof (induction e j i d rule: s2f_ext.induct)
  case (1 e j i d)
  show ?case
    using 1 by (auto simp: s2f_ext.simps [of e j i] list_update_append1 Let_def)
qed

theorem str_to_fatname_bounds:
  assumes "length d = 13"
  shows "str_to_fatname url (d @ x) =
    (fst (str_to_fatname url d), snd (str_to_fatname url d) @ x)"
proof -
  obtain n e where split: "s2f_split url = (n, e)" by fastforce
  show ?thesis
  proof (cases "n > 8 \<or> length e > 3")
    case True
    show ?thesis
      using True assms s2f_copy_result [of 6 url 0 0 d]
      by (auto simp: str_to_fatname_def split s2f_copy_frame s2f_ext_frame list_update_append1
          split: sum.splits)
  next
    case False
    then show ?thesis
      using assms s2f_copy_result [of 8 url 0 0 d]
      by (auto simp: str_to_fatname_def split s2f_copy_frame s2f_ext_frame list_update_append1
          split: sum.splits)
  qed
qed


text \<open>
  What the eleven bytes of a name may be: a legal byte, a dot of the entries \<open>.\<close> and \<open>..\<close>, or the
  byte \<open>x\<close> that was in the second place before.
\<close>

definition dos_byte_at :: "byte \<Rightarrow> nat \<Rightarrow> byte \<Rightarrow> bool" where
  "dos_byte_at x k b \<longleftrightarrow> name_byte b \<or> (k < 2 \<and> b = DOT) \<or> (k = 1 \<and> b = x)"

definition doschar_value :: "byte \<Rightarrow> bool" where
  "doschar_value c \<longleftrightarrow> c \<in> {0, 1, SLASH, DOT} \<or> name_byte c"

lemma doschar_value_doschar [simp]: "doschar_value (doschar c)"
  using doschar_range [of c] by (simp add: doschar_value_def)

lemma doschar_value_consts [simp]:
  "doschar_value 0" "doschar_value 1" "doschar_value SLASH" "doschar_value DOT"
  by (simp_all add: doschar_value_def)

lemma doschar_value_name: "doschar_value c \<Longrightarrow> c \<notin> {0, 1, SLASH, DOT} \<Longrightarrow> name_byte c"
  by (simp add: doschar_value_def)

lemma name_byte_space [simp]: "name_byte SPACE"
  by (simp add: name_byte_unat)

lemma mdn_base_step_legal:
  assumes "mdn_base_step path i (d, c, pp) = Some (d', c', pp')"
    and "i < length d" and "\<forall>k<i. dos_byte_at x k (d ! k)" and "doschar_value c" and "i \<le> 1 \<longrightarrow> d ! 1 = x"
  shows "length d' = length d" and "\<forall>k<Suc i. dos_byte_at x k (d' ! k)" and "doschar_value c'"
    and "Suc i \<le> 1 \<longrightarrow> d' ! 1 = x"
  using assms doschar_value_name [of c] doschar_value_doschar [of "cstr_at path pp"]
  by (auto simp: mdn_base_step_def less_Suc_eq nth_list_update dos_byte_at_def
      split: if_splits)

lemma mdn_ext_step_legal:
  assumes "mdn_ext_step path ef i (d, c, pp) = Some (d', c', pp')"
    and "8 + i < length d" and "\<forall>k<8+i. dos_byte_at x k (d ! k)" and "doschar_value c"
  shows "length d' = length d" and "\<forall>k<Suc (8+i). dos_byte_at x k (d' ! k)" and "doschar_value c'"
proof -
  have less: "k < Suc (8 + i) \<longleftrightarrow> k < 8 + i \<or> k = 8 + i" for k by auto
  show "length d' = length d" "\<forall>k<Suc (8+i). dos_byte_at x k (d' ! k)" "doschar_value c'"
    using assms doschar_value_name [of c] doschar_value_doschar [of "cstr_at path pp"]
    unfolding less
    by (auto simp: mdn_ext_step_def nth_list_update dos_byte_at_def split: if_splits)
qed

lemma mdn_loop_inv:
  assumes "mdn_loop step [a..<b] st = (True, st')" and "a \<le> b" and "Q a st"
    and "\<And>i s s'. step i s = Some s' \<Longrightarrow> i < b \<Longrightarrow> Q i s \<Longrightarrow> Q (Suc i) s'"
  shows "Q b st'"
  using assms(1-3)
proof (induction "b - a" arbitrary: a st)
  case 0
  then show ?case by simp
next
  case (Suc n)
  then have upt: "[a..<b] = a # [Suc a..<b]" by (simp add: upt_conv_Cons)
  with Suc.prems(1) obtain st2 where st2: "step a st = Some st2"
    "mdn_loop step [Suc a..<b] st2 = (True, st')"
    by (auto split: option.splits)
  show ?case
    by (rule Suc.hyps(1) [OF _ st2(2)]) (use Suc assms(4) [OF st2(1)] in auto)
qed

lemma mdn_loop_length:
  "mdn_loop step ks st = (b, st') \<Longrightarrow>
    (\<And>i s s'. step i s = Some s' \<Longrightarrow> length (fst s') = length (fst s)) \<Longrightarrow>
    length (fst st') = length (fst st)"
  by (induction ks arbitrary: st) (force split: option.splits)+

lemma mdn_step_length:
  "mdn_base_step path i s = Some s' \<Longrightarrow> length (fst s') = length (fst s)"
  "mdn_ext_step path ef i s = Some s' \<Longrightarrow> length (fst s') = length (fst s)"
  by (auto simp: mdn_base_step_def mdn_ext_step_def split: prod.splits if_splits)

lemma make_dos_name_length: "length (fst (snd (make_dos_name d path pp))) = length d"
proof -
  obtain b1 d1 c1 p1 where
    1: "mdn_loop (mdn_base_step path) [0..<8] (d[11 := 0], doschar (cstr_at path pp), Suc pp) =
      (b1, d1, c1, p1)" by (metis prod_cases4)
  have l1: "length d1 = length d"
    using mdn_loop_length [OF 1 mdn_step_length(1)] by simp
  show ?thesis
  proof (cases "b1 \<and> mdn_sep path c1 p1 \<noteq> None")
    case False
    then show ?thesis
      using l1 by (cases b1; cases "mdn_sep path c1 p1") (auto simp: make_dos_name_def 1)
  next
    case True
    then obtain ef c2 p2 where 2: "mdn_sep path c1 p1 = Some (ef, c2, p2)" by auto
    obtain b3 d3 c3 p3 where
      3: "mdn_loop (mdn_ext_step path ef) [0..<3] (d1, c2, p2) = (b3, d3, c3, p3)"
      by (metis prod_cases4)
    have "length d3 = length d1"
      using mdn_loop_length [OF 3 mdn_step_length(2)] by simp
    then show ?thesis
      using True l1 by (cases b3) (simp_all add: make_dos_name_def 1 2 3)
  qed
qed

lemma s2f_ext_length: "length (snd (s2f_ext e j i d)) = length d"
  by (induction e j i d rule: s2f_ext.induct) (subst s2f_ext.simps, simp add: Let_def)

lemma str_to_fatname_length: "length (snd (str_to_fatname url d)) = length d"
proof -
  have copy: "length (snd q) = length d" if "s2f_copy lim url 0 0 d = Inl q" for lim q
    using s2f_copy_result [OF that] by simp
  have copy2: "length (snd q) = length d" if "s2f_copy lim url 0 0 d = Inr q" for lim q
    using s2f_copy_result [OF that] by simp
  show ?thesis
    using copy copy2
    by (auto simp: str_to_fatname_def s2f_ext_length split: prod.splits sum.splits)
qed

lemma element_dos_name_length:
  assumes "element_dos_name e d d2 = Some (d', d2')"
  shows "length d' = length d" and "length d2' = length d2"
proof -
  obtain rc x where x: "str_to_fatname e d2 = (rc, x)" by fastforce
  obtain rc' y pp where y: "make_dos_name d (cstr x) 0 = (rc', y, pp)" by (metis prod_cases3)
  have "d' = y" "d2' = x"
    using assms x y by (auto simp: element_dos_name_def split: if_splits)
  then show "length d' = length d" "length d2' = length d2"
    using str_to_fatname_length [of e d2] make_dos_name_length [of d "cstr x" 0] x y by simp_all
qed

text \<open>
  C15: A name \<open>make_dos_name\<close> accepts holds only bytes the format allows in a directory entry, a dot of
  the entries \<open>.\<close> and \<open>..\<close> in the first two places, or, in the second place, the byte that was there
  before: for a base name of one letter with an extension the driver writes nothing there. (The byte
  \<open>0x05\<close>, which the format has for a first byte \<open>0xE5\<close>, can be in any place.)
\<close>

theorem make_dos_name_legal:
  assumes "make_dos_name d path pp = (0, d', pp')" and "length d = 12"
  shows "length d' = 12 \<and>
    (\<forall>k<11. name_byte (d' ! k) \<or> (k < 2 \<and> d' ! k = DOT) \<or> (k = 1 \<and> d' ! k = d ! 1))"
proof -
  let ?inv = "\<lambda>n (s :: mdn_state). length (fst s) = 12 \<and> (\<forall>k<n. dos_byte_at (d ! 1) k (fst s ! k)) \<and>
    doschar_value (fst (snd s))"
  from assms(1) obtain d1 c1 p1 ef c2 p2 c3 p3 where
    1: "mdn_loop (mdn_base_step path) [0..<8] (d[11 := 0], doschar (cstr_at path pp), Suc pp) =
      (True, d1, c1, p1)" and
    2: "mdn_sep path c1 p1 = Some (ef, c2, p2)" and
    3: "mdn_loop (mdn_ext_step path ef) [0..<3] (d1, c2, p2) = (True, d', c3, p3)"
    by (auto simp: make_dos_name_def split: prod.splits bool.splits option.splits)
  have "?inv 8 (d1, c1, p1) \<and> ((8::nat) \<le> 1 \<longrightarrow> fst (d1, c1, p1) ! 1 = d ! 1)"
    by (rule mdn_loop_inv [OF 1, where Q = "\<lambda>n s. ?inv n s \<and> (n \<le> 1 \<longrightarrow> fst s ! 1 = d ! 1)"])
      (use assms(2) mdn_base_step_legal in \<open>force split: prod.splits\<close>)+
  then have base: "?inv 8 (d1, c1, p1)" by simp
  moreover have "doschar_value c2"
    using 2 calculation by (auto simp: mdn_sep_def Let_def split: if_splits)
  ultimately have "?inv (8 + 3) (d', c3, p3)"
    by (intro mdn_loop_inv [OF 3, where Q = "\<lambda>n. ?inv (8 + n)"])
      (use mdn_ext_step_legal in \<open>force split: prod.splits\<close>)+
  then show ?thesis
    by (auto simp: dos_byte_at_def)
qed

text \<open>
  The characters of plain names, apart from the driver: digits, letters, the upper half of the code
  page but \<open>0xE5\<close>, and the punctuation the format allows, \<open>! # $ % & ' ( ) - @ ^ _ ` { } ~\<close>. Names
  are stored in capitals.
\<close>

definition plain_char :: "byte \<Rightarrow> bool" where
  "plain_char c \<longleftrightarrow>
    0x30 \<le> c \<and> c \<le> 0x39 \<or> 0x41 \<le> c \<and> c \<le> 0x5A \<or> 0x61 \<le> c \<and> c \<le> 0x7A \<or>
    0x80 \<le> c \<and> c \<noteq> 0xE5 \<or>
    c \<in> set [0x21, 0x23, 0x24, 0x25, 0x26, 0x27, 0x28, 0x29, 0x2D, 0x40, 0x5E, 0x5F, 0x60, 0x7B, 0x7D, 0x7E]"

definition upcase :: "byte \<Rightarrow> byte" where
  "upcase c = (if 0x61 \<le> c \<and> c \<le> 0x7A then c - 0x20 else c)"

lemma cstr_at_nth: "i < length s \<Longrightarrow> cstr_at s i = s ! i"
  by (simp add: cstr_at_def)

lemma cstr_at_append_left: "i < length s \<Longrightarrow> cstr_at (s @ t) i = s ! i"
  by (simp add: cstr_at_def nth_append)

lemma cstr_at_append_right: "cstr_at (s @ t) (length s + i) = cstr_at t i"
  by (simp add: cstr_at_def nth_append)

lemma s2f_copy_run:
  "length pre = i \<Longrightarrow> i + length ys \<le> lim \<Longrightarrow> length ys \<le> length ds \<Longrightarrow>
    (\<forall>k<length ys. doschar (cstr_at url (j + k)) = ys ! k \<and> ys ! k \<notin> {0, 1, DOT}) \<Longrightarrow>
    s2f_copy lim url i j (pre @ ds) =
      s2f_copy lim url (i + length ys) (j + length ys) (pre @ ys @ drop (length ys) ds)"
proof (induction ys arbitrary: pre i j ds)
  case Nil
  then show ?case by simp
next
  case (Cons y ys)
  then obtain d ds' where ds: "ds = d # ds'" by (cases ds) auto
  have y: "doschar (cstr_at url j) = y" "y \<noteq> 0" "y \<noteq> 1" "y \<noteq> DOT"
    using Cons.prems(4) [rule_format, of 0] by auto
  have "s2f_copy lim url i j (pre @ ds) = s2f_copy lim url (Suc i) (Suc j) ((pre @ [y]) @ ds')"
    using Cons.prems(1,2) y
    by (simp add: s2f_copy.simps [of lim url i j] ds list_update_append)
  also have "\<dots> = s2f_copy lim url (Suc i + length ys) (Suc j + length ys)
      ((pre @ [y]) @ ys @ drop (length ys) ds')"
    by (rule Cons.IH) (use Cons.prems ds in \<open>auto dest: spec [of _ "Suc _"]\<close>)
  finally show ?case by (simp add: ds)
qed

lemma s2f_ext_run:
  "length pre = i \<Longrightarrow> j + length ys \<le> 3 \<Longrightarrow> length ys \<le> length ds \<Longrightarrow>
    (\<forall>k<length ys. doschar (cstr_at ext (j + k)) = ys ! k \<and> ys ! k \<notin> {0, 1}) \<Longrightarrow>
    s2f_ext ext j i (pre @ ds) =
      s2f_ext ext (j + length ys) (i + length ys) (pre @ ys @ drop (length ys) ds)"
proof (induction ys arbitrary: pre i j ds)
  case Nil
  then show ?case by simp
next
  case (Cons y ys)
  then obtain d ds' where ds: "ds = d # ds'" by (cases ds) auto
  have y: "doschar (cstr_at ext j) = y" "y \<noteq> 0" "y \<noteq> 1"
    using Cons.prems(4) [rule_format, of 0] by auto
  have "s2f_ext ext j i (pre @ ds) = s2f_ext ext (Suc j) (Suc i) ((pre @ [y]) @ ds')"
    using Cons.prems(1,2) y
    by (simp add: s2f_ext.simps [of ext j i] ds list_update_append)
  also have "\<dots> = s2f_ext ext (Suc j + length ys) (Suc i + length ys)
      ((pre @ [y]) @ ys @ drop (length ys) ds')"
    by (rule Cons.IH) (use Cons.prems ds in \<open>auto dest: spec [of _ "Suc _"]\<close>)
  finally show ?case by (simp add: ds)
qed


lemma mdn_base_run:
  "length pre = i \<Longrightarrow> i + length ys \<le> 8 \<Longrightarrow> length ys \<le> length ds \<Longrightarrow>
    \<forall>k<length ys. doschar (cstr_at path (q + k)) = ys ! k \<and> ys ! k \<notin> {0, 1, DOT, SLASH} \<Longrightarrow>
    mdn_loop (mdn_base_step path) [i..<8] (pre @ ds, doschar (cstr_at path q), Suc q) =
      mdn_loop (mdn_base_step path) [i + length ys..<8]
        (pre @ ys @ drop (length ys) ds, doschar (cstr_at path (q + length ys)), Suc (q + length ys))"
proof (induction ys arbitrary: pre i q ds)
  case Nil
  then show ?case by simp
next
  case (Cons y ys)
  then obtain d ds' where ds: "ds = d # ds'" by (cases ds) auto
  have y: "doschar (cstr_at path q) = y" "y \<noteq> 0" "y \<noteq> 1" "y \<noteq> DOT" "y \<noteq> SLASH"
    using Cons.prems(4) [rule_format, of 0] by auto
  have "[i..<8] = i # [Suc i..<8]" using Cons.prems(2) by (simp add: upt_conv_Cons)
  then have "mdn_loop (mdn_base_step path) [i..<8] (pre @ ds, doschar (cstr_at path q), Suc q) =
      mdn_loop (mdn_base_step path) [Suc i..<8]
        ((pre @ [y]) @ ds', doschar (cstr_at path (Suc q)), Suc (Suc q))"
    using Cons.prems(1) y by (simp add: mdn_base_step_def ds list_update_append)
  also have "\<dots> = mdn_loop (mdn_base_step path) [Suc i + length ys..<8]
      ((pre @ [y]) @ ys @ drop (length ys) ds', doschar (cstr_at path (Suc q + length ys)),
       Suc (Suc q + length ys))"
    by (rule Cons.IH) (use Cons.prems ds in \<open>auto dest: spec [of _ "Suc _"]\<close>)
  finally show ?case by (simp add: ds)
qed

lemma mdn_base_pad:
  "length pre = i \<Longrightarrow> i \<le> 8 \<Longrightarrow> 8 \<le> i + length ds \<Longrightarrow>
    c = 0 \<or> c = SLASH \<or> (c = DOT \<and> 2 \<le> i) \<Longrightarrow>
    mdn_loop (mdn_base_step path) [i..<8] (pre @ ds, c, pp) =
      (True, pre @ replicate (8 - i) SPACE @ drop (8 - i) ds, c, pp)"
proof (induction "8 - i" arbitrary: pre i ds)
  case 0
  then show ?case by simp
next
  case (Suc n)
  then obtain d ds' where ds: "ds = d # ds'" by (cases ds) auto
  have n: "8 - i = Suc (8 - Suc i)" using Suc.hyps(2) by simp
  have "[i..<8] = i # [Suc i..<8]" using Suc.hyps(2) by (simp add: upt_conv_Cons)
  then have "mdn_loop (mdn_base_step path) [i..<8] (pre @ ds, c, pp) =
      mdn_loop (mdn_base_step path) [Suc i..<8] ((pre @ [SPACE]) @ ds', c, pp)"
    using Suc.prems by (auto simp: mdn_base_step_def ds list_update_append)
  also have "\<dots> = (True, (pre @ [SPACE]) @ replicate (8 - Suc i) SPACE @ drop (8 - Suc i) ds', c, pp)"
    by (rule Suc.hyps(1)) (use Suc ds in auto)
  finally show ?case by (simp add: ds n)
qed

lemma mdn_ext_run:
  "length pre = 8 + i \<Longrightarrow> i + length ys \<le> 3 \<Longrightarrow> length ys \<le> length ds \<Longrightarrow>
    \<forall>k<length ys. doschar (cstr_at path (q + k)) = ys ! k \<and> ys ! k \<notin> {0, 1, DOT, SLASH} \<Longrightarrow>
    mdn_loop (mdn_ext_step path True) [i..<3] (pre @ ds, doschar (cstr_at path q), Suc q) =
      mdn_loop (mdn_ext_step path True) [i + length ys..<3]
        (pre @ ys @ drop (length ys) ds, doschar (cstr_at path (q + length ys)), Suc (q + length ys))"
proof (induction ys arbitrary: pre i q ds)
  case Nil
  then show ?case by simp
next
  case (Cons y ys)
  then obtain d ds' where ds: "ds = d # ds'" by (cases ds) auto
  have y: "doschar (cstr_at path q) = y" "y \<noteq> 0" "y \<noteq> 1" "y \<noteq> DOT" "y \<noteq> SLASH"
    using Cons.prems(4) [rule_format, of 0] by auto
  have "[i..<3] = i # [Suc i..<3]" using Cons.prems(2) by (simp add: upt_conv_Cons)
  then have "mdn_loop (mdn_ext_step path True) [i..<3] (pre @ ds, doschar (cstr_at path q), Suc q) =
      mdn_loop (mdn_ext_step path True) [Suc i..<3]
        ((pre @ [y]) @ ds', doschar (cstr_at path (Suc q)), Suc (Suc q))"
    using Cons.prems(1) y by (simp add: mdn_ext_step_def ds list_update_append)
  also have "\<dots> = mdn_loop (mdn_ext_step path True) [Suc i + length ys..<3]
      ((pre @ [y]) @ ys @ drop (length ys) ds', doschar (cstr_at path (Suc q + length ys)),
       Suc (Suc q + length ys))"
    by (rule Cons.IH) (use Cons.prems ds in \<open>auto dest: spec [of _ "Suc _"]\<close>)
  finally show ?case by (simp add: ds)
qed

lemma mdn_ext_pad:
  "length pre = 8 + i \<Longrightarrow> i \<le> 3 \<Longrightarrow> 3 \<le> i + length ds \<Longrightarrow> c = 0 \<or> c = SLASH \<Longrightarrow>
    mdn_loop (mdn_ext_step path ef) [i..<3] (pre @ ds, c, pp) =
      (True, pre @ replicate (3 - i) SPACE @ drop (3 - i) ds, c, pp)"
proof (induction "3 - i" arbitrary: pre i ds)
  case 0
  then show ?case by simp
next
  case (Suc n)
  then obtain d ds' where ds: "ds = d # ds'" by (cases ds) auto
  have n: "3 - i = Suc (3 - Suc i)" using Suc.hyps(2) by simp
  have "[i..<3] = i # [Suc i..<3]" using Suc.hyps(2) by (simp add: upt_conv_Cons)
  then have "mdn_loop (mdn_ext_step path ef) [i..<3] (pre @ ds, c, pp) =
      mdn_loop (mdn_ext_step path ef) [Suc i..<3] ((pre @ [SPACE]) @ ds', c, pp)"
    using Suc.prems by (auto simp: mdn_ext_step_def ds list_update_append)
  also have "\<dots> = (True, (pre @ [SPACE]) @ replicate (3 - Suc i) SPACE @ drop (3 - Suc i) ds', c, pp)"
    by (rule Suc.hyps(1)) (use Suc ds in auto)
  finally show ?case by (simp add: ds n)
qed


lemma unat_upcase: "unat (upcase c) = (if 97 \<le> unat c \<and> unat c \<le> 122 then unat c - 32 else unat c)"
  by (simp add: upcase_def word_le_nat_alt unat_sub)

lemma plain_char_unat:
  "plain_char c \<longleftrightarrow>
    48 \<le> unat c \<and> unat c \<le> 57 \<or> 65 \<le> unat c \<and> unat c \<le> 90 \<or> 97 \<le> unat c \<and> unat c \<le> 122 \<or>
    128 \<le> unat c \<and> unat c \<noteq> 229 \<or>
    unat c \<in> {33, 35, 36, 37, 38, 39, 40, 41, 45, 64, 94, 95, 96, 123, 125, 126}"
  by (simp add: plain_char_def word_unat_eq_iff word_le_nat_alt)

lemma plain_char_upcase:
  assumes "plain_char c"
  shows "upcase c \<notin> {0, 1, DOT, SLASH, SPACE}" and "plain_char (upcase c)" and "upcase (upcase c) = upcase c"
proof -
  have "unat (upcase c) \<notin> {0, 1, 46, 47, 32} \<and> plain_char (upcase c) \<and> upcase (upcase c) = upcase c"
  proof (cases "97 \<le> unat c \<and> unat c \<le> 122")
    case True
    then have "65 \<le> unat (upcase c) \<and> unat (upcase c) \<le> 90" unfolding unat_upcase by (simp, linarith)
    then show ?thesis by (simp add: plain_char_unat upcase_def word_le_nat_alt)
  next
    case False
    then have "upcase c = c" by (simp add: upcase_def word_le_nat_alt)
    then show ?thesis using assms by (auto simp: plain_char_unat)
  qed
  then show "upcase c \<notin> {0, 1, DOT, SLASH, SPACE}" "plain_char (upcase c)" "upcase (upcase c) = upcase c"
    by (simp_all add: word_unat_eq_iff)
qed

lemma doschar_plain:
  assumes "plain_char c" shows "doschar c = upcase c"
proof -
  consider "0x30 \<le> c \<and> c \<le> 0x39 \<or> 0x41 \<le> c \<and> c \<le> 0x5A" | "0x61 \<le> c \<and> c \<le> 0x7A" | "0x80 \<le> c" "c \<noteq> 0xE5"
    | "c \<in> set [0x21, 0x23, 0x24, 0x25, 0x26, 0x27, 0x28, 0x29, 0x2D, 0x40, 0x5E, 0x5F, 0x60, 0x7B, 0x7D, 0x7E]"
    using assms unfolding plain_char_def by blast
  then show ?thesis
  proof cases
    case 4
    then show ?thesis by (auto simp: doschar_def upcase_def dos_punctuation_def)
  qed (simp_all add: doschar_def upcase_def word_unat_eq_iff word_le_nat_alt word_less_nat_alt, linarith?)
qed

lemma plain_char_doschar:
  "plain_char c \<Longrightarrow> doschar c \<notin> {0, 1, DOT, SLASH, SPACE}"
  "plain_char c \<Longrightarrow> doschar (doschar c) = doschar c"
  using plain_char_upcase by (simp_all add: doschar_plain)

lemma doschar_simps [simp]: "doschar 0 = 0" "doschar DOT = DOT" "doschar SLASH = SLASH"
  by (simp_all add: doschar_def)

lemma plain_char_not_dot: "plain_char c \<Longrightarrow> c \<noteq> DOT \<and> c \<noteq> 0"
  by (auto simp: plain_char_def)

lemma map_doschar_plain: "\<forall>c\<in>set xs. plain_char c \<Longrightarrow> map doschar xs = map upcase xs"
  by (simp add: doschar_plain)

lemma find_split:
  "\<forall>x\<in>set xs. \<not> Q x \<Longrightarrow> Q y \<Longrightarrow> find Q (xs @ y # ys) = Some y"
  by (induction xs) auto

lemma find_rev_upt:
  assumes "a \<le> i" and "i < b" and "Q i" and "\<forall>k. i < k \<and> k < b \<longrightarrow> \<not> Q k"
  shows "find Q (rev [a..<b]) = Some i"
proof -
  have "[a..<b] = [a..<i] @ i # [Suc i..<b]"
    using assms(1,2) by (metis le_Suc_ex less_imp_add_positive upt_add_eq_append upt_conv_Cons
        less_imp_le_nat)
  then show ?thesis
    using assms(3,4) by (simp add: find_split)
qed

definition name83 :: "byte list \<Rightarrow> byte list \<Rightarrow> byte list" where
  "name83 base ext = base @ (if ext = [] then [] else DOT # ext)"

lemma s2f_split_name83:
  assumes "base \<noteq> []" and "\<forall>c\<in>set base. plain_char c" and "\<forall>c\<in>set ext. plain_char c"
  shows "s2f_split (name83 base ext) = (length base, ext)"
proof (cases "ext = []")
  case True
  then have "last base \<noteq> DOT" and "\<forall>i<length base. base ! i \<noteq> DOT"
    using assms plain_char_not_dot by auto
  moreover from this have "find (\<lambda>i. base ! i = DOT) (rev [1..<length base - 1]) = None"
    by (auto simp: find_None_iff)
  ultimately show ?thesis
    using True assms(1) by (simp add: s2f_split_def name83_def)
next
  case False
  have last: "last (base @ DOT # ext) \<noteq> DOT"
    using False assms(3) plain_char_not_dot by auto
  have "find (\<lambda>i. (base @ DOT # ext) ! i = DOT) (rev [1..<length (base @ DOT # ext) - 1]) =
      Some (length base)"
  proof (rule find_rev_upt)
    show "\<forall>k. length base < k \<and> k < length (base @ DOT # ext) - 1 \<longrightarrow>
        (base @ DOT # ext) ! k \<noteq> DOT"
    proof (intro allI impI)
      fix k assume k: "length base < k \<and> k < length (base @ DOT # ext) - 1"
      then have "(base @ DOT # ext) ! k = ext ! (k - Suc (length base))"
        by (simp add: nth_append)
      moreover have "ext ! (k - Suc (length base)) \<in> set ext" using k by (intro nth_mem) auto
      ultimately show "(base @ DOT # ext) ! k \<noteq> DOT"
        using assms(3) plain_char_not_dot by auto
    qed
  qed (use assms(1) False in \<open>auto simp: Suc_le_eq\<close>)
  with False last show ?thesis
    by (simp add: s2f_split_def name83_def)
qed

text \<open>The intermediate name \<open>str_to_fatname\<close> hands to \<open>make_dos_name\<close>.\<close>

definition mid_name :: "byte list \<Rightarrow> byte list \<Rightarrow> byte list" where
  "mid_name B E = B @ (if E \<noteq> [] then DOT # E else if length B = 8 then [DOT] else [])"

lemma s2f_ext_name:
  assumes "length E \<le> 3" and "E = map doschar ext" and "\<forall>c\<in>set ext. plain_char c"
    and "length pre = i" and "length E < length ds"
  shows "\<exists>rest. s2f_ext ext 0 i (pre @ ds) = (0, pre @ E @ 0 # rest)"
proof -
  have run: "s2f_ext ext 0 i (pre @ ds) =
      s2f_ext ext (length E) (i + length E) (pre @ E @ drop (length E) ds)"
    using s2f_ext_run [of pre i 0 E ds ext] assms plain_char_doschar(1)
    by (auto simp: cstr_at_def)
  obtain d ds' where ds: "drop (length E) ds = d # ds'"
    using assms(5) by (metis Cons_nth_drop_Suc)
  show ?thesis
    unfolding run ds
    using assms(1,2,4)
    by (auto simp: s2f_ext.simps [of ext] cstr_at_def list_update_append Let_def)
qed

lemma str_to_fatname_name83:
  assumes "base \<noteq> []" "length base \<le> 8" "\<forall>c\<in>set base. plain_char c"
    and "length ext \<le> 3" "\<forall>c\<in>set ext. plain_char c" and "length d = 13"
  shows "\<exists>rest. str_to_fatname (name83 base ext) d =
    (0, mid_name (map doschar base) (map doschar ext) @ 0 # rest)"
proof -
  let ?url = "name83 base ext" and ?n = "length base" and ?B = "map doschar base"
  have run: "s2f_copy 8 ?url 0 0 d = s2f_copy 8 ?url ?n ?n (?B @ drop ?n d)"
    using s2f_copy_run [of "[]" 0 ?B 8 d ?url 0] assms plain_char_doschar(1)
    by (auto simp: cstr_at_def name83_def nth_append)
  have "2 \<le> length (drop ?n d)" using assms(2,6) by simp
  then obtain x y ds where ds: "drop ?n d = x # y # ds"
    by (cases "drop ?n d" rule: list.exhaust; cases "tl (drop ?n d)") auto
  have lds: "length ds = 11 - ?n"
    using assms(6) arg_cong [OF ds, of length] by simp
  have str: "str_to_fatname ?url d =
      (case s2f_copy 8 ?url ?n ?n (?B @ x # y # ds) of
         Inl r \<Rightarrow> r
       | Inr (i, d1) \<Rightarrow> s2f_ext ext 0 (i + 1) (d1[i := DOT]))"
    using assms s2f_split_name83 [OF assms(1,3,5)] by (simp add: str_to_fatname_def run ds)
  have ext: "\<exists>rest. s2f_ext ext 0 (?n + 1) (?B @ DOT # y # ds) =
      (0, ?B @ DOT # map doschar ext @ 0 # rest)"
    using s2f_ext_name [of "map doschar ext" ext "?B @ [DOT]" "?n + 1" "y # ds"] assms lds by simp
  show ?thesis
  proof (cases "?n < 8 \<and> ext = []")
    case True
    then have stop: "s2f_copy 8 ?url ?n ?n (?B @ x # y # ds) = Inl (0, ?B @ 0 # y # ds)"
      by (subst s2f_copy.simps) (simp add: cstr_at_def name83_def list_update_append)
    show ?thesis
      unfolding str stop using True by (simp add: mid_name_def)
  next
    case False
    then have "s2f_copy 8 ?url ?n ?n (?B @ x # y # ds) =
        Inr (?n, ?B @ (if ?n < 8 then DOT else x) # y # ds)"
      using assms(2)
      by (subst s2f_copy.simps)
        (auto simp: cstr_at_def name83_def nth_append list_update_append)
    then have "str_to_fatname ?url d = s2f_ext ext 0 (?n + 1) (?B @ DOT # y # ds)"
      unfolding str by (simp add: list_update_append)
    with ext False assms(2) show ?thesis
      by (auto simp: mid_name_def)
  qed
qed

lemma mid_name_base [simp]:
  "k < length B \<Longrightarrow> cstr_at (mid_name B E) k = B ! k"
  "cstr_at (mid_name B E) (length B) = (if E \<noteq> [] \<or> length B = 8 then DOT else 0)"
  by (auto simp: mid_name_def cstr_at_def nth_append)

lemma mid_name_ext [simp]:
  "k < length E \<Longrightarrow> cstr_at (mid_name B E) (Suc (length B) + k) = E ! k"
  "cstr_at (mid_name B E) (Suc (length B + length E)) = 0"
  by (auto simp: mid_name_def cstr_at_def nth_append)

lemma mdn_base_mid:
  assumes "length B \<le> 8" "2 \<le> length B \<or> E = []" "B \<noteq> []"
    and B: "\<forall>k<length B. doschar (B ! k) = B ! k \<and> B ! k \<notin> {0, 1, DOT, SLASH}" and "8 \<le> length d"
  shows "mdn_loop (mdn_base_step (mid_name B E)) [0..<8]
      (d, doschar (cstr_at (mid_name B E) 0), Suc 0) =
    (True, B @ replicate (8 - length B) SPACE @ drop 8 d,
     doschar (cstr_at (mid_name B E) (length B)), Suc (length B))"
proof -
  let ?p = "mid_name B E"
  have "mdn_loop (mdn_base_step ?p) [0..<8] ([] @ d, doschar (cstr_at ?p 0), Suc 0) =
      mdn_loop (mdn_base_step ?p) [0 + length B..<8]
        ([] @ B @ drop (length B) d, doschar (cstr_at ?p (0 + length B)), Suc (0 + length B))"
    by (rule mdn_base_run) (use assms in simp_all)
  also have "\<dots> = mdn_loop (mdn_base_step ?p) [length B..<8]
        (B @ drop (length B) d, doschar (cstr_at ?p (length B)), Suc (length B))"
    by simp
  also have "\<dots> = (True, B @ replicate (8 - length B) SPACE @ drop (8 - length B) (drop (length B) d),
      doschar (cstr_at ?p (length B)), Suc (length B))"
    by (rule mdn_base_pad) (use assms in auto)
  finally show ?thesis using assms(1) by simp
qed

lemma mdn_ext_mid:
  assumes "length E \<le> 3" and "length pre = 8" and "length t = 3"
    and E: "\<forall>k<length E. doschar (E ! k) = E ! k \<and> E ! k \<notin> {0, 1, DOT, SLASH}"
  shows "mdn_loop (mdn_ext_step (mid_name B E) True) [0..<3]
      (pre @ t @ [0], doschar (cstr_at (mid_name B E) (Suc (length B))), Suc (Suc (length B))) =
    (True, pre @ E @ replicate (3 - length E) SPACE @ [0], 0, Suc (Suc (length B + length E)))"
proof -
  let ?p = "mid_name B E" and ?m = "length E" and ?n = "length B"
  have "mdn_loop (mdn_ext_step ?p True) [0..<3]
      (pre @ t @ [0], doschar (cstr_at ?p (Suc ?n)), Suc (Suc ?n)) =
    mdn_loop (mdn_ext_step ?p True) [0 + ?m..<3]
      (pre @ E @ drop ?m (t @ [0]), doschar (cstr_at ?p (Suc ?n + ?m)), Suc (Suc ?n + ?m))"
    by (rule mdn_ext_run) (use assms in \<open>simp_all del: add_Suc\<close>)
  also have "\<dots> = mdn_loop (mdn_ext_step ?p True) [?m..<3]
      ((pre @ E) @ drop ?m (t @ [0]), 0, Suc (Suc (?n + ?m)))"
    by simp
  also have "\<dots> = (True, (pre @ E) @ replicate (3 - ?m) SPACE @ drop (3 - ?m) (drop ?m (t @ [0])), 0,
      Suc (Suc (?n + ?m)))"
    by (rule mdn_ext_pad) (use assms in auto)
  finally show ?thesis using assms(1,3) by simp
qed

lemma drop8_terminated: "length d = 12 \<Longrightarrow> \<exists>t. drop 8 (d[11 := 0]) = t @ [0] \<and> length t = 3"
  by (rule exI [of _ "take 3 (drop 8 d)"]) (auto simp: list_eq_iff_nth_eq nth_append nth_list_update)

lemma make_dos_name_mid:
  assumes "B \<noteq> []" "length B \<le> 8" "length E \<le> 3" "2 \<le> length B \<or> E = []"
    and "\<forall>k<length B. doschar (B ! k) = B ! k \<and> B ! k \<notin> {0, 1, DOT, SLASH}"
    and "\<forall>k<length E. doschar (E ! k) = E ! k \<and> E ! k \<notin> {0, 1, DOT, SLASH}" and "length d = 12"
  shows "\<exists>pp. make_dos_name d (mid_name B E) 0 =
    (0, B @ replicate (8 - length B) SPACE @ E @ replicate (3 - length E) SPACE @ [0], pp)"
proof -
  let ?p = "mid_name B E" and ?pre = "B @ replicate (8 - length B) SPACE"
  obtain t where t: "drop 8 (d[11 := 0]) = t @ [0]" "length t = 3"
    using drop8_terminated [OF assms(7)] by blast
  have base: "mdn_loop (mdn_base_step ?p) [0..<8] (d[11 := 0], doschar (cstr_at ?p 0), Suc 0) =
      (True, ?pre @ t @ [0], doschar (cstr_at ?p (length B)), Suc (length B))"
    using mdn_base_mid [of B E "d[11 := 0]"] assms(1,2,4,5,7) t(1) by simp
  show ?thesis
  proof (cases "E = [] \<and> length B < 8")
    case True
    have "mdn_loop (mdn_ext_step ?p False) [0..<3] (?pre @ t @ [0], 0, Suc (length B)) =
        (True, ?pre @ replicate 3 SPACE @ [0], 0, Suc (length B))"
      using mdn_ext_pad [of ?pre 0 "t @ [0]" 0 ?p False "Suc (length B)"] t(2) assms(2) by simp
    then show ?thesis
      using True unfolding make_dos_name_def base by (simp add: mdn_sep_def)
  next
    case False
    then have c: "cstr_at ?p (length B) = DOT" using assms(2) by simp
    show ?thesis
      using mdn_ext_mid [of E ?pre t B] assms(2,3,6) t(2)
      unfolding make_dos_name_def base c by (simp add: mdn_sep_def)
  qed
qed

lemma make_dos_name_letter:
  assumes "E \<noteq> []" "length E \<le> 3" "doschar x = x" "x \<notin> {0, 1, DOT, SLASH}"
    and E: "\<forall>k<length E. doschar (E ! k) = E ! k \<and> E ! k \<notin> {0, 1, DOT, SLASH}" and "length d = 12"
  shows "\<exists>pp. make_dos_name d (mid_name [x] E) 0 =
    (0, [x, d ! 1] @ replicate 6 SPACE @ E @ replicate (3 - length E) SPACE @ [0], pp)"
proof -
  let ?p = "mid_name [x] E" and ?pre = "[x, d ! 1] @ replicate 6 SPACE"
  obtain t where t: "drop 8 (d[11 := 0]) = t @ [0]" "length t = 3"
    using drop8_terminated [OF assms(6)] by blast
  have p: "cstr_at ?p 0 = x" "cstr_at ?p (Suc 0) = DOT" "cstr_at ?p (Suc (Suc 0)) = E ! 0"
    using assms(1) by (auto simp: mid_name_def cstr_at_def)
  have e0: "E ! 0 \<noteq> 0" "doschar (E ! 0) \<noteq> SLASH" using E assms(1) by (auto dest: spec [of _ 0])
  have eight: "[0..<8] = [0, 1, 2, 3, 4, 5, 6, 7 :: nat]" by (simp add: upt_rec)
  have "d[11 := 0, 0 := x, 2 := SPACE, 3 := SPACE, 4 := SPACE, 5 := SPACE, 6 := SPACE, 7 := SPACE] =
      take 8 (d[0 := x, 2 := SPACE, 3 := SPACE, 4 := SPACE, 5 := SPACE, 6 := SPACE, 7 := SPACE]) @ drop 8 (d[11 := 0])"
    using assms(6) by (intro nth_equalityI) (auto simp: nth_append nth_list_update)
  also have "take 8 (d[0 := x, 2 := SPACE, 3 := SPACE, 4 := SPACE, 5 := SPACE, 6 := SPACE, 7 := SPACE]) = ?pre"
    using assms(6) by (auto simp: numeral_eq_Suc length_Suc_conv)
  finally have upd: "d[11 := 0, 0 := x, 2 := SPACE, 3 := SPACE, 4 := SPACE, 5 := SPACE, 6 := SPACE, 7 := SPACE] =
      ?pre @ t @ [0]" by (simp only: t(1))
  have "mdn_loop (mdn_base_step ?p) [0..<8] (d[11 := 0], doschar (cstr_at ?p 0), Suc 0) =
      (True, d[11 := 0, 0 := x, 2 := SPACE, 3 := SPACE, 4 := SPACE, 5 := SPACE, 6 := SPACE, 7 := SPACE], DOT, Suc (Suc 0))"
    unfolding eight using assms(3,4) e0 by (simp add: mdn_base_step_def p)
  then have base: "mdn_loop (mdn_base_step ?p) [0..<8] (d[11 := 0], doschar (cstr_at ?p 0), Suc 0) =
      (True, ?pre @ t @ [0], DOT, Suc (Suc 0))" unfolding upd .
  show ?thesis
    using mdn_ext_mid [of E ?pre t "[x]"] assms(2) E t(2)
    unfolding make_dos_name_def base by (simp add: mdn_sep_def)
qed

lemma cstr_mid_name:
  assumes "\<forall>c\<in>set (B @ E). c \<noteq> 0"
  shows "cstr (mid_name B E @ 0 # rest) = mid_name B E"
  using assms by (auto simp: cstr_def mid_name_def takeWhile_append)

text \<open>
  The base part of the entry's name: the capitals and spaces up to the eighth byte; of a single letter
  that an extension follows only the first byte, and the second stays what it was.
\<close>

definition base_field :: "byte list \<Rightarrow> byte list \<Rightarrow> byte \<Rightarrow> byte list" where
  "base_field base ext old =
    (if length base = 1 \<and> ext \<noteq> [] then [upcase (base ! 0), old] @ replicate 6 SPACE
     else map upcase base @ replicate (8 - length base) SPACE)"

lemma element_name83:
  assumes "base \<noteq> []" "length base \<le> 8" "\<forall>c\<in>set base. plain_char c"
    and "length ext \<le> 3" "\<forall>c\<in>set ext. plain_char c"
    and "length d = 12" and "length d2 = 13"
  shows "\<exists>d2'. element_dos_name (name83 base ext) d d2 =
    Some (base_field base ext (d ! 1) @ map upcase ext @ replicate (3 - length ext) SPACE @ [0], d2')"
proof -
  let ?B = "map upcase base" and ?E = "map upcase ext"
  obtain rest where 1: "str_to_fatname (name83 base ext) d2 = (0, mid_name ?B ?E @ 0 # rest)"
    using str_to_fatname_name83 [OF assms(1-5,7)] map_doschar_plain assms(3,5) by auto
  have plain: "doschar (upcase c) = upcase c \<and> upcase c \<notin> {0, 1, DOT, SLASH}" if "plain_char c" for c
    using plain_char_doschar [OF that] doschar_plain [OF that] by simp
  have B: "\<forall>k<length ?B. doschar (?B ! k) = ?B ! k \<and> ?B ! k \<notin> {0, 1, DOT, SLASH}"
    and E: "\<forall>k<length ?E. doschar (?E ! k) = ?E ! k \<and> ?E ! k \<notin> {0, 1, DOT, SLASH}"
    using assms(3,5) plain by simp_all
  have "\<exists>pp. make_dos_name d (mid_name ?B ?E) 0 =
      (0, base_field base ext (d ! 1) @ ?E @ replicate (3 - length ?E) SPACE @ [0], pp)"
  proof (cases "length base = 1 \<and> ext \<noteq> []")
    case True
    then obtain x where x: "base = [x]" by (auto simp: length_Suc_conv)
    show ?thesis
      using make_dos_name_letter [OF _ _ _ _ E assms(6), of "upcase x"] True assms(4) B
      by (simp add: x base_field_def)
  next
    case False
    then have "2 \<le> length base \<or> ext = []" using assms(1) by (cases base rule: list.exhaust; cases "tl base") auto
    then show ?thesis
      using make_dos_name_mid [OF _ _ _ _ B E assms(6)] False assms(1,2,4) by (auto simp: base_field_def)
  qed
  moreover have "cstr (mid_name ?B ?E @ 0 # rest) = mid_name ?B ?E"
    using assms(3,5) plain by (intro cstr_mid_name) auto
  ultimately show ?thesis
    using 1 by (auto simp: element_dos_name_def)
qed

text \<open>
  C14: A plain 8.3 name, in either case, becomes the padded upper-case name of the directory entry, but
  for a base name of one letter with an extension: there the second byte of the name is not written
  and keeps what the buffer held.
\<close>

theorem element_dos_name_83:
  assumes "base \<noteq> []" "length base \<le> 8" "\<forall>c\<in>set base. plain_char c"
    and "length ext \<le> 3" "\<forall>c\<in>set ext. plain_char c"
    and "length d = 12" and "length d2 = 13"
  shows "\<exists>d2'. element_dos_name (name83 base ext) d d2 =
    Some ((if length base = 1 \<and> ext \<noteq> [] then [upcase (base ! 0), d ! 1] @ replicate 6 SPACE
           else map upcase base @ replicate (8 - length base) SPACE) @
          map upcase ext @ replicate (3 - length ext) SPACE @ [0], d2')"
  using element_name83 [OF assms] by (simp only: base_field_def)

text \<open>
  C13: Listing a directory gives back the plain 8.3 name its entry was made from, in upper case. For a
  base name of one letter with an extension it takes a buffer with a space in its second byte, since
  the driver does not write there.
\<close>

theorem fatname_roundtrip:
  assumes "base \<noteq> []" "length base \<le> 8" "\<forall>c\<in>set base. plain_char c"
    and "length ext \<le> 3" "\<forall>c\<in>set ext. plain_char c"
    and "length d = 12" and "length d2 = 13"
    and "length base = 1 \<and> ext \<noteq> [] \<longrightarrow> d ! 1 = SPACE"
    and "element_dos_name (name83 base ext) d d2 = Some (dn, d2')"
  shows "fatname_to_str dn = map upcase (name83 base ext)"
proof -
  let ?B = "map upcase base" and ?E = "map upcase ext"
  have field: "base_field base ext (d ! 1) = ?B @ replicate (8 - length base) SPACE"
    using assms(8) by (auto simp: base_field_def length_Suc_conv numeral_eq_Suc)
  have dn: "dn = ?B @ replicate (8 - length base) SPACE @ ?E @ replicate (3 - length ext) SPACE @ [0]"
    using element_name83 [OF assms(1-7)] assms(9) field by auto
  have noB: "\<forall>c\<in>set ?B. c \<noteq> SPACE" and noE: "\<forall>c\<in>set ?E. c \<noteq> SPACE"
    using assms(3,5) plain_char_upcase(1) by auto
  have take8: "take 8 dn = ?B @ replicate (8 - length base) SPACE"
    and drop8: "drop 8 dn = ?E @ replicate (3 - length ext) SPACE @ [0]"
    using assms(2) by (simp_all add: dn)
  have "filter (\<lambda>c. c \<noteq> SPACE) (take 8 dn) = ?B"
    unfolding take8 using noB by (simp add: filter_id_conv)
  moreover have "dn ! 8 = (?E @ replicate (3 - length ext) SPACE @ [0]) ! 0"
    unfolding drop8 [symmetric] using assms(2) by (subst nth_drop) (auto simp: dn)
  moreover have "takeWhile (\<lambda>c. c \<noteq> SPACE) (take 3 (drop 8 dn)) = ?E"
    unfolding drop8 using noE assms(4)
    by (cases "3 - length ext") (auto simp: takeWhile_append takeWhile_eq_all_conv)
  moreover have "upcase DOT = DOT" by (simp add: upcase_def)
  ultimately show ?thesis
    using noE by (cases ext) (auto simp: fatname_to_str_def name83_def numeral_3_eq_3)
qed

section \<open>Instances\<close>

lemma plain_letters [simp]: "plain_char 0x61" "plain_char 0x62" "plain_char 0x74" "plain_char 0x78"
  by (simp_all add: plain_char_def)

lemma upcase_letters [simp]:
  "upcase 0x61 = 0x41" "upcase 0x62 = 0x42" "upcase 0x74 = 0x54" "upcase 0x78 = 0x58" "upcase DOT = DOT"
  by (simp_all add: upcase_def)

lemma six_spaces: "replicate 6 SPACE = [SPACE, SPACE, SPACE, SPACE, SPACE, SPACE]"
  by (simp add: numeral_eq_Suc)

lemma element_dos_name_83_witness:
  "(\<exists>d2'. element_dos_name [0x61, 0x62, 0x2E, 0x74, 0x78, 0x74] (replicate 12 7) (replicate 13 7) =
    Some ([0x41, 0x42, 0x20, 0x20, 0x20, 0x20, 0x20, 0x20, 0x54, 0x58, 0x54, 0], d2')) \<and>
   (\<exists>d2'. element_dos_name [0x61, 0x2E, 0x74, 0x78, 0x74] (replicate 12 7) (replicate 13 7) =
    Some ([0x41, 7, 0x20, 0x20, 0x20, 0x20, 0x20, 0x20, 0x54, 0x58, 0x54, 0], d2'))"
  using element_dos_name_83 [of "[0x61, 0x62]" "[0x74, 0x78, 0x74]" "replicate 12 7" "replicate 13 7"]
    element_dos_name_83 [of "[0x61]" "[0x74, 0x78, 0x74]" "replicate 12 7" "replicate 13 7"]
  by (simp add: name83_def six_spaces)

lemma fatname_roundtrip_witness:
  "\<exists>dn d2'. element_dos_name [0x61, 0x62, 0x2E, 0x74, 0x78, 0x74] (replicate 12 7) (replicate 13 7) =
      Some (dn, d2') \<and> fatname_to_str dn = [0x41, 0x42, 0x2E, 0x54, 0x58, 0x54]"
proof -
  obtain dn d2' where e: "element_dos_name (name83 [0x61, 0x62] [0x74, 0x78, 0x74])
      (replicate 12 7) (replicate 13 7) = Some (dn, d2')"
    using element_name83 [of "[0x61, 0x62]" "[0x74, 0x78, 0x74]" "replicate 12 7" "replicate 13 7"]
    by auto
  then have "fatname_to_str dn = map upcase (name83 [0x61, 0x62] [0x74, 0x78, 0x74])"
    by (intro fatname_roundtrip) simp_all
  with e show ?thesis
    by (simp add: name83_def)
qed

lemma make_dos_name_legal_witness:
  "\<exists>pp. make_dos_name (replicate 12 7) [0x61, 0x62] 0 =
      (0, [0x41, 0x42, 0x20, 0x20, 0x20, 0x20, 0x20, 0x20, 0x20, 0x20, 0x20, 0], pp) \<and>
    name_byte 0x41 \<and> name_byte 0x42 \<and> name_byte SPACE"
proof -
  have m: "make_dos_name (replicate 12 7) [0x61, 0x62] 0 =
      (0, [0x41, 0x42, 0x20, 0x20, 0x20, 0x20, 0x20, 0x20, 0x20, 0x20, 0x20, 0], 2)"
    by code_simp
  note legal = make_dos_name_legal [OF m, THEN conjunct2, rule_format]
  show ?thesis
    using legal [of 0] legal [of 1] legal [of 2] m by simp
qed

lemma str_to_fatname_bounds_witness:
  "snd (str_to_fatname [0x61, 0x2E, 0x62] (replicate 13 0 @ [9])) ! 13 = 9"
  using str_to_fatname_bounds [of "replicate 13 0" "[0x61, 0x2E, 0x62]" "[9]"]
    str_to_fatname_length [of "[0x61, 0x2E, 0x62]" "replicate 13 0"]
  by (simp add: nth_append)

end
