(* ===== verification/Fat_Types.thy ===== *)
theory Fat_Types
  imports Block_Device Fat_Time Fat_Name
begin

text \<open>
  The data of gristle.h and the globals of gristle.c: the mounted volume (\<open>fat_info\<close>), the
  directory entry as it lies on disk (\<open>direntS\<close>, with the codec for its 32 bytes), the open file
  (\<open>FileS\<close>) and the driver's state \<open>gstate\<close>, which is the two globals \<open>fatfs\<close> and \<open>file_num\<close>
  with the block device they are used on. Then the helpers every operation is written with:
  block reads and writes into a file's buffer or into the system buffer, and FAT entries.
\<close>

section \<open>Model\<close>

abbreviation (input) MAX_OPEN_FILES :: nat where "MAX_OPEN_FILES \<equiv> 4"

abbreviation (input) PART_TYPE_FAT16 :: byte where "PART_TYPE_FAT16 \<equiv> 0x06"
abbreviation (input) PART_TYPE_FAT32 :: byte where "PART_TYPE_FAT32 \<equiv> 0x0B"

abbreviation (input) FAT_ERROR_CLUSTER :: byte where "FAT_ERROR_CLUSTER \<equiv> 1"
abbreviation (input) FAT_END_OF_FILE :: byte where "FAT_END_OF_FILE \<equiv> 2"

abbreviation (input) FAT_ATT_RO :: byte where "FAT_ATT_RO \<equiv> 0x01"
abbreviation (input) FAT_ATT_VOL :: byte where "FAT_ATT_VOL \<equiv> 0x08"
abbreviation (input) FAT_ATT_SUBDIR :: byte where "FAT_ATT_SUBDIR \<equiv> 0x10"
abbreviation (input) FAT_ATT_ARC :: byte where "FAT_ATT_ARC \<equiv> 0x20"

abbreviation (input) FAT_FLAG_OPEN :: byte where "FAT_FLAG_OPEN \<equiv> 1"
abbreviation (input) FAT_FLAG_READ :: byte where "FAT_FLAG_READ \<equiv> 2"
abbreviation (input) FAT_FLAG_WRITE :: byte where "FAT_FLAG_WRITE \<equiv> 4"
abbreviation (input) FAT_FLAG_APPEND :: byte where "FAT_FLAG_APPEND \<equiv> 8"
abbreviation (input) FAT_FLAG_DIRTY :: byte where "FAT_FLAG_DIRTY \<equiv> 16"
abbreviation (input) FAT_FLAG_FS_DIRTY :: byte where "FAT_FLAG_FS_DIRTY \<equiv> 32"

abbreviation (input) GRISTLE_BAD_PATH :: int where "GRISTLE_BAD_PATH \<equiv> 255"
abbreviation (input) FAT_INTERNAL_CALL :: int where "FAT_INTERNAL_CALL \<equiv> 4242"

text \<open>\<open>x & m\<close> as a condition.\<close>

definition has :: "'a::len word \<Rightarrow> 'a word \<Rightarrow> bool" where
  "has x m \<longleftrightarrow> x AND m \<noteq> 0"

record fat_info =
  read_only :: byte
  fat_entry_len :: byte
  end_cluster_marker :: u32
  sectors_per_cluster :: byte
  cluster0 :: u32
  active_fat_start :: u32
  sectors_per_fat :: u32
  root_len :: u32
  root_start :: u32
  root_cluster :: u32
  fs_type :: byte
  part_start :: blockno
  total_sectors :: u32
  sysbuf :: sector

record direntS =
  de_filename :: "byte list"
  de_extension :: "byte list"
  de_attributes :: byte
  de_reserved :: byte
  de_create_time_fine :: byte
  de_create_time :: u16
  de_create_date :: u16
  de_access_date :: u16
  de_high_first_cluster :: u16
  de_modified_time :: u16
  de_modified_date :: u16
  de_first_cluster :: u16
  de_size :: u32

text \<open>The packed layout of a directory entry: its 32 bytes, and the entry cast from them.\<close>

definition dirent_bytes :: "direntS \<Rightarrow> byte list" where
  "dirent_bytes d =
    de_filename d @ de_extension d @
    [de_attributes d, de_reserved d, de_create_time_fine d] @
    bytes16 (de_create_time d) @ bytes16 (de_create_date d) @ bytes16 (de_access_date d) @
    bytes16 (de_high_first_cluster d) @ bytes16 (de_modified_time d) @
    bytes16 (de_modified_date d) @ bytes16 (de_first_cluster d) @ bytes32 (de_size d)"

definition dirent_of :: "byte list \<Rightarrow> direntS" where
  "dirent_of b =
    \<lparr>de_filename = take 8 b, de_extension = take 3 (drop 8 b), de_attributes = b ! 11,
     de_reserved = b ! 12, de_create_time_fine = b ! 13, de_create_time = get16 b 14,
     de_create_date = get16 b 16, de_access_date = get16 b 18, de_high_first_cluster = get16 b 20,
     de_modified_time = get16 b 22, de_modified_date = get16 b 24, de_first_cluster = get16 b 26,
     de_size = get32 b 28\<rparr>"

record FileS =
  f_flags :: byte
  f_buffer :: sector
  f_sector :: u32
  f_cluster :: u32
  f_sectors_left :: byte
  f_cursor :: u16
  f_error :: byte
  f_filename :: "byte list"
  f_extension :: "byte list"
  f_attributes :: byte
  f_size :: u32
  f_full_first_cluster :: u32
  f_entry_sector :: u32
  f_entry_number :: byte
  f_parent_cluster :: u32
  f_file_sector :: u32
  f_created :: int
  f_modified :: int
  f_accessed :: int

text \<open>
  The globals \<open>fatfs\<close> and \<open>file_num\<close>, the state of the block device, and how often the clock
  has been read.
\<close>

record 'd gstate =
  dev :: 'd
  fatfs :: fat_info
  file_num :: "FileS list"
  ticks :: nat

text \<open>The globals before the first call: C initialises them with zeros.\<close>

definition closed_file :: FileS where
  "closed_file =
    \<lparr>f_flags = 0, f_buffer = replicate 512 0, f_sector = 0, f_cluster = 0, f_sectors_left = 0,
     f_cursor = 0, f_error = 0, f_filename = replicate 8 0, f_extension = replicate 3 0,
     f_attributes = 0, f_size = 0, f_full_first_cluster = 0, f_entry_sector = 0,
     f_entry_number = 0, f_parent_cluster = 0, f_file_sector = 0, f_created = 0, f_modified = 0,
     f_accessed = 0\<rparr>"

definition unmounted :: fat_info where
  "unmounted =
    \<lparr>read_only = 0, fat_entry_len = 0, end_cluster_marker = 0, sectors_per_cluster = 0,
     cluster0 = 0, active_fat_start = 0, sectors_per_fat = 0, root_len = 0, root_start = 0,
     root_cluster = 0, fs_type = 0, part_start = 0, total_sectors = 0, sysbuf = replicate 512 0\<rparr>"

definition startup :: "'d \<Rightarrow> 'd gstate" where
  "startup d =
    \<lparr>dev = d, fatfs = unmounted, file_num = replicate MAX_OPEN_FILES closed_file, ticks = 0\<rparr>"

definition the_file :: "'d gstate \<Rightarrow> nat \<Rightarrow> FileS" where
  "the_file s fd = file_num s ! fd"

definition upd_file :: "nat \<Rightarrow> (FileS \<Rightarrow> FileS) \<Rightarrow> 'd gstate \<Rightarrow> 'd gstate" where
  "upd_file fd g s = s\<lparr>file_num := (file_num s)[fd := g (file_num s ! fd)]\<rparr>"

definition upd_fs :: "(fat_info \<Rightarrow> fat_info) \<Rightarrow> 'd gstate \<Rightarrow> 'd gstate" where
  "upd_fs g s = s\<lparr>fatfs := g (fatfs s)\<rparr>"

abbreviation set_flags :: "byte \<Rightarrow> FileS \<Rightarrow> FileS" where
  "set_flags m f \<equiv> f\<lparr>f_flags := f_flags f OR m\<rparr>"

abbreviation clear_flags :: "byte \<Rightarrow> FileS \<Rightarrow> FileS" where
  "clear_flags m f \<equiv> f\<lparr>f_flags := f_flags f AND NOT m\<rparr>"

text \<open>\<open>block_read(b, file_num[fd].buffer)\<close> and \<open>block_write(b, file_num[fd].buffer)\<close>.\<close>

definition file_block_read :: "'d platform \<Rightarrow> nat \<Rightarrow> blockno \<Rightarrow> 'd gstate \<Rightarrow> int \<times> 'd gstate" where
  "file_block_read P fd b s =
    (case blk_read P (dev s) b (f_buffer (the_file s fd)) of
       (d, buf, rc) \<Rightarrow> (rc, upd_file fd (\<lambda>f. f\<lparr>f_buffer := buf\<rparr>) (s\<lparr>dev := d\<rparr>)))"

definition file_block_write :: "'d platform \<Rightarrow> nat \<Rightarrow> blockno \<Rightarrow> 'd gstate \<Rightarrow> int \<times> 'd gstate" where
  "file_block_write P fd b s =
    (case blk_write P (dev s) b (f_buffer (the_file s fd)) of (d, rc) \<Rightarrow> (rc, s\<lparr>dev := d\<rparr>))"

text \<open>The same with \<open>fatfs.sysbuf\<close>.\<close>

definition sys_block_read :: "'d platform \<Rightarrow> blockno \<Rightarrow> 'd gstate \<Rightarrow> int \<times> 'd gstate" where
  "sys_block_read P b s =
    (case blk_read P (dev s) b (sysbuf (fatfs s)) of
       (d, buf, rc) \<Rightarrow> (rc, upd_fs (\<lambda>v. v\<lparr>sysbuf := buf\<rparr>) (s\<lparr>dev := d\<rparr>)))"

definition sys_block_write :: "'d platform \<Rightarrow> blockno \<Rightarrow> 'd gstate \<Rightarrow> int \<times> 'd gstate" where
  "sys_block_write P b s =
    (case blk_write P (dev s) b (sysbuf (fatfs s)) of (d, rc) \<Rightarrow> (rc, s\<lparr>dev := d\<rparr>))"

text \<open>One evaluation of \<open>GRISTLE_TIME\<close>.\<close>

definition now :: "'d platform \<Rightarrow> 'd gstate \<Rightarrow> int \<times> 'd gstate" where
  "now P s = (plat_time P (ticks s), s\<lparr>ticks := Suc (ticks s)\<rparr>)"

text \<open>
  The FAT entry at an offset of a buffer, two or four bytes by the type of the volume, and the
  bytes of an entry.
\<close>

definition fat_entry_at :: "byte \<Rightarrow> sector \<Rightarrow> nat \<Rightarrow> u32" where
  "fat_entry_at type buf off =
    (if type = PART_TYPE_FAT32 then get32 buf off else ucast (get16 buf off))"

definition fat_entry_bytes :: "byte \<Rightarrow> u32 \<Rightarrow> byte list" where
  "fat_entry_bytes type v = (if type = PART_TYPE_FAT16 then bytes16 (ucast v) else bytes32 v)"

text \<open>The block of the FAT that holds the entry of a cluster, and the entry's offset in it.\<close>

definition fat_block :: "fat_info \<Rightarrow> u32 \<Rightarrow> blockno" where
  "fat_block v cluster = active_fat_start v + (cluster * ucast (fat_entry_len v)) div 512"

definition fat_offset :: "fat_info \<Rightarrow> u32 \<Rightarrow> nat" where
  "fat_offset v cluster = unat ((cluster * ucast (fat_entry_len v)) AND 0x1FF)"

text \<open>The first sector of a cluster.\<close>

definition cluster_sector :: "fat_info \<Rightarrow> u32 \<Rightarrow> u32" where
  "cluster_sector v cluster = cluster * ucast (sectors_per_cluster v) + cluster0 v"

section \<open>Updates of the state\<close>

lemma upd_file_simps [simp, state_simps]:
  "dev (upd_file fd g s) = dev s" "fatfs (upd_file fd g s) = fatfs s"
  "ticks (upd_file fd g s) = ticks s" "length (file_num (upd_file fd g s)) = length (file_num s)"
  "fd' \<noteq> fd \<Longrightarrow> the_file (upd_file fd g s) fd' = the_file s fd'"
  "fd < length (file_num s) \<Longrightarrow> the_file (upd_file fd g s) fd = g (the_file s fd)"
  by (simp_all add: upd_file_def the_file_def)

lemma upd_fs_simps [simp, state_simps]:
  "dev (upd_fs g s) = dev s" "fatfs (upd_fs g s) = g (fatfs s)"
  "ticks (upd_fs g s) = ticks s" "file_num (upd_fs g s) = file_num s"
  "the_file (upd_fs g s) fd = the_file s fd"
  by (simp_all add: upd_fs_def the_file_def)

lemma the_file_dev [simp, state_simps]:
  "the_file (s\<lparr>dev := d\<rparr>) fd = the_file s fd" "the_file (s\<lparr>ticks := n\<rparr>) fd = the_file s fd"
  by (simp_all add: the_file_def)

section \<open>Flag tests\<close>

lemma has_simps [simp]:
  "\<not> has (f AND NOT m) m" "m \<noteq> 0 \<Longrightarrow> has (f OR m) m" "\<not> has 0 m"
proof -
  have "(f AND NOT m) AND m = 0" by (rule bit_word_eqI) (auto simp: bit_simps)
  then show "\<not> has (f AND NOT m) m" by (simp add: has_def)
  have "(f OR m) AND m = m" by (rule bit_word_eqI) (auto simp: bit_simps)
  then show "m \<noteq> 0 \<Longrightarrow> has (f OR m) m" by (simp add: has_def)
qed (simp add: has_def)

lemma has_or: "has (f OR g) m \<longleftrightarrow> has f m \<or> has g m"
proof -
  have "(f OR g) AND m = (f AND m) OR (g AND m)" by (rule bit_word_eqI) (auto simp: bit_simps)
  then show ?thesis by (simp add: has_def or_eq_0_iff)
qed

lemma has_and_not_disjoint:
  fixes f :: "'a::len word"
  assumes "m AND k = 0"
  shows "has (f AND NOT m) k \<longleftrightarrow> has f k"
proof -
  have "(f AND NOT m) AND k = f AND k"
  proof (rule bit_word_eqI)
    fix n assume "n < LENGTH('a)"
    have "\<not> bit (m AND k) n" using assms by simp
    then show "bit ((f AND NOT m) AND k) n = bit (f AND k) n"
      using \<open>n < LENGTH('a)\<close> by (auto simp: bit_simps)
  qed
  then show ?thesis by (simp add: has_def)
qed

section \<open>The directory entry codec\<close>

lemma length_dirent_bytes:
  "length (de_filename d) = 8 \<Longrightarrow> length (de_extension d) = 3 \<Longrightarrow> length (dirent_bytes d) = 32"
  by (simp add: dirent_bytes_def)

end
