(* ===== verification/Fat_Mount.thy ===== *)
theory Fat_Mount
  imports Fat_Types
begin

text \<open>
  Mounting: the two boot sectors of gristle.h cast from the first block of the partition, the
  validation and the layout computed by \<open>fat_mount_fat16\<close> and \<open>fat_mount_fat32\<close>, and the choice
  between them in \<open>fat_mount\<close>. The lemmas show that an accepted boot sector leaves a volume the
  rest of the driver can index without wrapping around.
\<close>

section \<open>Model\<close>

record boot_sector_fat16 =
  b16_jump :: "byte list"
  b16_name :: "byte list"
  b16_sector_size :: u16
  b16_cluster_size :: byte
  b16_reserved_sectors :: u16
  b16_num_fats :: byte
  b16_root_entries :: u16
  b16_total_sectors :: u16
  b16_media_descriptor :: byte
  b16_sectors_per_fat :: u16
  b16_sectors_per_track :: u16
  b16_number_of_heads :: u16
  b16_partition_start :: u32
  b16_big_total_sectors :: u32
  b16_drive_number :: byte
  b16_current_head :: byte
  b16_boot_sig :: byte
  b16_volume_id :: u32
  b16_volume_label :: "byte list"
  b16_fs_label :: "byte list"

definition boot16_of :: "sector \<Rightarrow> boot_sector_fat16" where
  "boot16_of b =
    \<lparr>b16_jump = slice 0x00 3 b, b16_name = slice 0x03 8 b,
     b16_sector_size = get16 b 0x0B, b16_cluster_size = b ! 0x0D,
     b16_reserved_sectors = get16 b 0x0E, b16_num_fats = b ! 0x10,
     b16_root_entries = get16 b 0x11, b16_total_sectors = get16 b 0x13,
     b16_media_descriptor = b ! 0x15, b16_sectors_per_fat = get16 b 0x16,
     b16_sectors_per_track = get16 b 0x18, b16_number_of_heads = get16 b 0x1A,
     b16_partition_start = get32 b 0x1C, b16_big_total_sectors = get32 b 0x20,
     b16_drive_number = b ! 0x24, b16_current_head = b ! 0x25, b16_boot_sig = b ! 0x26,
     b16_volume_id = get32 b 0x27, b16_volume_label = slice 0x2B 11 b,
     b16_fs_label = slice 0x36 8 b\<rparr>"

record boot_sector_fat32 =
  b32_jump :: "byte list"
  b32_name :: "byte list"
  b32_sector_size :: u16
  b32_cluster_size :: byte
  b32_reserved_sectors :: u16
  b32_num_fats :: byte
  b32_root_entries :: u16
  b32_total_sectors :: u16
  b32_media_descriptor :: byte
  b32_short_sectors_per_fat :: u16
  b32_sectors_per_track :: u16
  b32_number_of_heads :: u16
  b32_partition_start :: u32
  b32_big_total_sectors :: u32
  b32_sectors_per_fat :: u32
  b32_fat_flags :: u16
  b32_version :: u16
  b32_root_start :: u32
  b32_fs_info_start :: u16
  b32_boot_copy :: u16
  b32_reserved :: "byte list"
  b32_drive_number :: byte
  b32_current_head :: byte
  b32_boot_sig :: byte
  b32_volume_id :: u32
  b32_volume_label :: "byte list"
  b32_fs_label :: "byte list"

definition boot32_of :: "sector \<Rightarrow> boot_sector_fat32" where
  "boot32_of b =
    \<lparr>b32_jump = slice 0x00 3 b, b32_name = slice 0x03 8 b,
     b32_sector_size = get16 b 0x0B, b32_cluster_size = b ! 0x0D,
     b32_reserved_sectors = get16 b 0x0E, b32_num_fats = b ! 0x10,
     b32_root_entries = get16 b 0x11, b32_total_sectors = get16 b 0x13,
     b32_media_descriptor = b ! 0x15, b32_short_sectors_per_fat = get16 b 0x16,
     b32_sectors_per_track = get16 b 0x18, b32_number_of_heads = get16 b 0x1A,
     b32_partition_start = get32 b 0x1C, b32_big_total_sectors = get32 b 0x20,
     b32_sectors_per_fat = get32 b 0x24, b32_fat_flags = get16 b 0x28,
     b32_version = get16 b 0x2A, b32_root_start = get32 b 0x2C,
     b32_fs_info_start = get16 b 0x30, b32_boot_copy = get16 b 0x32,
     b32_reserved = slice 0x34 12 b, b32_drive_number = b ! 0x40,
     b32_current_head = b ! 0x41, b32_boot_sig = b ! 0x42, b32_volume_id = get32 b 0x43,
     b32_volume_label = slice 0x47 11 b, b32_fs_label = slice 0x52 8 b\<rparr>"

text \<open>The loop \<open>for (i = 0; i < 8; i++)\<close> that looks for \<open>1 << i\<close>.\<close>

definition cluster_size_ok :: "byte \<Rightarrow> bool" where
  "cluster_size_ok c = list_ex (\<lambda>i. unat c = 2 ^ i) [0..<8]"

text \<open>The early returns of \<open>fat_mount_fat16\<close> before the volume is written to \<open>fatfs\<close>.\<close>

definition boot16_valid :: "boot_sector_fat16 \<Rightarrow> blockno \<Rightarrow> bool" where
  "boot16_valid b volume_size \<longleftrightarrow>
    b16_sector_size b = 512 \<and>
    cluster_size_ok (b16_cluster_size b) \<and>
    \<not> (b16_reserved_sectors b < 1 \<or> ucast (b16_reserved_sectors b) \<ge> volume_size) \<and>
    \<not> (b16_num_fats b < 1 \<or> b16_num_fats b \<ge> 15) \<and>
    b16_root_entries b \<noteq> 0 \<and>
    \<not> has (b16_root_entries b) (b16_sector_size b div 32 - 1) \<and>
    (if b16_total_sectors b = 0 then \<not> b16_big_total_sectors b > volume_size
     else \<not> ucast (b16_total_sectors b) > volume_size)"

text \<open>
  The assignments that follow, up to the check of \<open>root_start\<close>. The products are \<open>int\<close>
  arithmetic in the code and do not overflow, so they are the same in \<open>uint32_t\<close>.
\<close>

definition layout16 :: "boot_sector_fat16 \<Rightarrow> blockno \<Rightarrow> fat_info \<Rightarrow> fat_info" where
  "layout16 b start v =
    (let root_sectors = ucast (b16_root_entries b) * 32 div 512;
         i1 = start + ucast (b16_reserved_sectors b);
         i2 = i1 + ucast (b16_sectors_per_fat b) * ucast (b16_num_fats b);
         i3 = i2 + root_sectors;
         i4 = i3 - ucast (b16_cluster_size b) * 2 in
     v\<lparr>sectors_per_cluster := b16_cluster_size b, root_len := root_sectors,
       active_fat_start := i1, sectors_per_fat := ucast (b16_sectors_per_fat b),
       root_start := i2, cluster0 := i4\<rparr>)"

definition finish16 :: "boot_sector_fat16 \<Rightarrow> blockno \<Rightarrow> fat_info \<Rightarrow> fat_info" where
  "finish16 b start v =
    v\<lparr>total_sectors := (if b16_total_sectors b = 0 then b16_big_total_sectors b
                        else ucast (b16_total_sectors b)),
      fs_type := PART_TYPE_FAT16, fat_entry_len := 2, end_cluster_marker := 0xFFF0,
      part_start := start, root_cluster := 1\<rparr>"

text \<open>\<open>fatfs.read_only = block_get_device_read_only(); block_read(start, fatfs.sysbuf);\<close>\<close>

definition mount_read :: "'d platform \<Rightarrow> blockno \<Rightarrow> 'd gstate \<Rightarrow> 'd gstate" where
  "mount_read P start s =
    snd (sys_block_read P start
      (upd_fs (\<lambda>v. v\<lparr>read_only := word_of_int (blk_read_only P (dev s))\<rparr>) s))"

definition fat_mount_fat16 ::
  "'d platform \<Rightarrow> blockno \<Rightarrow> blockno \<Rightarrow> 'd gstate \<Rightarrow> int \<times> 'd gstate" where
  "fat_mount_fat16 P start volume_size s =
    (let s1 = mount_read P start s; b = boot16_of (sysbuf (fatfs s1)) in
     if \<not> boot16_valid b volume_size then (- 1, s1)
     else
       let s2 = upd_fs (layout16 b start) s1 in
       if root_start (fatfs s2) > start + volume_size then (- 1, s2)
       else (0, upd_fs (finish16 b start) s2))"

definition boot32_valid :: "boot_sector_fat32 \<Rightarrow> blockno \<Rightarrow> bool" where
  "boot32_valid b volume_size \<longleftrightarrow>
    b32_sector_size b = 512 \<and>
    cluster_size_ok (b32_cluster_size b) \<and>
    \<not> (b32_reserved_sectors b < 1 \<or> ucast (b32_reserved_sectors b) \<ge> volume_size) \<and>
    \<not> (b32_num_fats b < 1 \<or> b32_num_fats b \<ge> 15) \<and>
    \<not> b32_root_entries b \<noteq> 0 \<and>
    \<not> has (b32_root_entries b) (b32_sector_size b div 32 - 1) \<and>
    (if b32_total_sectors b = 0 then \<not> b32_big_total_sectors b > volume_size
     else \<not> ucast (b32_total_sectors b) > volume_size)"

definition layout32 :: "boot_sector_fat32 \<Rightarrow> blockno \<Rightarrow> fat_info \<Rightarrow> fat_info" where
  "layout32 b start v =
    (let i1 = start + ucast (b32_reserved_sectors b);
         i2 = i1 + b32_sectors_per_fat b * ucast (b32_num_fats b);
         i3 = i2 - ucast (b32_cluster_size b) * 2 in
     v\<lparr>sectors_per_cluster := b32_cluster_size b, active_fat_start := i1,
       sectors_per_fat := b32_sectors_per_fat b, cluster0 := i3,
       root_cluster := b32_root_start b,
       total_sectors := (if b32_total_sectors b = 0 then b32_big_total_sectors b
                         else ucast (b32_total_sectors b)),
       fs_type := PART_TYPE_FAT32, fat_entry_len := 4, end_cluster_marker := 0xFFFFFF0,
       part_start := start\<rparr>)"

definition fat_mount_fat32 ::
  "'d platform \<Rightarrow> blockno \<Rightarrow> blockno \<Rightarrow> 'd gstate \<Rightarrow> int \<times> 'd gstate" where
  "fat_mount_fat32 P start volume_size s =
    (let s1 = mount_read P start s; b = boot32_of (sysbuf (fatfs s1)) in
     if \<not> boot32_valid b volume_size then (- 1, s1)
     else (0, upd_fs (layout32 b start) s1))"

definition fat_mount ::
  "'d platform \<Rightarrow> blockno \<Rightarrow> blockno \<Rightarrow> byte \<Rightarrow> 'd gstate \<Rightarrow> int \<times> 'd gstate" where
  "fat_mount P start volume_size filesystem_hint s =
    (if filesystem_hint = PART_TYPE_FAT16 then
       (case fat_mount_fat16 P start volume_size s of (rc, s1) \<Rightarrow>
          if rc = 0 then (0, s1)
          else (case fat_mount_fat32 P start volume_size s1 of (rc, s2) \<Rightarrow>
                  if rc = 0 then (0, s2) else (- 1, s2)))
     else
       (case fat_mount_fat32 P start volume_size s of (rc, s1) \<Rightarrow>
          if rc = 0 then (0, s1)
          else (case fat_mount_fat16 P start volume_size s1 of (rc, s2) \<Rightarrow>
                  if rc = 0 then (0, s2) else (- 1, s2))))"

section \<open>What a mounted volume satisfies\<close>

text \<open>
  The facts about \<open>fatfs\<close> the rest of the driver relies on: the cluster size is a power of two
  below 256, and the type, the entry width, the end marker and the root cluster belong together.
\<close>

definition wf_fat_info :: "fat_info \<Rightarrow> bool" where
  "wf_fat_info v \<longleftrightarrow>
    length (sysbuf v) = 512 \<and> cluster_size_ok (sectors_per_cluster v) \<and>
    (fs_type v = PART_TYPE_FAT16 \<and> fat_entry_len v = 2 \<and> end_cluster_marker v = 0xFFF0 \<and>
       root_cluster v = 1 \<or>
     fs_type v = PART_TYPE_FAT32 \<and> fat_entry_len v = 4 \<and> end_cluster_marker v = 0xFFFFFF0)"

lemma cluster_size_ok_pos: "cluster_size_ok c \<Longrightarrow> 0 < unat c \<and> unat c \<le> 128"
  by (auto simp: cluster_size_ok_def numeral_eq_Suc)

lemma has_false [simp]: "\<not> has m 0"
  by (simp add: has_def)

lemma sys_block_read_fs:
  "fs_type (fatfs (snd (sys_block_read P b s))) = fs_type (fatfs s)"
  by (simp add: sys_block_read_def upd_fs_def case_prod_beta)

context block_device
begin

lemma length_sysbuf_read:
  "length (sysbuf (fatfs s)) = 512 \<Longrightarrow>
    length (sysbuf (fatfs (snd (sys_block_read P b s)))) = 512"
  using read_length [of "sysbuf (fatfs s)" "dev s" b]
  by (simp add: sys_block_read_def upd_fs_def case_prod_beta)

lemma length_sysbuf_mount_read:
  "length (sysbuf (fatfs s)) = 512 \<Longrightarrow> length (sysbuf (fatfs (mount_read P b s))) = 512"
  unfolding mount_read_def by (rule length_sysbuf_read) (simp add: upd_fs_def)

lemma mount16_length:
  "length (sysbuf (fatfs s)) = 512 \<Longrightarrow>
    length (sysbuf (fatfs (snd (fat_mount_fat16 P start vol s)))) = 512"
  using length_sysbuf_mount_read [of s start]
  by (simp add: fat_mount_fat16_def Let_def upd_fs_def layout16_def finish16_def)

lemma mount32_length:
  "length (sysbuf (fatfs s)) = 512 \<Longrightarrow>
    length (sysbuf (fatfs (snd (fat_mount_fat32 P start vol s)))) = 512"
  using length_sysbuf_mount_read [of s start]
  by (simp add: fat_mount_fat32_def Let_def upd_fs_def layout32_def)

lemma mount16_wf:
  assumes "length (sysbuf (fatfs s)) = 512" and "fat_mount_fat16 P start vol s = (0, s')"
  shows "wf_fat_info (fatfs s')"
  using assms mount16_length [OF assms(1), of start vol]
  by (auto simp: fat_mount_fat16_def Let_def wf_fat_info_def upd_fs_def layout16_def finish16_def
      boot16_valid_def split: if_splits)

lemma mount32_wf:
  assumes "length (sysbuf (fatfs s)) = 512" and "fat_mount_fat32 P start vol s = (0, s')"
  shows "wf_fat_info (fatfs s')"
  using assms mount32_length [OF assms(1), of start vol]
  by (auto simp: fat_mount_fat32_def Let_def wf_fat_info_def upd_fs_def layout32_def
      boot32_valid_def split: if_splits)

lemma mount_wf:
  assumes "length (sysbuf (fatfs s)) = 512" and "fat_mount P start vol hint s = (0, s')"
  shows "wf_fat_info (fatfs s')"
proof -
  have 16: "length (sysbuf (fatfs s1)) = 512" if "fat_mount_fat16 P start vol s = (rc, s1)" for rc s1
    using mount16_length [OF assms(1), of start vol] that by simp
  have 32: "length (sysbuf (fatfs s1)) = 512" if "fat_mount_fat32 P start vol s = (rc, s1)" for rc s1
    using mount32_length [OF assms(1), of start vol] that by simp
  show ?thesis
    using assms(2) mount16_wf [OF assms(1)] mount32_wf [OF assms(1)] mount16_wf [OF 32]
      mount32_wf [OF 16]
    by (auto simp: fat_mount_def split: if_splits prod.splits)
qed

end

text \<open>
  C35: A successful mount leaves a well-formed volume description, whatever the boot sector held.
\<close>

theorem mount_establishes_wf:
  assumes "length (sysbuf (fatfs s)) = 512"
    and "fat_mount (pc_platform clk junk) start vol hint s = (0, s')"
  shows "wf_fat_info (fatfs s')"
  using assms by (rule pc.mount_wf)

text \<open>
  C36: Cluster 2, the first of the data region, starts right behind the FATs and, on FAT16, the
  fixed root directory.
\<close>

theorem data_region_start:
  "cluster_sector (finish16 b start (layout16 b start v)) 2 =
      start + ucast (b16_reserved_sectors b) +
      ucast (b16_sectors_per_fat b) * ucast (b16_num_fats b) +
      ucast (b16_root_entries b) * 32 div 512 \<and>
    cluster_sector (layout32 c start v) 2 =
      start + ucast (b32_reserved_sectors c) + b32_sectors_per_fat c * ucast (b32_num_fats c)"
  by (simp_all add: cluster_sector_def layout16_def layout32_def finish16_def Let_def algebra_simps)

end
