(* ===== verification/Fat_Alloc.thy ===== *)
theory Fat_Alloc
  imports Fat_Mount
begin

text \<open>
  Cluster allocation: \<open>fat_get_free_cluster\<close> and \<open>fat_free_clusters\<close>, which work on the FAT
  through \<open>fatfs.sysbuf\<close>. The abstract view of the FAT is the function from cluster numbers to
  entries (\<open>fat_cell\<close>); the theorems give both routines as updates of that function: allocation
  takes the first free cluster and marks it as the end of a chain, freeing clears exactly the
  clusters of a chain.
\<close>

section \<open>Model\<close>

abbreviation (input) MAX_BLOCK :: blockno where "MAX_BLOCK \<equiv> 0xFFFFFFFF"

text \<open>The blocks \<open>for (i = active_fat_start; i < active_fat_start + sectors_per_fat; i++)\<close> visits.\<close>

definition fat_sectors :: "fat_info \<Rightarrow> blockno list" where
  "fat_sectors v =
    map of_nat [unat (active_fat_start v)..<unat (active_fat_start v + sectors_per_fat v)]"

text \<open>The loop over the entries of a block: the index of the first entry that is 0.\<close>

definition entries_per_block :: "fat_info \<Rightarrow> nat" where
  "entries_per_block v = 512 div unat (fat_entry_len v)"

definition free_entry :: "fat_info \<Rightarrow> nat option" where
  "free_entry v =
    find (\<lambda>j. fat_entry_at (fs_type v) (sysbuf v) (j * unat (fat_entry_len v)) = 0)
      [0..<entries_per_block v]"

text \<open>The end-of-chain mark the code stores.\<close>

definition end_mark :: "byte \<Rightarrow> byte list" where
  "end_mark type = (if type = PART_TYPE_FAT16 then [0xF8, 0xFF] else [0xF8, 0xFF, 0xFF, 0x0F])"

fun gfc_scan :: "'d platform \<Rightarrow> blockno list \<Rightarrow> 'd gstate \<Rightarrow> u32 \<times> 'd gstate" where
  "gfc_scan P [] s = (0, s)"
| "gfc_scan P (i # is) s =
    (case sys_block_read P i s of (rc, s1) \<Rightarrow>
       if rc \<noteq> 0 then (0xFFFFFFFF, s1)
       else
         (case free_entry (fatfs s1) of
            None \<Rightarrow> gfc_scan P is s1
          | Some j \<Rightarrow>
              let v = fatfs s1;
                  s2 = upd_fs (\<lambda>v. v\<lparr>sysbuf :=
                    splice (sysbuf v) (j * unat (fat_entry_len v)) (end_mark (fs_type v))\<rparr>) s1 in
              (case sys_block_write P i s2 of (rc', s3) \<Rightarrow>
                 if rc' \<noteq> 0 then (0xFFFFFFFF, s3)
                 else ((i - active_fat_start v) * of_nat (entries_per_block v) + of_nat j, s3))))"

definition fat_get_free_cluster :: "'d platform \<Rightarrow> 'd gstate \<Rightarrow> u32 \<times> 'd gstate" where
  "fat_get_free_cluster P s = gfc_scan P (fat_sectors (fatfs s)) s"

text \<open>
  \<open>fat_free_clusters\<close>: the change to another block of the FAT, the step that clears an entry,
  and the loop. \<open>current_block\<close> is \<open>MAX_BLOCK\<close> before the first iteration.
\<close>

definition fc_switch :: "'d platform \<Rightarrow> blockno \<Rightarrow> blockno \<Rightarrow> 'd gstate \<Rightarrow> int \<times> 'd gstate" where
  "fc_switch P b current_block s =
    (if b \<noteq> current_block then
       let s1 = (if current_block \<noteq> MAX_BLOCK then snd (sys_block_write P current_block s) else s)
       in sys_block_read P b s1
     else (0, s))"

definition fc_clear :: "u32 \<Rightarrow> 'd gstate \<Rightarrow> 'd gstate" where
  "fc_clear cluster s =
    upd_fs (\<lambda>v. v\<lparr>sysbuf := splice (sysbuf v) (fat_offset v cluster)
      (replicate (if fs_type v = PART_TYPE_FAT32 then 4 else 2) 0)\<rparr>) s"

partial_function (option) fc_loop ::
  "'d platform \<Rightarrow> u32 \<Rightarrow> blockno \<Rightarrow> 'd gstate \<Rightarrow> (int \<times> 'd gstate) option" where
  "fc_loop P cluster current_block s =
    (let b = fat_block (fatfs s) cluster in
     (case fc_switch P b current_block s of (rc, s1) \<Rightarrow>
        if rc \<noteq> 0 then Some (- 1, s1)
        else
          let v = fatfs s1;
              j = fat_entry_at (fs_type v) (sysbuf v) (fat_offset v cluster);
              s2 = fc_clear cluster s1 in
          if j \<ge> end_cluster_marker v then Some (0, snd (sys_block_write P b s2))
          else fc_loop P j b s2))"

definition fat_free_clusters :: "'d platform \<Rightarrow> u32 \<Rightarrow> 'd gstate \<Rightarrow> (int \<times> 'd gstate) option" where
  "fat_free_clusters P cluster s = fc_loop P cluster MAX_BLOCK s"

section \<open>The FAT as a function\<close>

text \<open>
  Cluster \<open>c\<close> (a natural number below \<open>fat_clusters v\<close>) has its entry in block \<open>c div epb\<close> of the
  FAT. \<open>regular_fat v\<close> says that the FAT's blocks and the byte offsets of its entries can be
  computed without wrapping around.
\<close>

definition fat_clusters :: "fat_info \<Rightarrow> nat" where
  "fat_clusters v = unat (sectors_per_fat v) * entries_per_block v"

definition regular_fat :: "fat_info \<Rightarrow> bool" where
  "regular_fat v \<longleftrightarrow> wf_fat_info v \<and>
    unat (active_fat_start v) + unat (sectors_per_fat v) < 2 ^ 32 - 1 \<and>
    unat (sectors_per_fat v) < 2 ^ 23"

definition cell_block :: "fat_info \<Rightarrow> nat \<Rightarrow> blockno" where
  "cell_block v c = active_fat_start v + of_nat (c div entries_per_block v)"

definition cell_offset :: "fat_info \<Rightarrow> nat \<Rightarrow> nat" where
  "cell_offset v c = (c mod entries_per_block v) * unat (fat_entry_len v)"

definition fat_cell :: "fat_info \<Rightarrow> (blockno \<Rightarrow> sector) \<Rightarrow> nat \<Rightarrow> u32" where
  "fat_cell v blocks c = fat_entry_at (fs_type v) (blocks (cell_block v c)) (cell_offset v c)"

lemma wf_entry_len:
  "wf_fat_info v \<Longrightarrow>
    fs_type v = PART_TYPE_FAT16 \<and> fat_entry_len v = 2 \<and> entries_per_block v = 256 \<or>
    fs_type v = PART_TYPE_FAT32 \<and> fat_entry_len v = 4 \<and> entries_per_block v = 128"
  by (auto simp: wf_fat_info_def entries_per_block_def)

lemma cell_offset_bound:
  assumes "wf_fat_info v"
  shows "cell_offset v c + unat (fat_entry_len v) \<le> 512"
proof -
  have "c mod 256 < 256" "c mod 128 < 128" by simp_all
  with wf_entry_len [OF assms] show ?thesis
    by (auto simp: cell_offset_def)
qed

lemma word_block_split:
  assumes "n < 2 ^ 32"
  shows "unat ((of_nat n :: u32) div 512) = n div 512" and "unat ((of_nat n :: u32) AND 0x1FF) = n mod 512"
proof -
  have n: "unat (of_nat n :: u32) = n"
    using assms by (simp add: unat_of_nat take_bit_nat_eq_self)
  show "unat ((of_nat n :: u32) div 512) = n div 512"
    by (simp add: unat_div n)
  have "(0x1FF :: u32) = mask 9" by (simp add: mask_eq_exp_minus_1)
  then have "(of_nat n :: u32) AND 0x1FF = take_bit 9 (of_nat n)" by (simp add: take_bit_eq_mask)
  then have "(of_nat n :: u32) AND 0x1FF = of_nat n mod 512" by (simp add: take_bit_eq_mod)
  then show "unat ((of_nat n :: u32) AND 0x1FF) = n mod 512"
    using assms by (simp add: unat_mod unat_of_nat take_bit_nat_eq_self)
qed

lemma entry_position:
  assumes "wf_fat_info v"
  shows "of_nat c * ucast (fat_entry_len v) = (of_nat (c * unat (fat_entry_len v)) :: u32)"
    and "c * unat (fat_entry_len v) div 512 = c div entries_per_block v"
    and "c * unat (fat_entry_len v) mod 512 = (c mod entries_per_block v) * unat (fat_entry_len v)"
proof -
  have arith: "c * 2 div 512 = c div 256" "c * 4 div 512 = c div 128"
      "c * 2 mod 512 = (c mod 256) * 2" "c * 4 mod 512 = (c mod 128) * 4"
    using div_mult_mult2 [of 2 c 256] div_mult_mult2 [of 4 c 128]
      mod_mult_mult2 [of c 2 256] mod_mult_mult2 [of c 4 128] by simp_all
  show "of_nat c * ucast (fat_entry_len v) = (of_nat (c * unat (fat_entry_len v)) :: u32)"
    "c * unat (fat_entry_len v) div 512 = c div entries_per_block v"
    "c * unat (fat_entry_len v) mod 512 = (c mod entries_per_block v) * unat (fat_entry_len v)"
    using wf_entry_len [OF assms] arith by auto
qed

lemma word_unat_rep_inverse: "unat (w :: 'a::len word) = n \<Longrightarrow> w = of_nat n"
  by auto

lemma fat_clusters_bound:
  assumes "regular_fat v" and "c < fat_clusters v"
  shows "c * unat (fat_entry_len v) < 2 ^ 32" and "c div entries_per_block v < unat (sectors_per_fat v)"
  using assms wf_entry_len [of v]
  by (auto simp: regular_fat_def fat_clusters_def less_mult_imp_div_less)

lemma fat_block_of_nat:
  assumes "regular_fat v" and "c < fat_clusters v"
  shows "fat_block v (of_nat c) = cell_block v c" and "fat_offset v (of_nat c) = cell_offset v c"
proof -
  have wf: "wf_fat_info v" using assms(1) by (simp add: regular_fat_def)
  note pos = entry_position [OF wf, of c] and split = word_block_split [OF fat_clusters_bound(1) [OF assms]]
  have "unat (of_nat (c * unat (fat_entry_len v)) div 512 :: u32) = c div entries_per_block v"
    using split(1) pos(2) by simp
  then have "(of_nat (c * unat (fat_entry_len v)) :: u32) div 512 = of_nat (c div entries_per_block v)"
    by (metis word_unat_rep_inverse)
  then show "fat_block v (of_nat c) = cell_block v c"
    unfolding fat_block_def cell_block_def pos(1) by simp
  show "fat_offset v (of_nat c) = cell_offset v c"
    unfolding fat_offset_def cell_offset_def pos(1) split(2) pos(3) by (rule refl)
qed

section \<open>Entries in a buffer\<close>

lemma get16_splice:
  assumes "off + length bs \<le> length buf" and "length bs = 2" and "off' + 2 \<le> length buf"
    and "off' = off \<or> off' + 2 \<le> off \<or> off + 2 \<le> off'"
  shows "get16 (splice buf off bs) off' = (if off' = off then le16 (bs ! 0) (bs ! 1) else get16 buf off')"
  using assms by (auto simp: get16_def nth_splice)

lemma get32_splice:
  assumes "off + length bs \<le> length buf" and "length bs = 4" and "off' + 4 \<le> length buf"
    and "off' = off \<or> off' + 4 \<le> off \<or> off + 4 \<le> off'"
  shows "get32 (splice buf off bs) off' =
    (if off' = off then le32 (bs ! 0) (bs ! 1) (bs ! 2) (bs ! 3) else get32 buf off')"
  using assms by (auto simp: get32_def nth_splice)

text \<open>The number an entry reads as when these bytes are stored in it.\<close>

definition entry_value :: "byte \<Rightarrow> byte list \<Rightarrow> u32" where
  "entry_value type bs =
    (if type = PART_TYPE_FAT32 then le32 (bs ! 0) (bs ! 1) (bs ! 2) (bs ! 3)
     else ucast (le16 (bs ! 0) (bs ! 1)))"

lemma end_mark_value:
  "entry_value PART_TYPE_FAT16 (end_mark PART_TYPE_FAT16) = 0xFFF8"
  "entry_value PART_TYPE_FAT32 (end_mark PART_TYPE_FAT32) = 0x0FFFFFF8"
  by (simp_all add: entry_value_def end_mark_def le16_def le32_def)

lemma zero_value: "entry_value PART_TYPE_FAT16 (replicate 2 0) = 0"
  "entry_value PART_TYPE_FAT32 (replicate 4 0) = 0"
proof -
  have r: "replicate 2 (0 :: byte) = [0, 0]" "replicate 4 (0 :: byte) = [0, 0, 0, 0]"
    by (simp_all add: numeral_eq_Suc)
  show "entry_value PART_TYPE_FAT16 (replicate 2 0) = 0" "entry_value PART_TYPE_FAT32 (replicate 4 0) = 0"
    unfolding r by (simp_all add: entry_value_def le16_def le32_def)
qed

lemma cell_offset_disjoint:
  assumes "wf_fat_info v" and "cell_offset v c \<noteq> cell_offset v c'"
  shows "cell_offset v c + unat (fat_entry_len v) \<le> cell_offset v c' \<or>
    cell_offset v c' + unat (fat_entry_len v) \<le> cell_offset v c"
  using wf_entry_len [OF assms(1)] assms(2) by (auto simp: cell_offset_def)

lemma fat_entry_at_splice:
  assumes wf: "wf_fat_info v" and "length buf = 512" and "length bs = unat (fat_entry_len v)"
  shows "fat_entry_at (fs_type v) (splice buf (cell_offset v c) bs) (cell_offset v c') =
    (if cell_offset v c' = cell_offset v c then entry_value (fs_type v) bs
     else fat_entry_at (fs_type v) buf (cell_offset v c'))"
proof -
  note b = cell_offset_bound [OF wf, of c] cell_offset_bound [OF wf, of c']
  note d = cell_offset_disjoint [OF wf, of c' c]
  from wf_entry_len [OF wf] show ?thesis
  proof (elim disjE conjE)
    assume t: "fs_type v = PART_TYPE_FAT16" "fat_entry_len v = 2"
    have "get16 (splice buf (cell_offset v c) bs) (cell_offset v c') =
      (if cell_offset v c' = cell_offset v c then le16 (bs ! 0) (bs ! 1)
       else get16 buf (cell_offset v c'))"
      by (rule get16_splice) (use assms(2,3) b d t in auto)
    with t show ?thesis by (simp add: fat_entry_at_def entry_value_def)
  next
    assume t: "fs_type v = PART_TYPE_FAT32" "fat_entry_len v = 4"
    have "get32 (splice buf (cell_offset v c) bs) (cell_offset v c') =
      (if cell_offset v c' = cell_offset v c then le32 (bs ! 0) (bs ! 1) (bs ! 2) (bs ! 3)
       else get32 buf (cell_offset v c'))"
      by (rule get32_splice) (use assms(2,3) b d t in auto)
    with t show ?thesis by (simp add: fat_entry_at_def entry_value_def)
  qed
qed

section \<open>Positions of clusters\<close>

lemma cell_block_nat:
  assumes "regular_fat v" and "c < fat_clusters v"
  shows "unat (cell_block v c) = unat (active_fat_start v) + c div entries_per_block v"
proof -
  have k: "c div entries_per_block v < unat (sectors_per_fat v)"
    using fat_clusters_bound(2) [OF assms] .
  have bound: "unat (active_fat_start v) + unat (sectors_per_fat v) < 2 ^ 32 - 1"
    using assms(1) by (simp add: regular_fat_def)
  have "unat (of_nat (c div entries_per_block v) :: u32) = c div entries_per_block v"
    using k bound by (simp add: unat_of_nat take_bit_nat_eq_self)
  then show ?thesis
    using k bound by (simp add: cell_block_def unat_word_ariths)
qed

lemma cell_block_not_max:
  assumes "regular_fat v" and "c < fat_clusters v"
  shows "cell_block v c \<noteq> MAX_BLOCK"
  using cell_block_nat [OF assms] fat_clusters_bound(2) [OF assms] assms(1)
  by (auto simp: regular_fat_def)

lemma cell_position_inj:
  assumes "regular_fat v" and "c < fat_clusters v" and "c' < fat_clusters v"
    and "cell_block v c = cell_block v c'" and "cell_offset v c = cell_offset v c'"
  shows "c = c'"
proof -
  have wf: "wf_fat_info v" using assms(1) by (simp add: regular_fat_def)
  have "c div entries_per_block v = c' div entries_per_block v"
    using cell_block_nat [OF assms(1,2)] cell_block_nat [OF assms(1,3)] assms(4) by simp
  moreover have "c mod entries_per_block v = c' mod entries_per_block v"
    using assms(5) wf_entry_len [OF wf] by (auto simp: cell_offset_def)
  ultimately show ?thesis by (metis div_mult_mod_eq)
qed

lemma volume_sysbuf [simp]:
  "wf_fat_info (v\<lparr>sysbuf := b\<rparr>) \<longleftrightarrow> wf_fat_info v" if "length b = 512" "length (sysbuf v) = 512"
  for b
  using that by (simp add: wf_fat_info_def)

lemma position_sysbuf [simp]:
  "cell_block (v\<lparr>sysbuf := b\<rparr>) c = cell_block v c"
  "cell_offset (v\<lparr>sysbuf := b\<rparr>) c = cell_offset v c"
  "entries_per_block (v\<lparr>sysbuf := b\<rparr>) = entries_per_block v"
  "fat_cell (v\<lparr>sysbuf := b\<rparr>) bl c = fat_cell v bl c"
  "fat_clusters (v\<lparr>sysbuf := b\<rparr>) = fat_clusters v"
  "fat_block (v\<lparr>sysbuf := b\<rparr>) x = fat_block v x"
  "fat_offset (v\<lparr>sysbuf := b\<rparr>) x = fat_offset v x"
  by (simp_all add: cell_block_def cell_offset_def entries_per_block_def fat_cell_def
      fat_clusters_def fat_block_def fat_offset_def)

text \<open>Storing bytes into the entry of one cluster changes this cell only.\<close>

lemma fat_cell_update:
  assumes reg: "regular_fat v" and c: "c < fat_clusters v" "c' < fat_clusters v"
    and "length (blocks (cell_block v c)) = 512" and "length bs = unat (fat_entry_len v)"
  shows "fat_cell v (blocks(cell_block v c :=
      splice (blocks (cell_block v c)) (cell_offset v c) bs)) c' =
    (if c' = c then entry_value (fs_type v) bs else fat_cell v blocks c')"
proof -
  have wf: "wf_fat_info v" using reg by (simp add: regular_fat_def)
  show ?thesis
    using fat_entry_at_splice [OF wf assms(4,5)] cell_position_inj [OF reg c(2,1)]
    by (auto simp: fat_cell_def)
qed

section \<open>Blocks through the system buffer\<close>

context block_device
begin

lemma sys_read_ok:
  "ok (dev s) b \<Longrightarrow>
    sys_block_read P b s = (0, upd_fs (\<lambda>v. v\<lparr>sysbuf := view (dev s) b\<rparr>) s)"
  by (simp add: sys_block_read_def upd_fs_def)

lemma sys_write_ok:
  "ok (dev s) b \<Longrightarrow> length (sysbuf (fatfs s)) = 512 \<Longrightarrow>
    sys_block_write P b s = (0, s\<lparr>dev := fst (blk_write P (dev s) b (sysbuf (fatfs s)))\<rparr>)"
  using write_rc [of "dev s" b "sysbuf (fatfs s)"]
  by (simp add: sys_block_write_def case_prod_beta)

lemma gfc_scan_full:
  assumes "\<forall>b\<in>set bs. ok (dev s) b \<and> free_entry (fatfs s\<lparr>sysbuf := view (dev s) b\<rparr>) = None"
    and "length (sysbuf (fatfs s)) = 512"
  shows "\<exists>x. length x = 512 \<and> gfc_scan P (bs @ cs) s = gfc_scan P cs (upd_fs (\<lambda>v. v\<lparr>sysbuf := x\<rparr>) s)"
  using assms
proof (induction bs arbitrary: s)
  case Nil
  then show ?case by (intro exI [of _ "sysbuf (fatfs s)"]) (simp add: upd_fs_def)
next
  case (Cons b bs)
  let ?s1 = "upd_fs (\<lambda>v. v\<lparr>sysbuf := view (dev s) b\<rparr>) s"
  have "gfc_scan P ((b # bs) @ cs) s = gfc_scan P (bs @ cs) ?s1"
    using Cons.prems by (simp add: sys_read_ok)
  moreover obtain x where "length x = 512"
    "gfc_scan P (bs @ cs) ?s1 = gfc_scan P cs (upd_fs (\<lambda>v. v\<lparr>sysbuf := x\<rparr>) ?s1)"
    using Cons.IH [of ?s1] Cons.prems by (auto simp: upd_fs_def)
  ultimately show ?case by (auto simp: upd_fs_def)
qed

lemma gfc_scan_hit:
  assumes "ok (dev s) b" and j: "free_entry (fatfs s\<lparr>sysbuf := view (dev s) b\<rparr>) = Some j"
    and "j * unat (fat_entry_len (fatfs s)) + length (end_mark (fs_type (fatfs s))) \<le> 512"
  defines "x \<equiv> splice (view (dev s) b) (j * unat (fat_entry_len (fatfs s)))
      (end_mark (fs_type (fatfs s)))"
  shows "gfc_scan P (b # bs) s =
    ((b - active_fat_start (fatfs s)) * of_nat (entries_per_block (fatfs s)) + of_nat j,
     upd_fs (\<lambda>v. v\<lparr>sysbuf := x\<rparr>) s
       \<lparr>dev := fst (blk_write P (dev s) b x)\<rparr>)"
proof -
  let ?s2 = "upd_fs (\<lambda>v. v\<lparr>sysbuf := x\<rparr>) s"
  have "length x = 512" using assms(3) by (simp add: x_def)
  then have w: "sys_block_write P b ?s2 = (0, ?s2\<lparr>dev := fst (blk_write P (dev s) b x)\<rparr>)"
    using sys_write_ok [of ?s2 b] assms(1) by (simp add: upd_fs_def)
  show ?thesis
    using assms(1) j w by (simp add: sys_read_ok upd_fs_def x_def)
qed

end

section \<open>Allocation\<close>

lemma fat_sectors_regular:
  assumes "regular_fat v"
  shows "fat_sectors v = map (\<lambda>k. active_fat_start v + of_nat k) [0..<unat (sectors_per_fat v)]"
proof -
  have "unat (active_fat_start v + sectors_per_fat v) =
      unat (active_fat_start v) + unat (sectors_per_fat v)"
    using assms by (simp add: regular_fat_def unat_word_ariths)
  then show ?thesis
    by (auto simp: fat_sectors_def intro!: nth_equalityI)
qed

lemma cell_of_index:
  "j < entries_per_block v \<Longrightarrow>
    fat_cell v blocks (k * entries_per_block v + j) =
      fat_entry_at (fs_type v) (blocks (active_fat_start v + of_nat k)) (j * unat (fat_entry_len v))"
  by (simp add: fat_cell_def cell_block_def cell_offset_def)

lemma free_entry_sysbuf:
  "free_entry (v\<lparr>sysbuf := b\<rparr>) =
    find (\<lambda>j. fat_entry_at (fs_type v) b (j * unat (fat_entry_len v)) = 0) [0..<entries_per_block v]"
  by (simp add: free_entry_def)

lemma find_upt_Some:
  "j < n \<Longrightarrow> Q j \<Longrightarrow> \<forall>i<j. \<not> Q i \<Longrightarrow> find Q [0..<n] = Some j"
  by (auto simp: find_Some_iff)

lemma find_upt_None: "\<forall>i<n. \<not> Q i \<Longrightarrow> find Q [0..<n] = None"
  by (auto simp: find_None_iff)

lemma length_end_mark: "wf_fat_info v \<Longrightarrow> length (end_mark (fs_type v)) = unat (fat_entry_len v)"
  using wf_entry_len [of v] by (auto simp: end_mark_def)

text \<open>All blocks of the FAT exist.\<close>

definition fat_present :: "('d \<Rightarrow> blockno \<Rightarrow> bool) \<Rightarrow> 'd \<Rightarrow> fat_info \<Rightarrow> bool" where
  "fat_present ok d v \<longleftrightarrow>
    (\<forall>k<unat (sectors_per_fat v). ok d (active_fat_start v + of_nat k))"

lemma fat_present_cell:
  "fat_present ok d v \<Longrightarrow> regular_fat v \<Longrightarrow> c < fat_clusters v \<Longrightarrow> ok d (cell_block v c)"
  using fat_clusters_bound(2) [of v c] by (simp add: fat_present_def cell_block_def)

lemma fat_cell_cong:
  "blocks (cell_block v c) = blocks' (cell_block v c) \<Longrightarrow> fat_cell v blocks c = fat_cell v blocks' c"
  by (simp add: fat_cell_def)

lemma free_entry_none:
  assumes "\<forall>c. k * entries_per_block v \<le> c \<and> c < Suc k * entries_per_block v \<longrightarrow> fat_cell v blocks c \<noteq> 0"
  shows "free_entry (v\<lparr>sysbuf := blocks (active_fat_start v + of_nat k)\<rparr>) = None"
  unfolding free_entry_sysbuf
  by (intro find_upt_None) (use assms in \<open>simp flip: cell_of_index\<close>)

lemma free_entry_first:
  assumes "0 < entries_per_block v" and "fat_cell v blocks n = 0" and "\<forall>c<n. fat_cell v blocks c \<noteq> 0"
  shows "free_entry (v\<lparr>sysbuf := blocks (cell_block v n)\<rparr>) = Some (n mod entries_per_block v)"
  unfolding free_entry_sysbuf
proof (rule find_upt_Some)
  let ?e = "entries_per_block v"
  have cell: "fat_entry_at (fs_type v) (blocks (cell_block v n)) (j * unat (fat_entry_len v)) =
      fat_cell v blocks (n div ?e * ?e + j)" if "j < ?e" for j
    using cell_of_index [OF that, of blocks "n div ?e"] by (simp add: cell_block_def)
  show j: "n mod ?e < ?e" using assms(1) by simp
  show "fat_entry_at (fs_type v) (blocks (cell_block v n)) (n mod ?e * unat (fat_entry_len v)) = 0"
    unfolding cell [OF j] using assms(2) by simp
  have "n div ?e * ?e + i < n" if "i < n mod ?e" for i
    using that by (metis add_less_cancel_left div_mult_mod_eq)
  then show "\<forall>i<n mod ?e. fat_entry_at (fs_type v) (blocks (cell_block v n)) (i * unat (fat_entry_len v)) \<noteq> 0"
    using cell assms(3) j by (metis order.strict_trans)
qed

lemma upt_split: "k < n \<Longrightarrow> [0..<n] = [0..<k] @ k # [Suc k..<n]"
  using upt_add_eq_append [of 0 k "n - k"] upt_conv_Cons [of k n] by simp

context block_device
begin

lemma fat_cell_write:
  assumes "regular_fat v" and "fat_present ok d v" and "c < fat_clusters v" "c' < fat_clusters v"
    and "length bs = unat (fat_entry_len v)"
  shows "fat_cell v (view (fst (blk_write P d (cell_block v c)
      (splice (view d (cell_block v c)) (cell_offset v c) bs)))) c' =
    (if c' = c then entry_value (fs_type v) bs else fat_cell v (view d) c')"
proof -
  let ?b = "cell_block v c" and ?x = "splice (view d (cell_block v c)) (cell_offset v c) bs"
  have wf: "wf_fat_info v" using assms(1) by (simp add: regular_fat_def)
  have x: "length ?x = 512" using cell_offset_bound [OF wf, of c] assms(5) by simp
  have "view (fst (blk_write P d ?b ?x)) (cell_block v c') = ((view d)(?b := ?x)) (cell_block v c')"
    using write_view [OF fat_present_cell [OF assms(2,1,3)] x fat_present_cell [OF assms(2,1,4)]]
    by simp
  then have "fat_cell v (view (fst (blk_write P d ?b ?x))) c' = fat_cell v ((view d)(?b := ?x)) c'"
    by (rule fat_cell_cong)
  then show ?thesis
    using fat_cell_update [of v c c' "view d" bs] assms by simp
qed

lemma get_free_cluster_full:
  assumes reg: "regular_fat (fatfs s)" and present: "fat_present ok (dev s) (fatfs s)"
    and full: "\<forall>c<fat_clusters (fatfs s). fat_cell (fatfs s) (view (dev s)) c \<noteq> 0"
  shows "\<exists>x. length x = 512 \<and> fat_get_free_cluster P s = (0, upd_fs (\<lambda>v. v\<lparr>sysbuf := x\<rparr>) s)"
proof -
  let ?v = "fatfs s"
  have len: "length (sysbuf ?v) = 512" using reg by (simp add: regular_fat_def wf_fat_info_def)
  have "free_entry (?v\<lparr>sysbuf := view (dev s) (active_fat_start ?v + of_nat k)\<rparr>) = None"
    if k: "k < unat (sectors_per_fat ?v)" for k
  proof -
    have "Suc k * entries_per_block ?v \<le> fat_clusters ?v"
      unfolding fat_clusters_def using k by (intro mult_le_mono1) simp
    then show ?thesis using full by (intro free_entry_none) auto
  qed
  then have "\<forall>b\<in>set (fat_sectors ?v). ok (dev s) b \<and> free_entry (?v\<lparr>sysbuf := view (dev s) b\<rparr>) = None"
    using present by (auto simp: fat_sectors_regular [OF reg] fat_present_def)
  from gfc_scan_full [OF this len, of "[]"] show ?thesis
    by (simp add: fat_get_free_cluster_def)
qed

lemma get_free_cluster_first:
  assumes reg: "regular_fat (fatfs s)" and present: "fat_present ok (dev s) (fatfs s)"
    and n: "n < fat_clusters (fatfs s)" "fat_cell (fatfs s) (view (dev s)) n = 0"
    and least: "\<forall>c<n. fat_cell (fatfs s) (view (dev s)) c \<noteq> 0"
  defines "y \<equiv> splice (view (dev s) (cell_block (fatfs s) n)) (cell_offset (fatfs s) n)
      (end_mark (fs_type (fatfs s)))"
  shows "fat_get_free_cluster P s =
    (of_nat n, upd_fs (\<lambda>v. v\<lparr>sysbuf := y\<rparr>) s
       \<lparr>dev := fst (blk_write P (dev s) (cell_block (fatfs s) n) y)\<rparr>)"
proof -
  let ?v = "fatfs s" and ?a = "active_fat_start (fatfs s)" and ?e = "entries_per_block (fatfs s)"
  let ?k = "n div ?e" and ?spf = "unat (sectors_per_fat (fatfs s))"
  have wf: "wf_fat_info ?v" using reg by (simp add: regular_fat_def)
  have len: "length (sysbuf ?v) = 512" using wf by (simp add: wf_fat_info_def)
  have e: "0 < ?e" using wf_entry_len [OF wf] by auto
  have k: "?k < ?spf" using fat_clusters_bound(2) [OF reg n(1)] .
  let ?pre = "map (\<lambda>k. ?a + of_nat k) [0..<?k]" and ?post = "map (\<lambda>k. ?a + of_nat k) [Suc ?k..<?spf]"
  have "free_entry (?v\<lparr>sysbuf := view (dev s) (?a + of_nat i)\<rparr>) = None" if i: "i < ?k" for i
  proof -
    have "Suc i * ?e \<le> ?k * ?e" using i by (intro mult_le_mono1) simp
    then have "Suc i * ?e \<le> n" by (rule order_trans) simp
    then show ?thesis using least by (intro free_entry_none) auto
  qed
  then have before: "\<forall>b\<in>set ?pre. ok (dev s) b \<and> free_entry (?v\<lparr>sysbuf := view (dev s) b\<rparr>) = None"
    using present k by (auto simp: fat_present_def)
  have "fat_sectors ?v = ?pre @ cell_block ?v n # ?post"
    using upt_split [OF k] by (simp add: fat_sectors_regular [OF reg] cell_block_def)
  then obtain x where x: "fat_get_free_cluster P s =
      gfc_scan P (cell_block ?v n # ?post) (upd_fs (\<lambda>v. v\<lparr>sysbuf := x\<rparr>) s)"
    using gfc_scan_full [OF before len, of "cell_block ?v n # ?post"]
    by (auto simp: fat_get_free_cluster_def)
  let ?s1 = "upd_fs (\<lambda>v. v\<lparr>sysbuf := x\<rparr>) s"
  have s1: "dev ?s1 = dev s" "fatfs ?s1 = ?v\<lparr>sysbuf := x\<rparr>" by (simp_all add: upd_fs_def)
  have bound: "(n mod ?e) * unat (fat_entry_len ?v) + length (end_mark (fs_type ?v)) \<le> 512"
    using cell_offset_bound [OF wf, of n] length_end_mark [OF wf] by (simp add: cell_offset_def)
  have "(of_nat ?k * of_nat ?e + of_nat (n mod ?e) :: u32) = of_nat n"
    by (metis div_mult_mod_eq of_nat_add of_nat_mult)
  then have number: "(cell_block ?v n - ?a) * of_nat ?e + of_nat (n mod ?e) = (of_nat n :: u32)"
    by (simp add: cell_block_def)
  show ?thesis
    using gfc_scan_hit [of ?s1 "cell_block ?v n" "n mod ?e" ?post] number bound
      free_entry_first [OF e n(2) least] fat_present_cell [OF present reg n(1)]
    unfolding x y_def cell_offset_def s1 by (simp add: upd_fs_def)
qed

end

section \<open>Freeing a chain\<close>

text \<open>The clusters of a chain in the FAT, from the first to the one that carries an end mark.\<close>

fun fat_chain :: "fat_info \<Rightarrow> (nat \<Rightarrow> u32) \<Rightarrow> nat list \<Rightarrow> bool" where
  "fat_chain v cell [] \<longleftrightarrow> False"
| "fat_chain v cell [c] \<longleftrightarrow> c < fat_clusters v \<and> end_cluster_marker v \<le> cell c"
| "fat_chain v cell (c # d # cs) \<longleftrightarrow>
    c < fat_clusters v \<and> cell c = of_nat d \<and> cell c < end_cluster_marker v \<and>
    fat_chain v cell (d # cs)"

lemma fat_chain_bound: "fat_chain v cell cs \<Longrightarrow> c \<in> set cs \<Longrightarrow> c < fat_clusters v"
  by (induction v cell cs rule: fat_chain.induct) auto

lemma fat_chain_cong:
  "fat_chain v cell cs \<Longrightarrow> \<forall>c\<in>set cs. cell' c = cell c \<Longrightarrow> fat_chain v cell' cs"
  by (induction v cell cs rule: fat_chain.induct) auto

lemma fat_chain_volume:
  "fat_clusters v' = fat_clusters v \<Longrightarrow> end_cluster_marker v' = end_cluster_marker v \<Longrightarrow>
    fat_chain v' cell cs = fat_chain v cell cs"
  by (induction v cell cs rule: fat_chain.induct) auto

text \<open>
  What a routine that works on the FAT keeps: open files, the clock, the description of the
  volume, and every block outside the FAT.
\<close>

definition only_fat_changed ::
  "('d \<Rightarrow> blockno \<Rightarrow> bool) \<Rightarrow> ('d \<Rightarrow> blockno \<Rightarrow> sector) \<Rightarrow> fat_info \<Rightarrow> 'd gstate \<Rightarrow> 'd gstate \<Rightarrow> bool"
where
  "only_fat_changed ok view v s s' \<longleftrightarrow>
    file_num s' = file_num s \<and> ticks s' = ticks s \<and>
    length (sysbuf (fatfs s')) = 512 \<and> fatfs s' = fatfs s\<lparr>sysbuf := sysbuf (fatfs s')\<rparr> \<and>
    (\<forall>b. ok (dev s') b = ok (dev s) b) \<and>
    (\<forall>b. ok (dev s) b \<longrightarrow> (\<forall>c<fat_clusters v. b \<noteq> cell_block v c) \<longrightarrow>
       view (dev s') b = view (dev s) b)"

lemma sysbuf_twice: "v' = v\<lparr>sysbuf := a\<rparr> \<Longrightarrow> v'' = v'\<lparr>sysbuf := b\<rparr> \<Longrightarrow> v'' = v\<lparr>sysbuf := b\<rparr>"
  by simp

text \<open>
  The FAT as the loop of \<open>fat_free_clusters\<close> sees it: the block in \<open>sysbuf\<close> is newer than the
  device.
\<close>

context block_device
begin

definition overlay :: "'d gstate \<Rightarrow> blockno \<Rightarrow> blockno \<Rightarrow> sector" where
  "overlay s cur b = (if b = cur then sysbuf (fatfs s) else view (dev s) b)"

lemma only_fat_trans: "only_fat_changed ok view v s s' \<Longrightarrow> only_fat_changed ok view v s' s'' \<Longrightarrow> only_fat_changed ok view v s s''"
  by (auto simp: only_fat_changed_def intro: sysbuf_twice)

definition fc_current :: "fat_info \<Rightarrow> blockno \<Rightarrow> bool" where
  "fc_current v cur \<longleftrightarrow> cur = MAX_BLOCK \<or> (\<exists>c<fat_clusters v. cur = cell_block v c)"

lemma fc_switch_ok:
  assumes reg: "regular_fat (fatfs s)" and present: "fat_present ok (dev s) (fatfs s)"
    and c: "c < fat_clusters (fatfs s)" and cur: "fc_current (fatfs s) cur"
  shows "\<exists>s1. fc_switch P (cell_block (fatfs s) c) cur s = (0, s1) \<and> only_fat_changed ok view (fatfs s) s s1 \<and>
    (\<forall>c'<fat_clusters (fatfs s). overlay s1 (cell_block (fatfs s) c) (cell_block (fatfs s) c') =
       overlay s cur (cell_block (fatfs s) c'))"
proof -
  let ?v = "fatfs s" and ?b = "cell_block (fatfs s) c"
  have len: "length (sysbuf ?v) = 512" using reg by (simp add: regular_fat_def wf_fat_info_def)
  have okb: "ok (dev s) (cell_block ?v c')" if "c' < fat_clusters ?v" for c'
    using fat_present_cell [OF present reg that] .
  consider "?b = cur" | "?b \<noteq> cur" "cur = MAX_BLOCK" | "?b \<noteq> cur" "cur \<noteq> MAX_BLOCK" by blast
  then show ?thesis
  proof cases
    case 1
    then show ?thesis
      using len by (auto simp: fc_switch_def only_fat_changed_def overlay_def)
  next
    case 2
    let ?s1 = "upd_fs (\<lambda>v. v\<lparr>sysbuf := view (dev s) ?b\<rparr>) s"
    have "fc_switch P ?b cur s = (0, ?s1)"
      using 2 sys_read_ok [OF okb [OF c]] by (simp add: fc_switch_def)
    moreover have "only_fat_changed ok view ?v s ?s1" by (auto simp: only_fat_changed_def upd_fs_def)
    ultimately show ?thesis
      using 2 cell_block_not_max [OF reg] by (auto simp: overlay_def upd_fs_def)
  next
    case 3
    then obtain c0 where c0: "c0 < fat_clusters ?v" "cur = cell_block ?v c0"
      using cur by (auto simp: fc_current_def)
    let ?d = "fst (blk_write P (dev s) cur (sysbuf ?v))"
    let ?s1 = "upd_fs (\<lambda>v. v\<lparr>sysbuf := view ?d ?b\<rparr>) (s\<lparr>dev := ?d\<rparr>)"
    have okcur: "ok (dev s) cur" using okb c0 by simp
    have "sys_block_write P cur s = (0, s\<lparr>dev := ?d\<rparr>)" using sys_write_ok [OF okcur len] .
    moreover have "sys_block_read P ?b (s\<lparr>dev := ?d\<rparr>) = (0, ?s1)"
      using sys_read_ok [of "s\<lparr>dev := ?d\<rparr>" ?b] okb [OF c] okcur len by simp
    ultimately have "fc_switch P ?b cur s = (0, ?s1)"
      using 3 by (simp add: fc_switch_def)
    moreover have "only_fat_changed ok view ?v s ?s1"
      using okcur len c0 write_view [OF okcur len] by (auto simp: only_fat_changed_def upd_fs_def)
    moreover have "overlay ?s1 ?b (cell_block ?v c') = overlay s cur (cell_block ?v c')"
      if "c' < fat_clusters ?v" for c'
      using write_view [OF okcur len okb [OF that]] write_view [OF okcur len okb [OF c]] 3
      by (auto simp: overlay_def upd_fs_def)
    ultimately show ?thesis by blast
  qed
qed

lemma fc_clear_ok:
  assumes reg: "regular_fat (fatfs s)" and c: "c < fat_clusters (fatfs s)"
  shows "only_fat_changed ok view (fatfs s) s (fc_clear (of_nat c) s)"
    and "c' < fat_clusters (fatfs s) \<Longrightarrow>
      fat_cell (fatfs s) (overlay (fc_clear (of_nat c) s) (cell_block (fatfs s) c)) c' =
      (if c' = c then 0 else fat_cell (fatfs s) (overlay s (cell_block (fatfs s) c)) c')"
proof -
  let ?v = "fatfs s" and ?b = "cell_block (fatfs s) c"
  let ?z = "replicate (unat (fat_entry_len ?v)) (0 :: byte)"
  have wf: "wf_fat_info ?v" using reg by (simp add: regular_fat_def)
  have len: "length (sysbuf ?v) = 512" using wf by (simp add: wf_fat_info_def)
  have clear: "fc_clear (of_nat c) s =
      upd_fs (\<lambda>v. v\<lparr>sysbuf := splice (sysbuf v) (cell_offset v c) ?z\<rparr>) s"
    using wf_entry_len [OF wf] fat_block_of_nat(2) [OF reg c] by (auto simp: fc_clear_def upd_fs_def)
  show "only_fat_changed ok view ?v s (fc_clear (of_nat c) s)"
    unfolding clear using len cell_offset_bound [OF wf, of c] by (auto simp: only_fat_changed_def upd_fs_def)
  have zero: "entry_value (fs_type ?v) ?z = 0"
    using wf_entry_len [OF wf] zero_value by auto
  assume c': "c' < fat_clusters ?v"
  have "overlay (fc_clear (of_nat c) s) ?b =
      (overlay s ?b)(?b := splice (overlay s ?b ?b) (cell_offset ?v c) ?z)"
    unfolding clear by (auto simp: overlay_def upd_fs_def)
  then show "fat_cell ?v (overlay (fc_clear (of_nat c) s) ?b) c' =
      (if c' = c then 0 else fat_cell ?v (overlay s ?b) c')"
    using fat_cell_update [OF reg c c', of "overlay s ?b" ?z] zero len by (simp add: overlay_def)
qed

lemma only_fat_volume:
  assumes "only_fat_changed ok view (fatfs s) s s'" and "regular_fat (fatfs s)"
  shows "regular_fat (fatfs s')" and "fat_clusters (fatfs s') = fat_clusters (fatfs s)"
    and "cell_block (fatfs s') = cell_block (fatfs s)" and "fat_cell (fatfs s') = fat_cell (fatfs s)"
    and "end_cluster_marker (fatfs s') = end_cluster_marker (fatfs s)"
    and "only_fat_changed ok view (fatfs s') = only_fat_changed ok view (fatfs s)"
    and "fat_present ok (dev s) (fatfs s) \<Longrightarrow> fat_present ok (dev s') (fatfs s')"
proof -
  obtain x where x: "length x = 512" "fatfs s' = fatfs s\<lparr>sysbuf := x\<rparr>"
    using assms(1) by (auto simp: only_fat_changed_def)
  then show "regular_fat (fatfs s')" "fat_clusters (fatfs s') = fat_clusters (fatfs s)"
    "cell_block (fatfs s') = cell_block (fatfs s)" "fat_cell (fatfs s') = fat_cell (fatfs s)"
    "end_cluster_marker (fatfs s') = end_cluster_marker (fatfs s)"
    "only_fat_changed ok view (fatfs s') = only_fat_changed ok view (fatfs s)"
    using assms(2) by (auto simp: regular_fat_def wf_fat_info_def fun_eq_iff only_fat_changed_def)
  show "fat_present ok (dev s) (fatfs s) \<Longrightarrow> fat_present ok (dev s') (fatfs s')"
    using assms(1) x(2) by (simp add: fat_present_def only_fat_changed_def)
qed

lemma fc_step_ok:
  assumes reg: "regular_fat (fatfs s)" and present: "fat_present ok (dev s) (fatfs s)"
    and c: "c < fat_clusters (fatfs s)" and cur: "fc_current (fatfs s) cur"
  shows "\<exists>s2. only_fat_changed ok view (fatfs s) s s2 \<and>
    (\<forall>c'<fat_clusters (fatfs s). fat_cell (fatfs s) (overlay s2 (cell_block (fatfs s) c)) c' =
       (if c' = c then 0 else fat_cell (fatfs s) (overlay s cur) c')) \<and>
    fc_loop P (of_nat c) cur s =
      (let j = fat_cell (fatfs s) (overlay s cur) c in
       if end_cluster_marker (fatfs s) \<le> j
       then Some (0, snd (sys_block_write P (cell_block (fatfs s) c) s2))
       else fc_loop P j (cell_block (fatfs s) c) s2)"
proof -
  let ?v = "fatfs s" and ?b = "cell_block (fatfs s) c"
  obtain s1 where s1: "fc_switch P ?b cur s = (0, s1)" "only_fat_changed ok view ?v s s1"
    "\<forall>c'<fat_clusters ?v. overlay s1 ?b (cell_block ?v c') = overlay s cur (cell_block ?v c')"
    using fc_switch_ok [OF assms] by blast
  note v1 = only_fat_volume [OF s1(2) reg]
  let ?s2 = "fc_clear (of_nat c) s1"
  have c1: "c < fat_clusters (fatfs s1)" using c v1(2) by simp
  have cells: "fat_cell ?v (overlay s1 ?b) c' = fat_cell ?v (overlay s cur) c'"
    if "c' < fat_clusters ?v" for c'
    using s1(3) that by (intro fat_cell_cong) simp
  have entry: "fat_entry_at (fs_type (fatfs s1)) (sysbuf (fatfs s1)) (fat_offset (fatfs s1) (of_nat c)) =
      fat_cell ?v (overlay s cur) c"
    using cells [OF c] fat_block_of_nat(2) [OF v1(1) c1] fun_cong [OF fun_cong [OF v1(4)]]
      fun_cong [OF v1(3)]
    by (metis fat_cell_def overlay_def)
  have frame: "only_fat_changed ok view ?v s ?s2"
    using only_fat_trans [OF s1(2)] fc_clear_ok(1) [OF v1(1) c1] v1(6) by simp
  moreover have "fat_cell ?v (overlay ?s2 ?b) c' = (if c' = c then 0 else fat_cell ?v (overlay s cur) c')"
    if "c' < fat_clusters ?v" for c'
    using fc_clear_ok(2) [OF v1(1) c1, of c'] v1(2,3,4) that cells by simp
  moreover have "fc_loop P (of_nat c) cur s =
      (let j = fat_cell ?v (overlay s cur) c in
       if end_cluster_marker ?v \<le> j then Some (0, snd (sys_block_write P ?b ?s2))
       else fc_loop P j ?b ?s2)"
    using fat_block_of_nat(1) [OF reg c] s1(1) entry v1(5)
    by (subst fc_loop.simps) (simp add: Let_def)
  ultimately show ?thesis by blast
qed

lemma fc_finish_ok:
  assumes reg: "regular_fat (fatfs s)" and present: "fat_present ok (dev s) (fatfs s)"
    and c: "c < fat_clusters (fatfs s)"
  shows "\<exists>s3. sys_block_write P (cell_block (fatfs s) c) s = (0, s3) \<and> only_fat_changed ok view (fatfs s) s s3 \<and>
    (\<forall>c'<fat_clusters (fatfs s). fat_cell (fatfs s) (view (dev s3)) c' =
       fat_cell (fatfs s) (overlay s (cell_block (fatfs s) c)) c')"
proof -
  let ?v = "fatfs s" and ?b = "cell_block (fatfs s) c"
  have len: "length (sysbuf ?v) = 512" using reg by (simp add: regular_fat_def wf_fat_info_def)
  have okb: "ok (dev s) (cell_block ?v c')" if "c' < fat_clusters ?v" for c'
    using fat_present_cell [OF present reg that] .
  let ?s3 = "s\<lparr>dev := fst (blk_write P (dev s) ?b (sysbuf ?v))\<rparr>"
  have "only_fat_changed ok view ?v s ?s3"
    using len c write_view [OF okb [OF c] len] okb [OF c] by (auto simp: only_fat_changed_def)
  moreover have "fat_cell ?v (view (dev ?s3)) c' = fat_cell ?v (overlay s ?b) c'"
    if "c' < fat_clusters ?v" for c'
    using write_view [OF okb [OF c] len okb [OF that]]
    by (intro fat_cell_cong) (simp add: overlay_def)
  ultimately show ?thesis using sys_write_ok [OF okb [OF c] len] by blast
qed

lemma fc_loop_chain:
  assumes "regular_fat (fatfs s)" and "fat_present ok (dev s) (fatfs s)"
    and "fc_current (fatfs s) cur" and "distinct cs"
    and "fat_chain (fatfs s) (fat_cell (fatfs s) (overlay s cur)) cs"
  shows "\<exists>s'. fc_loop P (of_nat (hd cs)) cur s = Some (0, s') \<and> only_fat_changed ok view (fatfs s) s s' \<and>
    (\<forall>c<fat_clusters (fatfs s). fat_cell (fatfs s) (view (dev s')) c =
       (if c \<in> set cs then 0 else fat_cell (fatfs s) (overlay s cur) c))"
  using assms
proof (induction cs arbitrary: cur s)
  case Nil
  then show ?case by simp
next
  case (Cons c cs)
  let ?v = "fatfs s" and ?b = "cell_block (fatfs s) c"
  have c: "c < fat_clusters ?v" using Cons.prems(5) by (cases cs) auto
  obtain s2 where s2: "only_fat_changed ok view ?v s s2"
    "\<forall>c'<fat_clusters ?v. fat_cell ?v (overlay s2 ?b) c' =
       (if c' = c then 0 else fat_cell ?v (overlay s cur) c')"
    "fc_loop P (of_nat c) cur s =
      (let j = fat_cell ?v (overlay s cur) c in
       if end_cluster_marker ?v \<le> j then Some (0, snd (sys_block_write P ?b s2))
       else fc_loop P j ?b s2)"
    using fc_step_ok [OF Cons.prems(1,2) c Cons.prems(3)] by blast
  note v2 = only_fat_volume [OF s2(1) Cons.prems(1)]
  have present2: "fat_present ok (dev s2) (fatfs s2)" using v2(7) Cons.prems(2) by simp
  show ?case
  proof (cases cs)
    case Nil
    obtain s3 where "sys_block_write P (cell_block (fatfs s2) c) s2 = (0, s3)"
      "only_fat_changed ok view (fatfs s2) s2 s3"
      "\<forall>c'<fat_clusters (fatfs s2). fat_cell (fatfs s2) (view (dev s3)) c' =
         fat_cell (fatfs s2) (overlay s2 (cell_block (fatfs s2) c)) c'"
      using fc_finish_ok [OF v2(1) present2, of c] c v2(2) by auto
    then show ?thesis
      using s2 v2(2-6) Nil Cons.prems(5) only_fat_trans [OF s2(1)] by (auto simp: Let_def)
  next
    case (Cons d ds)
    have chain: "fat_cell ?v (overlay s cur) c = of_nat d"
      "\<not> end_cluster_marker ?v \<le> fat_cell ?v (overlay s cur) c"
      "fat_chain ?v (fat_cell ?v (overlay s cur)) cs"
      using Cons.prems(5) Cons by auto
    have "fat_chain ?v (fat_cell ?v (overlay s2 ?b)) cs"
      using chain(3) Cons.prems(4) fat_chain_bound [OF chain(3)] s2(2)
      by (elim fat_chain_cong) auto
    moreover have "fat_chain (fatfs s2) = fat_chain ?v"
      using fat_chain_volume [OF v2(2,5)] by (simp add: fun_eq_iff)
    ultimately obtain s' where s': "fc_loop P (of_nat (hd cs)) ?b s2 = Some (0, s')"
      "only_fat_changed ok view (fatfs s2) s2 s'"
      "\<forall>c'<fat_clusters (fatfs s2). fat_cell (fatfs s2) (view (dev s')) c' =
         (if c' \<in> set cs then 0 else fat_cell (fatfs s2) (overlay s2 ?b) c')"
      using Cons.IH [OF v2(1) present2, of ?b] Cons.prems(4) v2(2-4) c
      by (auto simp: fc_current_def)
    then show ?thesis
      using s2 v2(2-6) chain Cons only_fat_trans [OF s2(1)] by (auto simp: Let_def)
  qed
qed

lemma overlay_max: "regular_fat (fatfs s) \<Longrightarrow> c < fat_clusters (fatfs s) \<Longrightarrow>
    fat_cell (fatfs s) (overlay s MAX_BLOCK) c = fat_cell (fatfs s) (view (dev s)) c"
  using cell_block_not_max [of "fatfs s" c] by (intro fat_cell_cong) (simp add: overlay_def)

lemma free_clusters_chain:
  assumes "regular_fat (fatfs s)" and "fat_present ok (dev s) (fatfs s)" and "distinct cs"
    and "fat_chain (fatfs s) (fat_cell (fatfs s) (view (dev s))) cs"
  shows "\<exists>s'. fat_free_clusters P (of_nat (hd cs)) s = Some (0, s') \<and> only_fat_changed ok view (fatfs s) s s' \<and>
    (\<forall>c<fat_clusters (fatfs s). fat_cell (fatfs s) (view (dev s')) c =
       (if c \<in> set cs then 0 else fat_cell (fatfs s) (view (dev s)) c))"
proof -
  have "fat_chain (fatfs s) (fat_cell (fatfs s) (overlay s MAX_BLOCK)) cs"
    using assms(4) fat_chain_bound [OF assms(4)] overlay_max [OF assms(1)]
    by (elim fat_chain_cong) simp
  then show ?thesis
    using fc_loop_chain [of s MAX_BLOCK cs] assms overlay_max [OF assms(1)]
    by (auto simp: fat_free_clusters_def fc_current_def)
qed

lemma get_free_cluster_cells:
  assumes reg: "regular_fat (fatfs s)" and present: "fat_present ok (dev s) (fatfs s)"
    and n: "n < fat_clusters (fatfs s)" "fat_cell (fatfs s) (view (dev s)) n = 0"
    and least: "\<forall>c<n. fat_cell (fatfs s) (view (dev s)) c \<noteq> 0"
  shows "\<exists>s'. fat_get_free_cluster P s = (of_nat n, s') \<and> only_fat_changed ok view (fatfs s) s s' \<and>
    (\<forall>c<fat_clusters (fatfs s). fat_cell (fatfs s) (view (dev s')) c =
       (if c = n then entry_value (fs_type (fatfs s)) (end_mark (fs_type (fatfs s)))
        else fat_cell (fatfs s) (view (dev s)) c))"
proof -
  let ?v = "fatfs s" and ?b = "cell_block (fatfs s) n"
  let ?y = "splice (view (dev s) ?b) (cell_offset ?v n) (end_mark (fs_type ?v))"
  let ?s' = "upd_fs (\<lambda>v. v\<lparr>sysbuf := ?y\<rparr>) s\<lparr>dev := fst (blk_write P (dev s) ?b ?y)\<rparr>"
  have wf: "wf_fat_info ?v" using reg by (simp add: regular_fat_def)
  have okb: "ok (dev s) ?b" using fat_present_cell [OF present reg n(1)] .
  have y: "length ?y = 512"
    using cell_offset_bound [OF wf, of n] length_end_mark [OF wf] by simp
  have "only_fat_changed ok view ?v s ?s'"
    using okb y n(1) write_view [OF okb y] by (auto simp: only_fat_changed_def upd_fs_def)
  then show ?thesis
    using get_free_cluster_first [OF assms]
      fat_cell_write [OF reg present n(1) _ length_end_mark [OF wf]] by auto
qed

end

section \<open>Properties\<close>

text \<open>The FAT of a state, and the volumes the routines are meant for.\<close>

definition fat_of :: "('d \<Rightarrow> blockno \<Rightarrow> sector) \<Rightarrow> 'd gstate \<Rightarrow> nat \<Rightarrow> u32" where
  "fat_of view s = fat_cell (fatfs s) (view (dev s))"

definition fat_ready :: "pc_dev gstate \<Rightarrow> bool" where
  "fat_ready s \<longleftrightarrow> regular_fat (fatfs s) \<and> fat_present pc_ok (dev s) (fatfs s)"

definition end_value :: "byte \<Rightarrow> u32" where
  "end_value type = entry_value type (end_mark type)"

lemma only_fat_changed_fat_of:
  assumes "only_fat_changed ok view v s s'"
  shows "fat_of view s' = fat_cell (fatfs s) (view (dev s'))"
proof -
  have "fatfs s' = fatfs s\<lparr>sysbuf := sysbuf (fatfs s')\<rparr>"
    using assms by (simp add: only_fat_changed_def)
  then have "fat_cell (fatfs s') = fat_cell (fatfs s)"
    by (metis (no_types, lifting) ext position_sysbuf(4))
  then show ?thesis by (simp add: fat_of_def)
qed

text \<open>
  C8: Allocation takes the first free cluster, marks it as the end of a chain, and changes nothing
  else: no other entry of the FAT, no block outside the FAT, no open file.
\<close>

theorem get_free_cluster_takes_first:
  assumes "fat_ready s" and "n < fat_clusters (fatfs s)"
    and "fat_of pc_view s n = 0" and "\<forall>c<n. fat_of pc_view s c \<noteq> 0"
  shows "\<exists>s'. fat_get_free_cluster (pc_platform clk junk) s = (of_nat n, s') \<and>
    only_fat_changed pc_ok pc_view (fatfs s) s s' \<and>
    (\<forall>c<fat_clusters (fatfs s). fat_of pc_view s' c =
       (if c = n then end_value (fs_type (fatfs s)) else fat_of pc_view s c))"
  using pc.get_free_cluster_cells [of s n clk junk] assms only_fat_changed_fat_of
  unfolding fat_ready_def fat_of_def [of pc_view s] end_value_def by metis

text \<open>
  C18: On a full volume allocation returns 0 and the device is as it was.
\<close>

theorem get_free_cluster_when_full:
  assumes "fat_ready s" and "\<forall>c<fat_clusters (fatfs s). fat_of pc_view s c \<noteq> 0"
  shows "\<exists>s'. fat_get_free_cluster (pc_platform clk junk) s = (0, s') \<and> dev s' = dev s \<and>
    file_num s' = file_num s"
proof -
  obtain x where "fat_get_free_cluster (pc_platform clk junk) s =
      (0, upd_fs (\<lambda>v. v\<lparr>sysbuf := x\<rparr>) s)"
    using pc.get_free_cluster_full [of s clk junk] assms by (auto simp: fat_ready_def fat_of_def)
  then show ?thesis by (simp add: upd_fs_def)
qed

text \<open>
  C6: Freeing the first cluster of a chain ends and clears exactly the entries of the chain.
\<close>

theorem free_clusters_frees_chain:
  assumes "fat_ready s" and "distinct cs" and "fat_chain (fatfs s) (fat_of pc_view s) cs"
  shows "\<exists>s'. fat_free_clusters (pc_platform clk junk) (of_nat (hd cs)) s = Some (0, s') \<and>
    only_fat_changed pc_ok pc_view (fatfs s) s s' \<and>
    (\<forall>c<fat_clusters (fatfs s). fat_of pc_view s' c =
       (if c \<in> set cs then 0 else fat_of pc_view s c))"
  using pc.free_clusters_chain [of s cs clk junk] assms only_fat_changed_fat_of
  unfolding fat_ready_def fat_of_def [of pc_view s] by metis

lemma only_fat_changed_ready:
  assumes "fat_ready s" and "only_fat_changed pc_ok pc_view (fatfs s) s s'"
  shows "fat_ready s'"
  using assms pc.only_fat_volume [OF assms(2)] by (simp add: fat_ready_def)

lemma end_value_marks:
  "wf_fat_info v \<Longrightarrow> end_cluster_marker v \<le> end_value (fs_type v)"
  by (auto simp: wf_fat_info_def end_value_def end_mark_value)

lemma first_free_chain:
  assumes "fat_ready s" and "n < fat_clusters (fatfs s)"
    and "\<forall>c<fat_clusters (fatfs s). cell c = (if c = n then end_value (fs_type (fatfs s)) else f c)"
  shows "fat_chain (fatfs s) cell [n]"
  using assms end_value_marks [of "fatfs s"] by (simp add: fat_ready_def regular_fat_def)

text \<open>
  C17: Allocating a cluster and freeing it again leaves the FAT as it was.
\<close>

theorem allocate_free_roundtrip:
  assumes "fat_ready s" and "n < fat_clusters (fatfs s)"
    and "fat_of pc_view s n = 0" and "\<forall>c<n. fat_of pc_view s c \<noteq> 0"
  shows "\<exists>s1 s2. fat_get_free_cluster (pc_platform clk junk) s = (of_nat n, s1) \<and>
    fat_free_clusters (pc_platform clk junk) (of_nat n) s1 = Some (0, s2) \<and>
    (\<forall>c<fat_clusters (fatfs s). fat_of pc_view s2 c = fat_of pc_view s c)"
proof -
  let ?P = "pc_platform clk junk" and ?v = "fatfs s"
  obtain s1 where s1: "fat_get_free_cluster ?P s = (of_nat n, s1)"
    "only_fat_changed pc_ok pc_view ?v s s1"
    "\<forall>c<fat_clusters ?v. fat_cell ?v (pc_view (dev s1)) c =
       (if c = n then end_value (fs_type ?v) else fat_of pc_view s c)"
    using pc.get_free_cluster_cells [of s n clk junk] assms
    unfolding fat_ready_def fat_of_def end_value_def by blast
  have ready: "fat_ready s1" using only_fat_changed_ready [OF assms(1) s1(2)] .
  note v1 = pc.only_fat_volume [OF s1(2)]
  have reg: "regular_fat ?v" using assms(1) by (simp add: fat_ready_def)
  have "fat_chain (fatfs s1) (fat_cell (fatfs s1) (pc_view (dev s1))) [n]"
    using first_free_chain [OF assms(1,2) s1(3)] v1(2,4,5) [OF reg] by simp
  then obtain s2 where "fat_free_clusters ?P (of_nat n) s1 = Some (0, s2)"
    "only_fat_changed pc_ok pc_view (fatfs s1) s1 s2"
    "\<forall>c<fat_clusters (fatfs s1). fat_cell (fatfs s1) (pc_view (dev s2)) c =
       (if c \<in> {n} then 0 else fat_cell (fatfs s1) (pc_view (dev s1)) c)"
    using pc.free_clusters_chain [of s1 "[n]" clk junk] ready unfolding fat_ready_def by auto
  moreover from this(2) have "fat_of pc_view s2 = fat_cell ?v (pc_view (dev s2))"
    using only_fat_changed_fat_of v1(4) [OF reg] by metis
  ultimately show ?thesis
    using s1 v1(2,4) [OF reg] assms(3) by auto
qed

end
