(* ===== verification/Fat_File.thy ===== *)
theory Fat_File
  imports Fat_Alloc
begin

text \<open>
  The cursor of an open file: \<open>fat_flush\<close>, \<open>fat_select_cluster\<close>, \<open>fat_next_cluster\<close>,
  \<open>fat_next_sector\<close> and \<open>fat_flush_fileinfo\<close> of gristle.c. As the comment at the top of that file
  says, the two flush functions depend on each other (a flush may give the file its first cluster,
  whose directory entry is then written, for which the parent directory is searched with the same
  file structure, which may need another cluster), and gristle.c has a prototype of
  \<open>fat_flush_fileinfo\<close> to break the circle. Here the first four functions take the function that
  stands for the prototype as a parameter \<open>ffi\<close>, and \<open>fat_flush_fileinfo\<close> ties the knot. The
  search for a free slot need not end, so the depth of the calls is bounded by a fuel; \<open>None\<close> is the
  fuel running out. Theory \<open>Fat_Fuel\<close> proves that more fuel never changes a result, and that a file
  that already has its directory entry needs two levels only.
\<close>

section \<open>Model\<close>

text \<open>What \<open>fat_flush\<close> stores when a file gets its first cluster.\<close>

definition set_first_cluster :: "fat_info \<Rightarrow> u32 \<Rightarrow> FileS \<Rightarrow> FileS" where
  "set_first_cluster v cluster f =
    f\<lparr>f_full_first_cluster := cluster, f_flags := f_flags f OR FAT_FLAG_FS_DIRTY,
      f_sector := cluster_sector v cluster, f_sectors_left := sectors_per_cluster v - 1,
      f_cluster := cluster\<rparr>"

definition fat_select_cluster :: "'d platform \<Rightarrow> nat \<Rightarrow> u32 \<Rightarrow> 'd gstate \<Rightarrow> int \<times> 'd gstate" where
  "fat_select_cluster P fd cluster s =
    (let v = fatfs s;
         s1 = (if cluster = 1 then
                 upd_file fd (\<lambda>f. f\<lparr>f_sector := root_start v, f_sectors_left := ucast (root_len v),
                                   f_cluster := 1, f_cursor := 0\<rparr>) s
               else
                 upd_file fd (\<lambda>f. f\<lparr>f_sector := cluster_sector v cluster,
                                   f_sectors_left := sectors_per_cluster v - 1,
                                   f_cluster := cluster, f_cursor := 0\<rparr>) s) in
     file_block_read P fd (f_sector (the_file s1 fd)) s1)"

text \<open>
  The directory entry \<open>fat_flush_fileinfo\<close> builds on its stack. It does not assign \<open>reserved\<close>,
  which keeps whatever byte the stack held.
\<close>

definition fileinfo_dirent :: "byte \<Rightarrow> FileS \<Rightarrow> direntS" where
  "fileinfo_dirent junk f =
    \<lparr>de_filename = f_filename f, de_extension = f_extension f, de_attributes = f_attributes f,
     de_reserved = junk, de_create_time_fine = word_of_int (f_created f mod 2 * 100),
     de_create_time = fat_from_unix_time (f_created f),
     de_create_date = fat_from_unix_date (f_created f),
     de_access_date = fat_from_unix_date (f_accessed f),
     de_high_first_cluster = ucast (drop_bit 16 (f_full_first_cluster f)),
     de_modified_time = fat_from_unix_time (f_modified f),
     de_modified_date = fat_from_unix_date (f_modified f),
     de_first_cluster = ucast (f_full_first_cluster f AND 0xFFFF), de_size = f_size f\<rparr>"

text \<open>The loop over the sixteen entries of a block: the first whose name starts with 0.\<close>

definition empty_slot :: "sector \<Rightarrow> nat option" where
  "empty_slot buf = find (\<lambda>i. buf ! (i * 32) = 0) [0..<16]"

text \<open>The early returns of \<open>fat_flush_fileinfo\<close>: nothing to write for this file.\<close>

definition fileinfo_unneeded :: "fat_info \<Rightarrow> FileS \<Rightarrow> bool" where
  "fileinfo_unneeded v f \<longleftrightarrow>
    f_full_first_cluster f = root_cluster v \<or>
    (f_entry_sector f = 0 \<and> \<not> has (f_flags f) FAT_FLAG_WRITE) \<or>
    f_full_first_cluster f = 0"

text \<open>Slot \<open>i\<close> of the block in the buffer becomes the file's entry; its own position is restored.\<close>

definition take_slot :: "FileS \<Rightarrow> nat \<Rightarrow> FileS \<Rightarrow> FileS" where
  "take_slot saved i f =
    f\<lparr>f_entry_sector := f_sector f, f_entry_number := of_nat i,
      f_sectors_left := f_sectors_left saved, f_file_sector := f_file_sector saved,
      f_cursor := f_cursor saved, f_sector := f_sector saved, f_cluster := f_cluster saved\<rparr>"

text \<open>The end of \<open>fat_flush_fileinfo\<close>, with the block of the entry in the buffer.\<close>

definition store_fileinfo :: "'d platform \<Rightarrow> nat \<Rightarrow> direntS \<Rightarrow> 'd gstate \<Rightarrow> int \<times> 'd gstate" where
  "store_fileinfo P fd de s =
    (let s1 = upd_file fd (\<lambda>f. f\<lparr>f_buffer :=
           splice (f_buffer f) (unat (f_entry_number f) * 32) (dirent_bytes de)\<rparr>) s in
     (case file_block_write P fd (f_entry_sector (the_file s1 fd)) s1 of (rc, s2) \<Rightarrow>
        if rc \<noteq> 0 then (- 1, s2)
        else
          (case file_block_read P fd (f_sector (the_file s2 fd)) s2 of (rc, s3) \<Rightarrow>
             if rc \<noteq> 0 then (- 1, s3)
             else (0, upd_file fd (clear_flags FAT_FLAG_FS_DIRTY) s3))))"

type_synonym 'd fileinfo_fn = "nat \<Rightarrow> 'd gstate \<Rightarrow> (int \<times> 'd gstate) option"

definition fat_flush_with ::
  "'d platform \<Rightarrow> 'd fileinfo_fn \<Rightarrow> nat \<Rightarrow> 'd gstate \<Rightarrow> (int \<times> 'd gstate) option" where
  "fat_flush_with P ffi fd s =
    (let f = the_file s fd in
     if has (f_flags f) FAT_FLAG_DIRTY then
       if f_sector f = 0 then
         (case fat_get_free_cluster P s of (cluster, s1) \<Rightarrow>
            if cluster = 0xFFFFFFFF then Some (- 1, s1)
            else if cluster = 0 then Some (- 1, s1)
            else
              let s2 = upd_file fd (set_first_cluster (fatfs s1) cluster) s1 in
              (case file_block_write P fd (f_sector (the_file s2 fd)) s2 of (rc, s3) \<Rightarrow>
                 if rc \<noteq> 0 then Some (- 1, s3)
                 else do {
                   (_, s4) \<leftarrow> ffi fd (upd_file fd (clear_flags FAT_FLAG_DIRTY) s3);
                   Some (0, s4) }))
       else
         (case file_block_write P fd (f_sector f) s of (rc, s1) \<Rightarrow>
            if rc \<noteq> 0 then Some (- 1, s1)
            else Some (0, upd_file fd (clear_flags FAT_FLAG_DIRTY) s1))
     else Some (0, s))"

text \<open>
  \<open>fat_next_cluster\<close>: the last cluster of a file opened for writing is chained to a new one. The
  result is the cluster as an \<open>int\<close>, and the value of \<open>rerrno\<close>.
\<close>

definition extend_chain ::
  "'d platform \<Rightarrow> 'd fileinfo_fn \<Rightarrow> nat \<Rightarrow> u32 \<Rightarrow> 'd gstate \<Rightarrow> ((int \<times> int) \<times> 'd gstate) option" where
  "extend_chain P ffi fd cluster s2 =
    (case fat_get_free_cluster P s2 of (k, s3) \<Rightarrow>
       if k = 0 then Some ((- 1, ENOSPC), s3)
       else if k = 0xFFFFFFFF then Some ((- 1, EIO), s3)
       else
         let v = fatfs s3 in
         (case file_block_read P fd (fat_block v cluster) s3 of (rc, s4) \<Rightarrow>
            if rc \<noteq> 0 then Some ((- 1, EIO), s4)
            else
              let s5 = upd_file fd (\<lambda>f. f\<lparr>f_buffer := splice (f_buffer f)
                    (fat_offset v cluster) (fat_entry_bytes (fs_type v) k)\<rparr>) s4 in
              (case file_block_write P fd (fat_block v cluster) s5 of (rc', s6) \<Rightarrow>
                 if rc' \<noteq> 0 then Some ((- 1, EIO), s6)
                 else do {
                   (_, s7) \<leftarrow> ffi fd s6;
                   Some ((sint k, 0), s7) })))"

definition fat_next_cluster_with ::
  "'d platform \<Rightarrow> 'd fileinfo_fn \<Rightarrow> nat \<Rightarrow> 'd gstate \<Rightarrow> ((int \<times> int) \<times> 'd gstate) option" where
  "fat_next_cluster_with P ffi fd s =
    do {
      (rc, s1) \<leftarrow> fat_flush_with P ffi fd s;
      if rc \<noteq> 0 then Some ((- 1, EIO), s1)
      else if f_cluster (the_file s1 fd) = 1 then
        Some ((- 1, 0), upd_file fd (\<lambda>f. f\<lparr>f_error := FAT_END_OF_FILE\<rparr>) s1)
      else
        let v = fatfs s1; cluster = f_cluster (the_file s1 fd) in
        (case file_block_read P fd (fat_block v cluster) s1 of (rc', s2) \<Rightarrow>
           if rc' \<noteq> 0 then Some ((- 1, EIO), s2)
           else
             let j = fat_entry_at (fs_type v) (f_buffer (the_file s2 fd)) (fat_offset v cluster) in
             if j < 2 then
               Some ((- 1, EIO), upd_file fd (\<lambda>f. f\<lparr>f_error := FAT_ERROR_CLUSTER\<rparr>) s2)
             else if j \<ge> end_cluster_marker v then
               if has (f_flags (the_file s2 fd)) FAT_FLAG_WRITE then extend_chain P ffi fd cluster s2
               else Some ((- 1, 0), upd_file fd (\<lambda>f. f\<lparr>f_error := FAT_END_OF_FILE\<rparr>) s2)
             else Some ((sint j, 0), s2)) }"

definition step_sector :: "FileS \<Rightarrow> FileS" where
  "step_sector f =
    f\<lparr>f_sectors_left := f_sectors_left f - 1, f_file_sector := f_file_sector f + 1,
      f_cursor := 0, f_sector := f_sector f + 1\<rparr>"

definition fat_next_sector_with ::
  "'d platform \<Rightarrow> 'd fileinfo_fn \<Rightarrow> nat \<Rightarrow> 'd gstate \<Rightarrow> (int \<times> 'd gstate) option" where
  "fat_next_sector_with P ffi fd s =
    do {
      (rc, s1) \<leftarrow> fat_flush_with P ffi fd s;
      if rc \<noteq> 0 then Some (- 1, s1)
      else if f_sectors_left (the_file s1 fd) > 0 then
        let s2 = upd_file fd step_sector s1 in
        Some (file_block_read P fd (f_sector (the_file s2 fd)) s2)
      else do {
        ((c, _), s2) \<leftarrow> fat_next_cluster_with P ffi fd s1;
        if c > - 1 then
          Some (fat_select_cluster P fd (word_of_int c)
            (upd_file fd (\<lambda>f. f\<lparr>f_file_sector := f_file_sector f + 1\<rparr>) s2))
        else Some (- 1, s2) } }"

text \<open>The \<open>while (1)\<close> loop that looks for a free slot in the parent directory.\<close>

primrec find_slot ::
  "'d platform \<Rightarrow> 'd fileinfo_fn \<Rightarrow> nat \<Rightarrow> nat \<Rightarrow> 'd gstate \<Rightarrow> (nat \<times> 'd gstate) option" where
  "find_slot P ffi 0 fd s = None"
| "find_slot P ffi (Suc n) fd s =
    (case empty_slot (f_buffer (the_file s fd)) of
       Some i \<Rightarrow> Some (i, s)
     | None \<Rightarrow> do { (_, s1) \<leftarrow> fat_next_sector_with P ffi fd s; find_slot P ffi n fd s1 })"

primrec fat_flush_fileinfo ::
  "'d platform \<Rightarrow> nat \<Rightarrow> nat \<Rightarrow> 'd gstate \<Rightarrow> (int \<times> 'd gstate) option" where
  "fat_flush_fileinfo P 0 fd s = None"
| "fat_flush_fileinfo P (Suc n) fd s =
    (if fileinfo_unneeded (fatfs s) (the_file s fd) then Some (0, s)
     else
       let de = fileinfo_dirent (plat_junk P 12) (the_file s fd) in
       do {
         (rc, s1) \<leftarrow> fat_flush_with P (fat_flush_fileinfo P n) fd s;
         if rc \<noteq> 0 then Some (- 1, s1)
         else if f_entry_sector (the_file s1 fd) = 0 then
           let saved = the_file s1 fd;
               s2 = snd (fat_select_cluster P fd (f_parent_cluster saved) s1) in
           do {
             (i, s3) \<leftarrow> find_slot P (fat_flush_fileinfo P n) n fd s2;
             Some (store_fileinfo P fd de (upd_file fd (take_slot saved i) s3)) }
         else
           (case file_block_read P fd (f_entry_sector (the_file s1 fd)) s1 of (rc', s2) \<Rightarrow>
              if rc' \<noteq> 0 then Some (- 1, s2) else Some (store_fileinfo P fd de s2)) })"

definition fat_flush :: "'d platform \<Rightarrow> nat \<Rightarrow> nat \<Rightarrow> 'd gstate \<Rightarrow> (int \<times> 'd gstate) option" where
  "fat_flush P n = fat_flush_with P (fat_flush_fileinfo P n)"

definition fat_next_cluster ::
  "'d platform \<Rightarrow> nat \<Rightarrow> nat \<Rightarrow> 'd gstate \<Rightarrow> ((int \<times> int) \<times> 'd gstate) option" where
  "fat_next_cluster P n = fat_next_cluster_with P (fat_flush_fileinfo P n)"

definition fat_next_sector ::
  "'d platform \<Rightarrow> nat \<Rightarrow> nat \<Rightarrow> 'd gstate \<Rightarrow> (int \<times> 'd gstate) option" where
  "fat_next_sector P n = fat_next_sector_with P (fat_flush_fileinfo P n)"

section \<open>The invariant\<close>

text \<open>
  What every operation keeps: the buffers are whole blocks, the cursor stays inside the buffer (or
  right behind it), names have their eight and three bytes and the entry number is one of a
  block's sixteen. Together with the proofs that use it, this is the memory safety of the driver:
  every index into a buffer is in range.
\<close>

definition wf_file :: "FileS \<Rightarrow> bool" where
  "wf_file f \<longleftrightarrow>
    length (f_buffer f) = 512 \<and> f_cursor f \<le> 512 \<and> length (f_filename f) = 8 \<and>
    length (f_extension f) = 3 \<and> f_entry_number f < 16"

definition wf_state :: "'d gstate \<Rightarrow> bool" where
  "wf_state s \<longleftrightarrow>
    wf_fat_info (fatfs s) \<and> length (file_num s) = MAX_OPEN_FILES \<and> list_all wf_file (file_num s)"

text \<open>Everything of the volume but the system buffer.\<close>

definition same_volume :: "fat_info \<Rightarrow> fat_info \<Rightarrow> bool" where
  "same_volume v v' \<longleftrightarrow> v' = v\<lparr>sysbuf := sysbuf v'\<rparr>"

text \<open>
  \<open>keeps fd s s'\<close>: \<open>s'\<close> is well formed, describes the same volume, and the open files other than
  \<open>fd\<close> are untouched.
\<close>

definition keeps :: "nat \<Rightarrow> 'd gstate \<Rightarrow> 'd gstate \<Rightarrow> bool" where
  "keeps fd s s' \<longleftrightarrow>
    wf_state s' \<and> same_volume (fatfs s) (fatfs s') \<and>
    (\<forall>fd'. fd' \<noteq> fd \<longrightarrow> the_file s' fd' = the_file s fd')"

text \<open>The same for a call that may run out of fuel.\<close>

definition pres :: "nat \<Rightarrow> 'd gstate \<Rightarrow> ('r \<times> 'd gstate) option \<Rightarrow> bool" where
  "pres fd s m \<longleftrightarrow> (\<forall>r s'. m = Some (r, s') \<longrightarrow> keeps fd s s')"

lemma same_volume_refl [simp]: "same_volume v v"
  by (simp add: same_volume_def)

lemma same_volume_trans: "same_volume v v' \<Longrightarrow> same_volume v' v'' \<Longrightarrow> same_volume v v''"
  unfolding same_volume_def by (rule sysbuf_twice)

lemma same_volume_sysbuf [simp]: "same_volume v (v\<lparr>sysbuf := b\<rparr>)"
  by (simp add: same_volume_def)

lemma same_volume_wf:
  "same_volume v v' \<Longrightarrow> wf_fat_info v \<Longrightarrow> length (sysbuf v') = 512 \<Longrightarrow> wf_fat_info v'"
  unfolding same_volume_def wf_fat_info_def by (erule ssubst) simp

lemma same_volume_fields:
  assumes "same_volume v v'"
  shows "read_only v' = read_only v" "fat_entry_len v' = fat_entry_len v"
    "end_cluster_marker v' = end_cluster_marker v" "sectors_per_cluster v' = sectors_per_cluster v"
    "cluster0 v' = cluster0 v" "active_fat_start v' = active_fat_start v"
    "sectors_per_fat v' = sectors_per_fat v" "root_len v' = root_len v"
    "root_start v' = root_start v" "root_cluster v' = root_cluster v" "fs_type v' = fs_type v"
proof -
  obtain b where "v' = v\<lparr>sysbuf := b\<rparr>" using assms by (auto simp: same_volume_def)
  then show "read_only v' = read_only v" "fat_entry_len v' = fat_entry_len v"
    "end_cluster_marker v' = end_cluster_marker v" "sectors_per_cluster v' = sectors_per_cluster v"
    "cluster0 v' = cluster0 v" "active_fat_start v' = active_fat_start v"
    "sectors_per_fat v' = sectors_per_fat v" "root_len v' = root_len v"
    "root_start v' = root_start v" "root_cluster v' = root_cluster v" "fs_type v' = fs_type v"
    by simp_all
qed

lemma keeps_refl: "wf_state s \<Longrightarrow> keeps fd s s"
  by (simp add: keeps_def)

lemma keeps_trans: "keeps fd s s' \<Longrightarrow> keeps fd s' s'' \<Longrightarrow> keeps fd s s''"
  using same_volume_trans by (fastforce simp: keeps_def)

lemma keeps_wf: "keeps fd s s' \<Longrightarrow> wf_state s'"
  by (simp add: keeps_def)

lemma wf_state_file:
  "wf_state s \<Longrightarrow> fd < 4 \<Longrightarrow> wf_file (the_file s fd)"
  by (simp add: wf_state_def the_file_def list_all_length)

lemma wf_state_volume: "wf_state s \<Longrightarrow> wf_fat_info (fatfs s)"
  by (simp add: wf_state_def)

lemma wf_state_files: "wf_state s \<Longrightarrow> length (file_num s) = 4"
  by (simp add: wf_state_def)

lemma keeps_upd:
  assumes "keeps fd s0 s" and "fd < 4 \<Longrightarrow> wf_file (the_file s fd) \<Longrightarrow> wf_file (g (the_file s fd))"
  shows "keeps fd s0 (upd_file fd g s)"
proof -
  have wf: "wf_state s" using assms(1) by (simp add: keeps_def)
  have "list_all wf_file ((file_num s)[fd := g (file_num s ! fd)])"
    using wf assms(2) wf_state_file [OF wf]
    by (cases "fd < 4") (auto simp: list_all_length nth_list_update wf_state_def the_file_def)
  then have "wf_state (upd_file fd g s)" using wf by (simp add: wf_state_def upd_file_def)
  then show ?thesis using assms(1) by (simp add: keeps_def)
qed

lemma keeps_same:
  assumes "keeps fd s0 s" and "fatfs s' = fatfs s" and "file_num s' = file_num s"
  shows "keeps fd s0 s'"
  using assms by (simp add: keeps_def wf_state_def the_file_def)

lemma keeps_sysbuf:
  assumes "keeps fd s0 s" and "file_num s' = file_num s"
    and "same_volume (fatfs s) (fatfs s')" and "length (sysbuf (fatfs s')) = 512"
  shows "keeps fd s0 s'"
  using assms same_volume_wf [OF assms(3)] same_volume_trans [OF _ assms(3)]
  by (auto simp: keeps_def wf_state_def the_file_def)

subsection \<open>Rules for \<open>pres\<close>\<close>

named_theorems pres_rules

lemma pres_None [pres_rules]: "pres fd s None"
  by (simp add: pres_def)

lemma pres_Some [pres_rules]: "keeps fd s s' \<Longrightarrow> pres fd s (Some (r, s'))"
  by (simp add: pres_def)

lemma pres_bind [pres_rules]:
  assumes "pres fd s m" and "\<And>r s'. keeps fd s s' \<Longrightarrow> pres fd s (k (r, s'))"
  shows "pres fd s (Option.bind m k)"
  using assms by (cases m) (auto simp: pres_def)

text \<open>
  For a call that returns a pair: the rest is checked for every state that keeps the invariant.
\<close>

lemma pres_call:
  assumes "\<And>r s'. p = (r, s') \<Longrightarrow> keeps fd s0 s'"
    and "\<And>r s'. keeps fd s0 s' \<Longrightarrow> pres fd s0 (k r s')"
  shows "pres fd s0 (case p of (r, s') \<Rightarrow> k r s')"
  using assms by (cases p) simp

lemma pres_if [pres_rules]:
  "(b \<Longrightarrow> pres fd s x) \<Longrightarrow> (\<not> b \<Longrightarrow> pres fd s y) \<Longrightarrow> pres fd s (if b then x else y)"
  by simp

lemma pres_let [pres_rules]: "(\<And>a. a = x \<Longrightarrow> pres fd s (k a)) \<Longrightarrow> pres fd s (Let x k)"
  by simp

lemma pres_case_Pair [pres_rules]: "pres fd s (k a b) \<Longrightarrow> pres fd s (case (a, b) of (x, y) \<Rightarrow> k x y)"
  by simp

lemma pres_case_nested [pres_rules]:
  "(\<And>a b. pres fd s (k a b s')) \<Longrightarrow> pres fd s ((case p of (a, b) \<Rightarrow> k a b) s')"
  by (cases p) simp

lemma keeps_if [pres_rules]:
  "(b \<Longrightarrow> keeps fd s x) \<Longrightarrow> (\<not> b \<Longrightarrow> keeps fd s y) \<Longrightarrow> keeps fd s (if b then x else y)"
  by simp

lemma keeps_flags [pres_rules]:
  "keeps fd s0 s \<Longrightarrow> keeps fd s0 (upd_file fd (\<lambda>f. f\<lparr>f_flags := h f\<rparr>) s)"
  by (erule keeps_upd) (simp add: wf_file_def)

lemma keeps_error [pres_rules]:
  "keeps fd s0 s \<Longrightarrow> keeps fd s0 (upd_file fd (\<lambda>f. f\<lparr>f_error := h f\<rparr>) s)"
  by (erule keeps_upd) (simp add: wf_file_def)

lemma keeps_file_sector [pres_rules]:
  "keeps fd s0 s \<Longrightarrow> keeps fd s0 (upd_file fd (\<lambda>f. f\<lparr>f_file_sector := h f\<rparr>) s)"
  by (erule keeps_upd) (simp add: wf_file_def)

lemma keeps_first_cluster [pres_rules]:
  "keeps fd s0 s \<Longrightarrow> keeps fd s0 (upd_file fd (set_first_cluster v c) s)"
  by (erule keeps_upd) (simp add: wf_file_def set_first_cluster_def)

lemma keeps_step_sector [pres_rules]: "keeps fd s0 s \<Longrightarrow> keeps fd s0 (upd_file fd step_sector s)"
  by (erule keeps_upd) (simp add: wf_file_def step_sector_def)

lemma presD: "pres fd s m \<Longrightarrow> m = Some (r, s') \<Longrightarrow> keeps fd s s'"
  by (simp add: pres_def)

section \<open>Every operation keeps the invariant\<close>

lemma length_fileinfo [simp]:
  "wf_file f \<Longrightarrow> length (dirent_bytes (fileinfo_dirent junk f)) = 32"
  by (simp add: length_dirent_bytes fileinfo_dirent_def wf_file_def)

lemma empty_slot_less: "empty_slot buf = Some i \<Longrightarrow> i < 16"
  by (auto simp: empty_slot_def find_Some_iff)

lemma slot_number: "i < 16 \<Longrightarrow> (of_nat i :: byte) < 16"
  by (simp add: word_less_nat_alt unat_of_nat take_bit_nat_eq_self)

lemma length_splice_entry:
  "length buf = 512 \<Longrightarrow> (k :: byte) < 16 \<Longrightarrow> length bs = 32 \<Longrightarrow>
    length (splice buf (unat k * 32) bs) = 512"
  by (simp add: word_less_nat_alt)

lemma free_entry_bound:
  assumes "wf_fat_info v" and "free_entry v = Some j"
  shows "j * unat (fat_entry_len v) + length (end_mark (fs_type v)) \<le> 512"
proof -
  have "j < entries_per_block v"
    using assms(2) by (auto simp: free_entry_def find_Some_iff)
  then show ?thesis
    using wf_entry_len [OF assms(1)] by (auto simp: end_mark_def)
qed

lemma dvd_gap: "(d::nat) dvd a \<Longrightarrow> d dvd b \<Longrightarrow> a < b \<Longrightarrow> a + d \<le> b"
  by (auto elim!: dvdE) (metis Suc_leI add.commute mult_Suc_right mult_le_mono2)

lemma fat_offset_bound:
  assumes "wf_fat_info v"
  shows "fat_offset v c + unat (fat_entry_len v) \<le> 512"
proof -
  let ?l = "unat (fat_entry_len v)" and ?w = "c * ucast (fat_entry_len v)"
  have n: "unat ?w = unat c * ?l mod 2 ^ 32"
    by (simp add: unat_word_ariths)
  have off: "fat_offset v c = unat ?w mod 512"
    using word_block_split(2) [of "unat ?w"] unsigned_less [of ?w] by (simp add: fat_offset_def)
  have l: "?l dvd 2 ^ 32" "?l dvd 512"
    using wf_entry_len [OF assms] by auto
  then have "?l dvd unat ?w" unfolding n by (simp add: dvd_mod)
  then have "?l dvd fat_offset v c" unfolding off using l(2) by (simp add: dvd_mod)
  moreover have "fat_offset v c < 512" unfolding off by simp
  ultimately show ?thesis using l(2) dvd_gap by blast
qed

context block_device
begin

lemma keeps_read:
  assumes "keeps fd s0 s" and "file_block_read P fd b s = (rc, s')"
  shows "keeps fd s0 s'"
proof -
  obtain d buf where r: "blk_read P (dev s) b (f_buffer (the_file s fd)) = (d, buf, rc)"
    "s' = upd_file fd (\<lambda>f. f\<lparr>f_buffer := buf\<rparr>) (s\<lparr>dev := d\<rparr>)"
    using assms(2) by (auto simp: file_block_read_def split: prod.splits)
  have "keeps fd s0 (s\<lparr>dev := d\<rparr>)" using assms(1) by (rule keeps_same) simp_all
  then show ?thesis
    unfolding r(2)
  proof (rule keeps_upd)
    assume "wf_file (the_file (s\<lparr>dev := d\<rparr>) fd)"
    then show "wf_file (the_file (s\<lparr>dev := d\<rparr>) fd\<lparr>f_buffer := buf\<rparr>)"
      using read_length [of "f_buffer (the_file s fd)" "dev s" b] r(1)
      by (simp add: wf_file_def)
  qed
qed

lemma keeps_write:
  "keeps fd s0 s \<Longrightarrow> file_block_write P fd' b s = (rc, s') \<Longrightarrow> keeps fd s0 s'"
  by (erule keeps_same) (auto simp: file_block_write_def split: prod.splits)

lemma keeps_sys_read:
  assumes "keeps fd s0 s" and "sys_block_read P b s = (rc, s')"
  shows "keeps fd s0 s'"
  using assms(1)
proof (rule keeps_sysbuf)
  have "length (sysbuf (fatfs s)) = 512"
    using assms(1) by (simp add: keeps_def wf_state_def wf_fat_info_def)
  then show "length (sysbuf (fatfs s')) = 512"
    using length_sysbuf_read [of s b] assms(2) by simp
qed (use assms(2) in \<open>auto simp: sys_block_read_def split: prod.splits\<close>)

lemma keeps_sys_write:
  "keeps fd s0 s \<Longrightarrow> sys_block_write P b s = (rc, s') \<Longrightarrow> keeps fd s0 s'"
  by (erule keeps_same) (auto simp: sys_block_write_def split: prod.splits)

lemma keeps_splice_sysbuf:
  assumes "keeps fd s0 s" and "off + length bs \<le> 512"
  shows "keeps fd s0 (upd_fs (\<lambda>v. v\<lparr>sysbuf := splice (sysbuf v) off bs\<rparr>) s)"
  using assms(1)
proof (rule keeps_sysbuf)
  have "length (sysbuf (fatfs s)) = 512"
    using assms(1) by (simp add: keeps_def wf_state_def wf_fat_info_def)
  then show "length (sysbuf (fatfs (upd_fs (\<lambda>v. v\<lparr>sysbuf := splice (sysbuf v) off bs\<rparr>) s))) = 512"
    using assms(2) by simp
qed simp_all

lemma keeps_gfc_scan:
  "keeps fd s0 s \<Longrightarrow> gfc_scan P bs s = (c, s') \<Longrightarrow> keeps fd s0 s'"
proof (induction bs arbitrary: s)
  case Nil
  then show ?case by simp
next
  case (Cons i bs)
  obtain rc s1 where s1: "sys_block_read P i s = (rc, s1)" by fastforce
  have k1: "keeps fd s0 s1" using keeps_sys_read [OF Cons.prems(1) s1] .
  then have wf: "wf_fat_info (fatfs s1)" by (simp add: keeps_def wf_state_def)
  show ?case
  proof (cases "rc \<noteq> 0")
    case True
    then show ?thesis using Cons.prems(2) s1 k1 by simp
  next
    case rc: False
    show ?thesis
    proof (cases "free_entry (fatfs s1)")
      case None
      then show ?thesis using Cons.IH [OF k1] Cons.prems(2) s1 rc by simp
    next
      case (Some j)
      let ?s2 = "upd_fs (\<lambda>v. v\<lparr>sysbuf := splice (sysbuf v)
          (j * unat (fat_entry_len v)) (end_mark (fs_type v))\<rparr>) s1"
      have eq: "?s2 = upd_fs (\<lambda>v. v\<lparr>sysbuf := splice (sysbuf v)
          (j * unat (fat_entry_len (fatfs s1))) (end_mark (fs_type (fatfs s1)))\<rparr>) s1"
        by (simp add: upd_fs_def)
      have "keeps fd s0 ?s2"
        unfolding eq by (rule keeps_splice_sysbuf [OF k1 free_entry_bound [OF wf Some]])
      then show ?thesis
        using Cons.prems(2) s1 rc Some eq keeps_sys_write
        by (auto simp: Let_def split: prod.splits if_splits)
    qed
  qed
qed

lemma keeps_get_free_cluster:
  "keeps fd s0 s \<Longrightarrow> fat_get_free_cluster P s = (c, s') \<Longrightarrow> keeps fd s0 s'"
  unfolding fat_get_free_cluster_def by (rule keeps_gfc_scan)

lemma keeps_fc_switch:
  assumes "keeps fd s0 s" and "fc_switch P b cur s = (rc, s')"
  shows "keeps fd s0 s'"
proof -
  obtain rc' s1 where s1: "sys_block_write P cur s = (rc', s1)" by fastforce
  then have "keeps fd s0 s1" using assms(1) keeps_sys_write by blast
  then show ?thesis
    using assms s1 by (auto simp: fc_switch_def split: if_splits intro: keeps_sys_read)
qed

lemma keeps_fc_clear:
  assumes "keeps fd s0 s"
  shows "keeps fd s0 (fc_clear c s)"
proof -
  have wf: "wf_fat_info (fatfs s)" using assms by (simp add: keeps_def wf_state_def)
  have eq: "fc_clear c s = upd_fs (\<lambda>v. v\<lparr>sysbuf := splice (sysbuf v) (fat_offset (fatfs s) c)
      (replicate (unat (fat_entry_len (fatfs s))) 0)\<rparr>) s"
    using wf_entry_len [OF wf] by (auto simp: fc_clear_def upd_fs_def)
  show ?thesis
    unfolding eq by (rule keeps_splice_sysbuf [OF assms]) (simp add: fat_offset_bound [OF wf])
qed

lemma keeps_fc_step:
  assumes "keeps fd s0 s"
    and rec: "\<And>j b s2 r. loop j b s2 = Some r \<Longrightarrow> keeps fd s0 s2 \<Longrightarrow> keeps fd s0 (snd r)"
    and "(let b = fat_block (fatfs s) c in case fc_switch P b cur s of (rc, s1) \<Rightarrow>
      if rc \<noteq> 0 then Some (- 1, s1) else let v = fatfs s1;
        j = fat_entry_at (fs_type v) (sysbuf v) (fat_offset v c); s2 = fc_clear c s1
      in if end_cluster_marker v \<le> j then Some (0, snd (sys_block_write P b s2)) else loop j b s2) =
      Some r"
  shows "keeps fd s0 (snd r)"
proof -
  obtain rc1 s1 where s1: "fc_switch P (fat_block (fatfs s) c) cur s = (rc1, s1)" by fastforce
  have k1: "keeps fd s0 s1" using keeps_fc_switch [OF assms(1) s1] .
  obtain rc2 s2 where s2: "sys_block_write P (fat_block (fatfs s) c) (fc_clear c s1) = (rc2, s2)"
    by fastforce
  have k2: "keeps fd s0 s2" using keeps_sys_write [OF keeps_fc_clear [OF k1] s2] .
  show ?thesis
    using assms(3) rec [OF _ keeps_fc_clear [OF k1]] s1 s2 k1 k2
    by (auto simp: Let_def split: if_splits)
qed

lemma keeps_fc_loop:
  assumes "fc_loop P c cur s = Some (rc, s')" and "keeps fd s0 s"
  shows "keeps fd s0 s'"
proof -
  let ?Q = "\<lambda>x r. fst (fst (fst x)) = P \<longrightarrow> keeps fd s0 (snd x) \<longrightarrow> keeps fd s0 (snd r)"
  have "?Q (((P, c), cur), s) (rc, s')"
  proof (rule fc_loop.raw_induct [of ?Q P c cur s "(rc, s')", OF _ assms(1)])
    fix loop P' c cur s r
    assume IH: "\<And>p c cur s r. loop p c cur s = Some r \<Longrightarrow> ?Q (((p, c), cur), s) r"
      and r: "(let b = fat_block (fatfs s) c in case fc_switch P' b cur s of (rc, s1) \<Rightarrow>
      if rc \<noteq> 0 then Some (- 1, s1) else let v = fatfs s1;
        j = fat_entry_at (fs_type v) (sysbuf v) (fat_offset v c); s2 = fc_clear c s1
      in if end_cluster_marker v \<le> j then Some (0, snd (sys_block_write P' b s2)) else loop P' j b s2) =
      Some r"
    show "?Q (((P', c), cur), s) r"
      using keeps_fc_step [of fd s0 s "loop P" c cur r] IH r by auto
  qed
  then show ?thesis using assms(2) by simp
qed

lemma pres_free_clusters: "keeps fd s0 s \<Longrightarrow> pres fd s0 (fat_free_clusters P c s)"
  by (auto simp: pres_def fat_free_clusters_def intro: keeps_fc_loop)

lemma keeps_select_cluster:
  assumes "keeps fd s0 s" and "fat_select_cluster P fd c s = (rc, s')"
  shows "keeps fd s0 s'"
proof -
  let ?g = "\<lambda>f. if c = 1 then f\<lparr>f_sector := root_start (fatfs s),
      f_sectors_left := ucast (root_len (fatfs s)), f_cluster := 1, f_cursor := 0\<rparr>
    else f\<lparr>f_sector := cluster_sector (fatfs s) c,
      f_sectors_left := sectors_per_cluster (fatfs s) - 1, f_cluster := c, f_cursor := 0\<rparr>"
  have "keeps fd s0 (upd_file fd ?g s)"
    using assms(1) by (rule keeps_upd) (simp add: wf_file_def)
  then show ?thesis
    using assms(2) by (auto simp: fat_select_cluster_def Let_def split: if_splits elim: keeps_read)
qed

lemma keeps_store_fileinfo:
  assumes "keeps fd s0 s" and "fd < 4 \<Longrightarrow> length (dirent_bytes de) = 32" and "store_fileinfo P fd de s = (rc, s')"
  shows "keeps fd s0 s'"
proof -
  let ?s1 = "upd_file fd (\<lambda>f. f\<lparr>f_buffer :=
      splice (f_buffer f) (unat (f_entry_number f) * 32) (dirent_bytes de)\<rparr>) s"
  have "keeps fd s0 ?s1"
    using assms(1) by (rule keeps_upd) (simp add: wf_file_def length_splice_entry assms(2))
  moreover obtain rc2 s2 where s2: "file_block_write P fd (f_entry_sector (the_file ?s1 fd)) ?s1 = (rc2, s2)"
    by fastforce
  ultimately have k2: "keeps fd s0 s2" using keeps_write by blast
  obtain rc3 s3 where s3: "file_block_read P fd (f_sector (the_file s2 fd)) s2 = (rc3, s3)"
    by fastforce
  have k3: "keeps fd s0 s3" using keeps_read [OF k2 s3] .
  have "keeps fd s0 (upd_file fd (clear_flags FAT_FLAG_FS_DIRTY) s3)"
    using k3 by (rule keeps_upd) (simp add: wf_file_def)
  then show ?thesis
    using assms(3) s2 s3 k2 k3 by (auto simp: store_fileinfo_def Let_def split: if_splits)
qed

lemma pres_read [pres_rules]:
  assumes "keeps fd s0 s" and "\<And>rc s'. keeps fd s0 s' \<Longrightarrow> pres fd s0 (k rc s')"
  shows "pres fd s0 (case file_block_read P fd b s of (rc, s') \<Rightarrow> k rc s')"
  by (rule pres_call [OF keeps_read [OF assms(1)] assms(2)])

lemma pres_write [pres_rules]:
  assumes "keeps fd s0 s" and "\<And>rc s'. keeps fd s0 s' \<Longrightarrow> pres fd s0 (k rc s')"
  shows "pres fd s0 (case file_block_write P fd b s of (rc, s') \<Rightarrow> k rc s')"
  by (rule pres_call [OF keeps_write [OF assms(1)] assms(2)])

lemma pres_get_free_cluster [pres_rules]:
  assumes "keeps fd s0 s" and "\<And>c s'. keeps fd s0 s' \<Longrightarrow> pres fd s0 (k c s')"
  shows "pres fd s0 (case fat_get_free_cluster P s of (c, s') \<Rightarrow> k c s')"
  by (rule pres_call [OF keeps_get_free_cluster [OF assms(1)] assms(2)])

lemma pres_read_last [pres_rules]: "keeps fd s0 s \<Longrightarrow> pres fd s0 (Some (file_block_read P fd b s))"
  by (auto simp: pres_def intro: keeps_read)

lemma pres_select_last [pres_rules]:
  "keeps fd s0 s \<Longrightarrow> pres fd s0 (Some (fat_select_cluster P fd c s))"
  by (auto simp: pres_def intro: keeps_select_cluster)

lemma keeps_select [pres_rules]:
  "keeps fd s0 s \<Longrightarrow> keeps fd s0 (snd (fat_select_cluster P fd c s))"
  by (rule keeps_select_cluster [OF _ surjective_pairing])

lemma keeps_put_entry:
  assumes "keeps fd s0 s" and "wf_fat_info v"
  shows "keeps fd s0 (upd_file fd (\<lambda>f. f\<lparr>f_buffer :=
      splice (f_buffer f) (fat_offset v c) (fat_entry_bytes (fs_type v) k)\<rparr>) s)"
  using assms(1)
proof (rule keeps_upd)
  have "length (fat_entry_bytes (fs_type v) k) = unat (fat_entry_len v)"
    using wf_entry_len [OF assms(2)] by (auto simp: fat_entry_bytes_def)
  then show "wf_file f \<Longrightarrow> wf_file (f\<lparr>f_buffer :=
      splice (f_buffer f) (fat_offset v c) (fat_entry_bytes (fs_type v) k)\<rparr>)" for f
    using fat_offset_bound [OF assms(2), of c] by (simp add: wf_file_def)
qed

lemma keeps_volume: "keeps fd s0 s \<Longrightarrow> wf_fat_info (fatfs s)"
  by (simp add: keeps_def wf_state_def)

end

text \<open>
  The interface between the two flush functions: what the callers of \<open>fat_flush_fileinfo\<close> rely on.
\<close>

locale fileinfo_writer = block_device P view ok
  for P :: "'d platform" and view and ok +
  fixes ffi :: "'d fileinfo_fn"
  assumes ffi_keeps: "wf_state s \<Longrightarrow> ffi fd s = Some (r, s') \<Longrightarrow> keeps fd s s'"
begin

lemma pres_ffi [pres_rules]: "keeps fd s0 s \<Longrightarrow> pres fd s0 (ffi fd s)"
  using ffi_keeps keeps_wf keeps_trans by (fastforce simp: pres_def)

lemma pres_flush [pres_rules]: "keeps fd s0 s \<Longrightarrow> pres fd s0 (fat_flush_with P ffi fd s)"
  unfolding fat_flush_with_def Let_def by (intro pres_rules; assumption?)

lemma pres_extend_chain [pres_rules]:
  "keeps fd s0 s \<Longrightarrow> pres fd s0 (extend_chain P ffi fd c s)"
  unfolding extend_chain_def Let_def
  by (intro pres_rules keeps_put_entry; (assumption | erule keeps_volume)?)

lemma pres_next_cluster [pres_rules]:
  "keeps fd s0 s \<Longrightarrow> pres fd s0 (fat_next_cluster_with P ffi fd s)"
  unfolding fat_next_cluster_with_def Let_def by (intro pres_rules; assumption?)

lemma pres_next_sector [pres_rules]:
  "keeps fd s0 s \<Longrightarrow> pres fd s0 (fat_next_sector_with P ffi fd s)"
  unfolding fat_next_sector_with_def Let_def by (intro pres_rules; assumption?)

end

text \<open>\<open>fat_flush_fileinfo\<close> keeps the invariant at every depth, and so provides the interface.\<close>

context block_device
begin

lemma find_slot_keeps:
  assumes writer: "fileinfo_writer P view ok ffi"
  shows "keeps fd s0 s \<Longrightarrow> find_slot P ffi n fd s = Some (i, s') \<Longrightarrow> i < 16 \<and> keeps fd s0 s'"
proof (induction n arbitrary: s)
  case 0
  then show ?case by simp
next
  case (Suc n)
  show ?case
  proof (cases "empty_slot (f_buffer (the_file s fd))")
    case None
    with Suc.prems(2) obtain rc s1 where s1: "fat_next_sector_with P ffi fd s = Some (rc, s1)"
      "find_slot P ffi n fd s1 = Some (i, s')"
      by (auto split: Option.bind_splits)
    show ?thesis
      using Suc.IH [OF presD [OF fileinfo_writer.pres_next_sector [OF writer Suc.prems(1)] s1(1)] s1(2)] .
  next
    case (Some j)
    then show ?thesis using Suc.prems empty_slot_less by auto
  qed
qed

lemma keeps_take_slot:
  assumes "keeps fd s0 s" and "i < 16" and "fd < 4 \<Longrightarrow> wf_file saved"
  shows "keeps fd s0 (upd_file fd (take_slot saved i) s)"
  using assms(1)
  by (rule keeps_upd) (use assms(2,3) slot_number in \<open>simp add: wf_file_def take_slot_def\<close>)

lemma pres_store:
  assumes "keeps fd s0 s" and "fd < 4 \<Longrightarrow> length (dirent_bytes de) = 32"
  shows "pres fd s0 (Some (store_fileinfo P fd de s))"
  using keeps_store_fileinfo [OF assms] by (auto simp: pres_def)

lemma pres_slot:
  assumes writer: "fileinfo_writer P view ok ffi" and "keeps fd s0 s"
    and "fd < 4 \<Longrightarrow> wf_file saved" and "fd < 4 \<Longrightarrow> length (dirent_bytes de) = 32"
  shows "pres fd s0 (do {
      (i, s3) \<leftarrow> find_slot P ffi n fd s;
      Some (store_fileinfo P fd de (upd_file fd (take_slot saved i) s3)) })"
proof (cases "find_slot P ffi n fd s")
  case None
  then show ?thesis by (simp add: pres_def)
next
  case (Some r)
  obtain i s3 where r: "r = (i, s3)" by fastforce
  with Some find_slot_keeps [OF writer assms(2)] have "i < 16" "keeps fd s0 s3" by auto
  then show ?thesis
    using pres_store [OF keeps_take_slot [OF _ _ assms(3)] assms(4)] Some r by simp
qed

lemma fileinfo_step_keeps:
  assumes writer: "fileinfo_writer P view ok (fat_flush_fileinfo P n)" and wf: "wf_state s"
  shows "pres fd s (fat_flush_fileinfo P (Suc n) fd s)"
proof -
  have de: "fd < 4 \<Longrightarrow> length (dirent_bytes (fileinfo_dirent (plat_junk P 12) (the_file s fd))) = 32"
    using wf_state_file [OF wf] by simp
  have k0: "keeps fd s s" using keeps_refl [OF wf] .
  have saved: "fd < 4 \<Longrightarrow> wf_file (the_file s1 fd)" if "keeps fd s s1" for s1
    using wf_state_file [OF keeps_wf [OF that]] .
  show ?thesis
    unfolding fat_flush_fileinfo.simps Let_def
    by (intro pres_slot [OF writer] pres_store pres_rules fileinfo_writer.pres_flush [OF writer] de;
        (assumption | rule k0 | erule (1) saved)?)
qed

lemma fileinfo_writer: "fileinfo_writer P view ok (fat_flush_fileinfo P n)"
proof (induction n)
  case 0
  show ?case by unfold_locales simp
next
  case (Suc n)
  show ?case
    by unfold_locales (rule presD [OF fileinfo_step_keeps [OF Suc.IH]])
qed

end

interpretation pc_ffi: fileinfo_writer "pc_platform clk junk" pc_view pc_ok
  "fat_flush_fileinfo (pc_platform clk junk) n" for clk junk n
  by (rule pc.fileinfo_writer)

end
