(* ===== verification/Fat_Lookup.thy ===== *)
theory Fat_Lookup
  imports Fat_File
begin

text \<open>
  Path lookup: \<open>fat_lookup_path\<close> of gristle.c, which walks the directories named by a path with
  the file structure of the descriptor that is being opened. The search through the blocks of a
  directory is bounded by a fuel, like the functions it calls.
\<close>

section \<open>Model\<close>

text \<open>\<open>strncmp(a, b, n) == 0\<close>: the comparison stops at a terminator both strings share.\<close>

fun strncmp_eq :: "nat \<Rightarrow> byte list \<Rightarrow> byte list \<Rightarrow> bool" where
  "strncmp_eq (Suc n) (a # as) (b # bs) \<longleftrightarrow> a = b \<and> (a = 0 \<or> strncmp_eq n as bs)"
| "strncmp_eq _ _ _ \<longleftrightarrow> True"

text \<open>The loop over the sixteen entries of a block: an unused entry, a match, or neither.\<close>

datatype scan_result = Scan_end | Scan_hit nat | Scan_full

fun scan_block :: "byte list \<Rightarrow> sector \<Rightarrow> nat list \<Rightarrow> scan_result" where
  "scan_block dosname buf [] = Scan_full"
| "scan_block dosname buf (i # ks) =
    (if buf ! (i * 32) = 0 then Scan_end
     else if strncmp_eq 11 dosname (drop (i * 32) buf) then Scan_hit i
     else scan_block dosname buf ks)"

text \<open>The loop over the blocks of the directory; the result is the entry found, if any.\<close>

primrec lookup_scan ::
  "'d platform \<Rightarrow> nat \<Rightarrow> nat \<Rightarrow> nat \<Rightarrow> byte list \<Rightarrow> 'd gstate \<Rightarrow> (nat option \<times> 'd gstate) option" where
  "lookup_scan P n 0 fd dosname s = None"
| "lookup_scan P n (Suc m) fd dosname s =
    (case scan_block dosname (f_buffer (the_file s fd)) [0..<16] of
       Scan_end \<Rightarrow> Some (None, s)
     | Scan_hit i \<Rightarrow> Some (Some i, s)
     | Scan_full \<Rightarrow>
         do {
           (rc, s1) \<leftarrow> fat_next_sector P n fd s;
           if rc \<noteq> 0 then Some (None, s1) else lookup_scan P n m fd dosname s1 })"

text \<open>The first cluster a directory entry names.\<close>

definition dirent_cluster :: "fat_info \<Rightarrow> direntS \<Rightarrow> u32" where
  "dirent_cluster v de =
    (if fs_type v = PART_TYPE_FAT16 then ucast (de_first_cluster de)
     else ucast (de_first_cluster de) + push_bit 16 (ucast (de_high_first_cluster de)))"

definition or_root :: "fat_info \<Rightarrow> u32 \<Rightarrow> u32" where
  "or_root v c = (if c = 0 then root_cluster v else c)"

definition set_name :: "byte list \<Rightarrow> FileS \<Rightarrow> FileS" where
  "set_name dosname f = f\<lparr>f_filename := take 8 dosname, f_extension := take 3 (drop 8 dosname)\<rparr>"

definition entry_at :: "sector \<Rightarrow> nat \<Rightarrow> direntS" where
  "entry_at buf i = dirent_of (slice (i * 32) 32 buf)"

text \<open>The file structure set up from the entry at the end of the path.\<close>

definition open_entry :: "fat_info \<Rightarrow> nat \<Rightarrow> direntS \<Rightarrow> FileS \<Rightarrow> FileS" where
  "open_entry v i de f =
    f\<lparr>f_error := 0, f_flags := FAT_FLAG_OPEN, f_filename := de_filename de,
      f_extension := de_extension de, f_attributes := de_attributes de, f_size := de_size de,
      f_full_first_cluster := or_root v (dirent_cluster v de),
      f_entry_sector := f_sector f, f_entry_number := of_nat i, f_file_sector := 0,
      f_created := fat_to_unix_date (de_create_date de) + fat_to_unix_time (de_create_time de) +
        uint (de_create_time_fine de),
      f_modified := fat_to_unix_date (de_modified_date de) + fat_to_unix_time (de_modified_date de),
      f_accessed := fat_to_unix_date (de_access_date de)\<rparr>"

text \<open>
  The loop over the path elements: \<open>depth < levels\<close> in the code says that elements follow. The
  test \<open>depth > levels\<close> at its head is never true. The result is the return code with the value of
  \<open>rerrno\<close>, which is left alone on success.
\<close>

fun lookup_elements ::
  "'d platform \<Rightarrow> nat \<Rightarrow> nat \<Rightarrow> byte list list \<Rightarrow> byte list \<Rightarrow> byte list \<Rightarrow> int \<Rightarrow> 'd gstate \<Rightarrow>
    ((int \<times> int) \<times> 'd gstate) option" where
  "lookup_elements P n fd [] dosname dosname2 rerrno s = Some ((0, rerrno), s)"
| "lookup_elements P n fd (element # rest) dosname dosname2 rerrno s =
    (case element_dos_name element dosname dosname2 of
       None \<Rightarrow> Some ((- 1, EIO), s)
     | Some (dosname', dosname2') \<Rightarrow>
         do {
           (found, s1) \<leftarrow> lookup_scan P n n fd dosname' s;
           (case found of
              None \<Rightarrow>
                Some ((- 1, if rest \<noteq> [] then GRISTLE_BAD_PATH else ENOENT),
                  upd_file fd (set_name dosname') s1)
            | Some i \<Rightarrow>
                let v = fatfs s1; de = entry_at (f_buffer (the_file s1 fd)) i in
                if has (de_attributes de) 0x10 \<and> rest \<noteq> [] then
                  let c = or_root v (dirent_cluster v de);
                      s2 = upd_file fd (\<lambda>f. f\<lparr>f_parent_cluster := c\<rparr>) s1 in
                  lookup_elements P n fd rest dosname' dosname2' rerrno
                    (snd (fat_select_cluster P fd c s2))
                else if rest \<noteq> [] then Some ((- 1, ENOTDIR), s1)
                else
                  let s2 = upd_file fd (open_entry v i de) s1 in
                  Some ((0, rerrno),
                    snd (fat_select_cluster P fd (f_full_first_cluster (the_file s2 fd)) s2))) })"

definition open_root :: "fat_info \<Rightarrow> FileS \<Rightarrow> FileS" where
  "open_root v f =
    f\<lparr>f_full_first_cluster := root_cluster v, f_entry_sector := 0, f_entry_number := 0,
      f_file_sector := 0, f_attributes := FAT_ATT_SUBDIR, f_size := 0, f_accessed := 0,
      f_modified := 0, f_created := 0\<rparr>"

definition fat_lookup_path ::
  "'d platform \<Rightarrow> nat \<Rightarrow> nat \<Rightarrow> byte list \<Rightarrow> int \<Rightarrow> 'd gstate \<Rightarrow> ((int \<times> int) \<times> 'd gstate) option" where
  "fat_lookup_path P n fd path rerrno s =
    (if length path > 99 then Some ((- 1, ENAMETOOLONG), s)
     else
       let s1 = snd (fat_select_cluster P fd (root_cluster (fatfs s)) s) in
       if path_elements path = [] then
         let s2 = upd_file fd (open_root (fatfs s1)) s1 in
         Some ((0, rerrno), snd (fat_select_cluster P fd (f_full_first_cluster (the_file s2 fd)) s2))
       else
         let s2 = upd_file fd (\<lambda>f. f\<lparr>f_parent_cluster := root_cluster (fatfs s1)\<rparr>) s1 in
         lookup_elements P n fd (path_elements path)
           (map (plat_junk P) [12..<24]) (map (plat_junk P) [24..<37]) rerrno s2)"

section \<open>The lookup keeps the invariant\<close>

lemma scan_block_hit: "scan_block dn buf ks = Scan_hit i \<Longrightarrow> i \<in> set ks"
  by (induction ks) (auto split: if_splits)

lemma dirent_of_lengths [simp]:
  "length b = 32 \<Longrightarrow> length (de_filename (dirent_of b)) = 8"
  "length b = 32 \<Longrightarrow> length (de_extension (dirent_of b)) = 3"
  by (simp_all add: dirent_of_def)

lemma keeps_open_entry:
  assumes "keeps fd s0 s" and "i < 16" and "fd < 4 \<Longrightarrow> length buf = 512"
  shows "keeps fd s0 (upd_file fd (open_entry v i (entry_at buf i)) s)"
  using assms(1)
proof (rule keeps_upd)
  assume "fd < 4" and "wf_file (the_file s fd)"
  moreover have "length (slice (i * 32) 32 buf) = 32"
    using assms(2) assms(3) [OF \<open>fd < 4\<close>] by simp
  ultimately show "wf_file (open_entry v i (entry_at buf i) (the_file s fd))"
    using assms(2) slot_number by (simp add: wf_file_def open_entry_def entry_at_def)
qed

lemma keeps_set_name:
  "keeps fd s0 s \<Longrightarrow> length dn = 12 \<Longrightarrow> keeps fd s0 (upd_file fd (set_name dn) s)"
  by (erule keeps_upd) (simp add: wf_file_def set_name_def)

lemma keeps_parent [pres_rules]:
  "keeps fd s0 s \<Longrightarrow> keeps fd s0 (upd_file fd (\<lambda>f. f\<lparr>f_parent_cluster := h f\<rparr>) s)"
  by (erule keeps_upd) (simp add: wf_file_def)

lemma keeps_open_root [pres_rules]:
  "keeps fd s0 s \<Longrightarrow> keeps fd s0 (upd_file fd (open_root v) s)"
  by (erule keeps_upd) (simp add: wf_file_def open_root_def)

lemma keeps_buffer: "keeps fd s0 s \<Longrightarrow> fd < 4 \<Longrightarrow> length (f_buffer (the_file s fd)) = 512"
  using wf_state_file [OF keeps_wf] by (fastforce simp: wf_file_def)

context block_device
begin

lemma pres_fat_next_sector [pres_rules]: "keeps fd s0 s \<Longrightarrow> pres fd s0 (fat_next_sector P n fd s)"
  unfolding fat_next_sector_def by (rule fileinfo_writer.pres_next_sector [OF fileinfo_writer])

lemma pres_fat_next_cluster [pres_rules]: "keeps fd s0 s \<Longrightarrow> pres fd s0 (fat_next_cluster P n fd s)"
  unfolding fat_next_cluster_def by (rule fileinfo_writer.pres_next_cluster [OF fileinfo_writer])

lemma pres_fat_flush [pres_rules]: "keeps fd s0 s \<Longrightarrow> pres fd s0 (fat_flush P n fd s)"
  unfolding fat_flush_def by (rule fileinfo_writer.pres_flush [OF fileinfo_writer])

lemma pres_fat_flush_fileinfo [pres_rules]:
  "keeps fd s0 s \<Longrightarrow> pres fd s0 (fat_flush_fileinfo P n fd s)"
  by (rule fileinfo_writer.pres_ffi [OF fileinfo_writer])

lemma lookup_scan_keeps:
  "keeps fd s0 s \<Longrightarrow> lookup_scan P n m fd dn s = Some (r, s') \<Longrightarrow>
    keeps fd s0 s' \<and> (\<forall>i. r = Some i \<longrightarrow> i < 16)"
proof (induction m arbitrary: s)
  case 0
  then show ?case by simp
next
  case (Suc m)
  show ?case
  proof (cases "scan_block dn (f_buffer (the_file s fd)) [0..<16]")
    case Scan_full
    with Suc.prems(2) obtain rc s1 where s1: "fat_next_sector P n fd s = Some (rc, s1)"
      and rest: "(if rc \<noteq> 0 then Some (None, s1) else lookup_scan P n m fd dn s1) = Some (r, s')"
      by (auto split: Option.bind_splits)
    have "keeps fd s0 s1" using presD [OF pres_fat_next_sector [OF Suc.prems(1)] s1] .
    then show ?thesis using rest Suc.IH by (auto split: if_splits)
  qed (use Suc.prems scan_block_hit in \<open>fastforce+\<close>)
qed

lemma pres_lookup_elements:
  "keeps fd s0 s \<Longrightarrow> length dn = 12 \<Longrightarrow> pres fd s0 (lookup_elements P n fd es dn dn2 e s)"
proof (induction es arbitrary: dn dn2 s)
  case Nil
  then show ?case by (simp add: pres_def)
next
  case (Cons el rest)
  show ?case
  proof (cases "element_dos_name el dn dn2")
    case None
    then show ?thesis using Cons.prems(1) by (simp add: pres_def)
  next
    case (Some x)
    obtain dn' dn2' where x: "element_dos_name el dn dn2 = Some (dn', dn2')" using Some by (cases x) auto
    have len: "length dn' = 12" using element_dos_name_length(1) [OF x] Cons.prems(2) by simp
    show ?thesis
    proof (cases "lookup_scan P n n fd dn' s")
      case None
      then show ?thesis using x by (simp add: pres_def)
    next
      case (Some r)
      obtain found s1 where r: "lookup_scan P n n fd dn' s = Some (found, s1)" using Some by (cases r) auto
      have k1: "keeps fd s0 s1" and hit: "\<And>i. found = Some i \<Longrightarrow> i < 16"
        using lookup_scan_keeps [OF Cons.prems(1) r] by auto
      show ?thesis
        unfolding lookup_elements.simps x r Let_def option.case prod.case bind.bind_lunit
        using k1 len hit keeps_buffer [OF k1]
        by (auto simp: split: option.splits
            intro!: pres_rules Cons.IH keeps_set_name keeps_open_entry)
    qed
  qed
qed

lemma pres_lookup_path [pres_rules]:
  assumes "keeps fd s0 s"
  shows "pres fd s0 (fat_lookup_path P n fd path e s)"
  unfolding fat_lookup_path_def Let_def
  by (intro pres_rules pres_lookup_elements assms) simp

end

end
