(* ===== verification/Fat_Ops.thy ===== *)
theory Fat_Ops
  imports Fat_Lookup
begin

text \<open>
  The file operations of gristle.c: \<open>fat_open\<close>, \<open>fat_close\<close>, \<open>fat_lseek\<close>, \<open>fat_read\<close>,
  \<open>fat_write\<close>, \<open>fat_fstat\<close> and \<open>fat_get_next_dirent\<close>, with the descriptor table and the time
  stamps they keep. A result is the return code with the value of \<open>rerrno\<close>, and the new state;
  \<open>size_t\<close>, \<open>int\<close> and \<open>unsigned int\<close> have 32 bits, as on the targets the driver is written for.
\<close>

section \<open>Model\<close>

subsection \<open>Time stamps and descriptors\<close>

definition fat_update_atime :: "'d platform \<Rightarrow> nat \<Rightarrow> 'd gstate \<Rightarrow> 'd gstate" where
  "fat_update_atime P fd s =
    (case now P s of (t, s1) \<Rightarrow>
       if fat_from_unix_date (f_accessed (the_file s1 fd)) \<noteq> fat_from_unix_date t then
         (case now P s1 of (t', s2) \<Rightarrow>
            upd_file fd (\<lambda>f. f\<lparr>f_flags := f_flags f OR FAT_FLAG_FS_DIRTY\<rparr>)
              (upd_file fd (\<lambda>f. f\<lparr>f_accessed := t'\<rparr>) s2))
       else s1)"

definition fat_update_mtime :: "'d platform \<Rightarrow> nat \<Rightarrow> 'd gstate \<Rightarrow> 'd gstate" where
  "fat_update_mtime P fd s =
    (case now P s of (t, s1) \<Rightarrow>
       upd_file fd (\<lambda>f. f\<lparr>f_flags := f_flags f OR FAT_FLAG_FS_DIRTY\<rparr>)
         (upd_file fd (\<lambda>f. f\<lparr>f_modified := t\<rparr>) s1))"

definition fat_get_next_file :: "'d gstate \<Rightarrow> int \<times> 'd gstate" where
  "fat_get_next_file s =
    (case find (\<lambda>j. \<not> has (f_flags (the_file s j)) FAT_FLAG_OPEN) [0..<MAX_OPEN_FILES] of
       None \<Rightarrow> (- 1, s)
     | Some j \<Rightarrow> (int j, upd_file j (\<lambda>f. f\<lparr>f_flags := FAT_FLAG_OPEN\<rparr>) s))"

subsection \<open>Opening\<close>

definition open_flags :: "u32 \<Rightarrow> byte \<Rightarrow> byte" where
  "open_flags flags g =
    (let g1 = (if has flags O_RDWR then g OR (FAT_FLAG_READ OR FAT_FLAG_WRITE)
               else if flags AND O_WRONLY = 0 then g OR FAT_FLAG_READ
               else g OR FAT_FLAG_WRITE) in
     if has flags O_APPEND then g1 OR FAT_FLAG_APPEND else g1)"

text \<open>The structure of a file that does not exist yet; \<open>created\<close> is the current time.\<close>

definition new_file :: "u32 \<Rightarrow> int \<Rightarrow> FileS \<Rightarrow> FileS" where
  "new_file mode t f =
    f\<lparr>f_sector := 0, f_cluster := 0, f_sectors_left := 0, f_cursor := 0, f_error := 0,
      f_attributes := (if has mode S_IWUSR then FAT_ATT_ARC else FAT_ATT_ARC OR FAT_ATT_RO),
      f_size := 0, f_full_first_cluster := 0, f_entry_sector := 0, f_entry_number := 0,
      f_file_sector := 0, f_created := t, f_modified := 0, f_accessed := 0,
      f_buffer := replicate 512 0\<rparr>"

text \<open>\<open>O_TRUNC\<close>, after the clusters have been freed.\<close>

definition truncate_file :: "int \<Rightarrow> int \<Rightarrow> FileS \<Rightarrow> FileS" where
  "truncate_file t t' f =
    f\<lparr>f_size := 0, f_full_first_cluster := 0, f_sector := 0, f_cluster := 0, f_sectors_left := 0,
      f_file_sector := 0, f_created := t, f_modified := t',
      f_flags := f_flags f OR FAT_FLAG_FS_DIRTY\<rparr>"

abbreviation fail_open :: "nat \<Rightarrow> int \<Rightarrow> 'd gstate \<Rightarrow> ((int \<times> int) \<times> 'd gstate) option" where
  "fail_open fd e s \<equiv> Some ((- 1, e), upd_file fd (\<lambda>f. f\<lparr>f_flags := 0\<rparr>) s)"

abbreviation rewind :: "nat \<Rightarrow> 'd gstate \<Rightarrow> 'd gstate" where
  "rewind fd s \<equiv> upd_file fd (\<lambda>f. f\<lparr>f_file_sector := 0\<rparr>) s"

definition open_new ::
  "'d platform \<Rightarrow> nat \<Rightarrow> u32 \<Rightarrow> u32 \<Rightarrow> 'd gstate \<Rightarrow> ((int \<times> int) \<times> 'd gstate) option" where
  "open_new P fd flags mode s =
    (if flags AND O_CREAT = 0 then fail_open fd ENOENT s
     else if read_only (fatfs s) \<noteq> 0 then fail_open fd EROFS s
     else (case now P s of (t, s1) \<Rightarrow> Some ((int fd, 0), upd_file fd (new_file mode t) s1)))"

definition open_existing ::
  "'d platform \<Rightarrow> nat \<Rightarrow> u32 \<Rightarrow> int \<Rightarrow> 'd gstate \<Rightarrow> ((int \<times> int) \<times> 'd gstate) option" where
  "open_existing P fd flags rerrno s =
    (if has flags O_CREAT \<and> has flags O_EXCL then fail_open fd EEXIST s
     else if flags AND (O_WRONLY OR O_RDWR) = 0 then Some ((int fd, rerrno), rewind fd s)
     else if read_only (fatfs s) \<noteq> 0 then fail_open fd EROFS s
     else if has (f_attributes (the_file s fd)) FAT_ATT_RO then fail_open fd EACCES s
     else if has (f_attributes (the_file s fd)) FAT_ATT_SUBDIR then
       if rerrno = FAT_INTERNAL_CALL then Some ((int fd, rerrno), rewind fd s)
       else fail_open fd EISDIR s
     else if has flags O_TRUNC then
       do {
         (_, s1) \<leftarrow> fat_free_clusters P (f_full_first_cluster (the_file s fd)) s;
         (case now P s1 of (t, s2) \<Rightarrow>
            (case now P s2 of (t', s3) \<Rightarrow>
               Some ((int fd, rerrno), rewind fd (upd_file fd (truncate_file t t') s3)))) }
     else Some ((int fd, rerrno), rewind fd s))"

definition fat_open ::
  "'d platform \<Rightarrow> nat \<Rightarrow> byte list \<Rightarrow> u32 \<Rightarrow> u32 \<Rightarrow> int \<Rightarrow> 'd gstate \<Rightarrow>
    ((int \<times> int) \<times> 'd gstate) option" where
  "fat_open P n name flags mode rerrno s =
    (case fat_get_next_file s of (fd', s0) \<Rightarrow>
       if fd' < 0 then Some ((- 1, ENFILE), s0)
       else
         let fd = nat fd' in
         do {
           ((i, e), s1) \<leftarrow> fat_lookup_path P n fd name rerrno s0;
           let s2 = upd_file fd (\<lambda>f. f\<lparr>f_flags := open_flags flags (f_flags f)\<rparr>) s1 in
           if i = - 1 \<and> e = ENOENT then open_new P fd flags mode s2
           else if i = - 1 \<and> e = GRISTLE_BAD_PATH then fail_open fd ENOENT s2
           else if i = 0 then open_existing P fd flags e s2
           else fail_open fd e s2 })"

subsection \<open>Closing\<close>

text \<open>\<open>fd >= MAX_OPEN_FILES\<close> or not open: the first checks of the operations on a descriptor.\<close>

definition bad_fd :: "nat \<Rightarrow> 'd gstate \<Rightarrow> bool" where
  "bad_fd fd s \<longleftrightarrow> fd \<ge> MAX_OPEN_FILES \<or> \<not> has (f_flags (the_file s fd)) FAT_FLAG_OPEN"

definition fat_close ::
  "'d platform \<Rightarrow> nat \<Rightarrow> nat \<Rightarrow> 'd gstate \<Rightarrow> ((int \<times> int) \<times> 'd gstate) option" where
  "fat_close P n fd s =
    (if bad_fd fd s then Some ((- 1, EBADF), s)
     else do {
       (rc, s1) \<leftarrow> (if has (f_flags (the_file s fd)) FAT_FLAG_DIRTY then fat_flush P n fd s
                    else Some (0, s));
       if rc \<noteq> 0 then Some ((- 1, EIO), s1)
       else do {
         (rc', s2) \<leftarrow> (if has (f_flags (the_file s1 fd)) FAT_FLAG_FS_DIRTY
                       then fat_flush_fileinfo P n fd s1 else Some (0, s1));
         if rc' \<noteq> 0 then Some ((- 1, EIO), s2)
         else Some ((0, 0), upd_file fd (\<lambda>f. f\<lparr>f_flags := 0\<rparr>) s2) } })"

subsection \<open>Seeking\<close>

text \<open>The position of the cursor in the file, in \<open>unsigned int\<close> arithmetic.\<close>

definition file_pos :: "FileS \<Rightarrow> u32" where
  "file_pos f = ucast (f_cursor f) + f_file_sector f * 512"

definition lseek_target :: "FileS \<Rightarrow> int \<Rightarrow> int \<Rightarrow> u32" where
  "lseek_target f ptr dir =
    (if dir = SEEK_SET then word_of_int ptr
     else if dir = SEEK_CUR then file_pos f + word_of_int ptr
     else f_size f + word_of_int ptr)"

text \<open>Case 2: another sector of the same cluster.\<close>

definition seek_in_cluster :: "u32 \<Rightarrow> u32 \<Rightarrow> FileS \<Rightarrow> FileS" where
  "seek_in_cluster new_pos old_pos f =
    f\<lparr>f_file_sector := new_pos div 512,
      f_sector := f_sector f + new_pos div 512 - old_pos div 512,
      f_sectors_left := ucast (ucast (f_sectors_left f) - new_pos div 512 + old_pos div 512),
      f_cursor := ucast (new_pos AND 0x1FF)\<rparr>"

text \<open>The walk along the cluster chain, with the last value of \<open>rerrno\<close>.\<close>

primrec seek_chain ::
  "'d platform \<Rightarrow> nat \<Rightarrow> nat \<Rightarrow> nat \<Rightarrow> int \<Rightarrow> 'd gstate \<Rightarrow> (int \<times> 'd gstate) option" where
  "seek_chain P n fd 0 e s = Some (e, s)"
| "seek_chain P n fd (Suc k) e s =
    do {
      ((c, e'), s1) \<leftarrow> fat_next_cluster P n fd s;
      seek_chain P n fd k e' (upd_file fd (\<lambda>f. f\<lparr>f_cluster := word_of_int c\<rparr>) s1) }"

definition seek_arrive :: "fat_info \<Rightarrow> u32 \<Rightarrow> u32 \<Rightarrow> FileS \<Rightarrow> FileS" where
  "seek_arrive v new_pos file_cluster f =
    (let new_sec = (new_pos - file_cluster * ucast (sectors_per_cluster v) * 512) div 512 in
     f\<lparr>f_file_sector := new_pos div 512, f_cursor := ucast (new_pos AND 0x1FF),
       f_sector := cluster_sector v (f_cluster f) + new_sec,
       f_sectors_left := sectors_per_cluster v - ucast new_sec - 1\<rparr>)"

definition fat_lseek ::
  "'d platform \<Rightarrow> nat \<Rightarrow> nat \<Rightarrow> int \<Rightarrow> int \<Rightarrow> 'd gstate \<Rightarrow> ((int \<times> int) \<times> 'd gstate) option" where
  "fat_lseek P n fd ptr dir s =
    (if bad_fd fd s then Some ((ptr - 1, EBADF), s)
     else do {
       (_, s1) \<leftarrow> fat_flush P n fd s;
       let f = the_file s1 fd; old_pos = file_pos f; new_pos = lseek_target f ptr dir in
       if new_pos > f_size f \<and> \<not> has (f_attributes f) FAT_ATT_SUBDIR then Some ((ptr - 1, 0), s1)
       else do {
         (_, s2) \<leftarrow> (if f_cursor f = 512 then fat_next_sector P n fd s1 else Some (0, s1));
         let v = fatfs s2; cluster_bytes = ucast (sectors_per_cluster v) * 512 in
         if old_pos div 512 = new_pos div 512 then
           Some ((sint new_pos, 0),
             upd_file fd (\<lambda>f. f\<lparr>f_cursor := ucast (new_pos AND 0x1FF)\<rparr>) s2)
         else if new_pos div cluster_bytes = old_pos div cluster_bytes then
           let s3 = upd_file fd (seek_in_cluster new_pos old_pos) s2 in
           (case file_block_read P fd (f_sector (the_file s3 fd)) s3 of (rc, s4) \<Rightarrow>
              if rc \<noteq> 0 then Some ((ptr - 1, 0), s4) else Some ((sint new_pos, 0), s4))
         else
           let file_cluster = new_pos div cluster_bytes;
               s3 = upd_file fd (\<lambda>f. f\<lparr>f_cluster := f_full_first_cluster f\<rparr>) s2 in
           do {
             (e, s4) \<leftarrow> seek_chain P n fd (unat file_cluster) 0 s3;
             let s5 = upd_file fd (seek_arrive v new_pos file_cluster) s4 in
             (case file_block_read P fd (f_sector (the_file s5 fd)) s5 of (rc, s6) \<Rightarrow>
                if rc \<noteq> 0 then Some ((ptr - 1, e), s6) else Some ((sint new_pos, e), s6)) } } })"

subsection \<open>Reading and writing\<close>

text \<open>At the end of a regular file; directories have no length.\<close>

definition at_eof :: "FileS \<Rightarrow> bool" where
  "at_eof f \<longleftrightarrow> \<not> has (f_attributes f) FAT_ATT_SUBDIR \<and> file_pos f \<ge> f_size f"

definition take_byte :: "FileS \<Rightarrow> FileS" where
  "take_byte f = f\<lparr>f_cursor := f_cursor f + 1\<rparr>"

text \<open>The loop of \<open>fat_read\<close>: \<open>k\<close> bytes are still wanted; the result is the bytes delivered.\<close>

primrec read_loop ::
  "'d platform \<Rightarrow> nat \<Rightarrow> nat \<Rightarrow> nat \<Rightarrow> 'd gstate \<Rightarrow> (byte list \<times> 'd gstate) option" where
  "read_loop P n fd 0 s = Some ([], s)"
| "read_loop P n fd (Suc k) s =
    (if at_eof (the_file s fd) then Some ([], s)
     else do {
       (rc, s1) \<leftarrow> (if f_cursor (the_file s fd) = 512 then fat_next_sector P n fd s
                    else Some (0, s));
       if rc \<noteq> 0 then Some ([], s1)
       else do {
         (bs, s2) \<leftarrow> read_loop P n fd k (upd_file fd take_byte s1);
         Some (f_buffer (the_file s1 fd) ! unat (f_cursor (the_file s1 fd)) # bs, s2) } })"

definition fat_read ::
  "'d platform \<Rightarrow> nat \<Rightarrow> nat \<Rightarrow> u32 \<Rightarrow> 'd gstate \<Rightarrow> ((int \<times> int \<times> byte list) \<times> 'd gstate) option" where
  "fat_read P n fd count s =
    (if fd \<ge> MAX_OPEN_FILES then Some ((- 1, EBADF, []), s)
     else if has (NOT (f_flags (the_file s fd))) (FAT_FLAG_OPEN OR FAT_FLAG_READ)
     then Some ((- 1, EBADF, []), s)
     else do {
       (bs, s1) \<leftarrow> read_loop P n fd (unat count) s;
       Some ((sint (of_nat (length bs) :: u32), 0, bs),
             if bs \<noteq> [] then fat_update_atime P fd s1 else s1) })"

text \<open>One byte put into the buffer, which must not be full; a write at the end makes the file grow.\<close>

definition put_byte :: "byte \<Rightarrow> FileS \<Rightarrow> FileS" where
  "put_byte b f =
    (let f1 = (if \<not> has (f_attributes f) FAT_ATT_SUBDIR \<and> file_pos f = f_size f
               then f\<lparr>f_size := f_size f + 1, f_flags := f_flags f OR FAT_FLAG_FS_DIRTY\<rparr>
               else f) in
     f1\<lparr>f_buffer := (f_buffer f1)[unat (f_cursor f1) := b], f_cursor := f_cursor f1 + 1,
        f_flags := f_flags f1 OR FAT_FLAG_DIRTY\<rparr>)"

text \<open>The loop of \<open>fat_write\<close>; the flag says whether all bytes were taken.\<close>

primrec write_loop ::
  "'d platform \<Rightarrow> nat \<Rightarrow> nat \<Rightarrow> byte list \<Rightarrow> 'd gstate \<Rightarrow> (bool \<times> 'd gstate) option" where
  "write_loop P n fd [] s = Some (True, s)"
| "write_loop P n fd (b # bs) s =
    do {
      (rc, s1) \<leftarrow> (if f_cursor (the_file s fd) = 512 then fat_next_sector P n fd s
                   else Some (0, s));
      if rc \<noteq> 0 then Some (False, s1)
      else write_loop P n fd bs (upd_file fd (put_byte b) s1) }"

definition fat_write ::
  "'d platform \<Rightarrow> nat \<Rightarrow> nat \<Rightarrow> byte list \<Rightarrow> 'd gstate \<Rightarrow> ((int \<times> int) \<times> 'd gstate) option" where
  "fat_write P n fd data s =
    (if fd \<ge> MAX_OPEN_FILES then Some ((- 1, EBADF), s)
     else if has (NOT (f_flags (the_file s fd))) (FAT_FLAG_OPEN OR FAT_FLAG_WRITE)
     then Some ((- 1, EBADF), s)
     else do {
       ((_, e), s1) \<leftarrow> (if has (f_flags (the_file s fd)) FAT_FLAG_APPEND
                        then fat_lseek P n fd 0 SEEK_END s else Some ((0, 0), s));
       (all_taken, s2) \<leftarrow> write_loop P n fd data s1;
       if \<not> all_taken then Some ((- 1, EIO), s2)
       else Some ((sint (of_nat (length data) :: u32), e),
                  if data \<noteq> [] then fat_update_mtime P fd s2 else s2) })"

subsection \<open>Status and directory listing\<close>

definition stat_of :: "FileS \<Rightarrow> stat" where
  "stat_of f =
    \<lparr>st_dev = 0, st_ino = 0,
     st_mode = (if has (f_attributes f) FAT_ATT_SUBDIR then S_IFDIR else S_IFREG),
     st_nlink = 1, st_uid = 0, st_gid = 0, st_rdev = 0, st_size = f_size f,
     st_atime = f_accessed f, st_mtime = f_modified f, st_ctime = f_created f,
     st_blksize = 512, st_blocks = 1\<rparr>"

definition fat_fstat :: "nat \<Rightarrow> 'd gstate \<Rightarrow> int \<times> int \<times> stat option" where
  "fat_fstat fd s =
    (if bad_fd fd s then (- 1, EBADF, None) else (0, 0, Some (stat_of (the_file s fd))))"

text \<open>Long names, volume labels and deleted entries are skipped.\<close>

definition hidden_entry :: "direntS \<Rightarrow> bool" where
  "hidden_entry de \<longleftrightarrow>
    de_attributes de = 0xF \<or> has (de_attributes de) FAT_ATT_VOL \<or> de_filename de ! 0 = 0xE5"

text \<open>A \<open>struct dirent\<close>: \<open>d_name\<close> and \<open>d_ino\<close>.\<close>

primrec next_dirent_loop ::
  "'d platform \<Rightarrow> nat \<Rightarrow> nat \<Rightarrow> nat \<Rightarrow> 'd gstate \<Rightarrow>
    ((int \<times> int \<times> (byte list \<times> u32) option) \<times> 'd gstate) option" where
  "next_dirent_loop P n 0 fd s = None"
| "next_dirent_loop P n (Suc m) fd s =
    do {
      ((rc, e, bs), s1) \<leftarrow> fat_read P n fd 32 s;
      if rc < 32 then Some ((- 1, e, None), s1)
      else
        let de = dirent_of bs in
        if de_filename de ! 0 = 0 then Some ((- 1, 0, None), s1)
        else if \<not> hidden_entry de then
          Some ((0, e, Some (fatname_to_str (de_filename de @ de_extension de),
                             dirent_cluster (fatfs s1) de)), s1)
        else next_dirent_loop P n m fd s1 }"

definition fat_get_next_dirent ::
  "'d platform \<Rightarrow> nat \<Rightarrow> nat \<Rightarrow> 'd gstate \<Rightarrow>
    ((int \<times> int \<times> (byte list \<times> u32) option) \<times> 'd gstate) option" where
  "fat_get_next_dirent P n fd s = next_dirent_loop P n n fd s"

section \<open>The operations keep the invariant\<close>

lemma keeps_now: "keeps fd s0 s \<Longrightarrow> now P s = (t, s') \<Longrightarrow> keeps fd s0 s'"
  by (erule keeps_same) (auto simp: now_def)

lemma pres_now [pres_rules]:
  assumes "keeps fd s0 s" and "\<And>t s'. keeps fd s0 s' \<Longrightarrow> pres fd s0 (k t s')"
  shows "pres fd s0 (case now P s of (t, s') \<Rightarrow> k t s')"
  by (rule pres_call [OF keeps_now [OF assms(1)] assms(2)])

lemma keeps_accessed [pres_rules]:
  "keeps fd s0 s \<Longrightarrow> keeps fd s0 (upd_file fd (\<lambda>f. f\<lparr>f_accessed := h f\<rparr>) s)"
  by (erule keeps_upd) (simp add: wf_file_def)

lemma keeps_modified [pres_rules]:
  "keeps fd s0 s \<Longrightarrow> keeps fd s0 (upd_file fd (\<lambda>f. f\<lparr>f_modified := h f\<rparr>) s)"
  by (erule keeps_upd) (simp add: wf_file_def)

lemma keeps_cluster [pres_rules]:
  "keeps fd s0 s \<Longrightarrow> keeps fd s0 (upd_file fd (\<lambda>f. f\<lparr>f_cluster := h f\<rparr>) s)"
  by (erule keeps_upd) (simp add: wf_file_def)

lemma keeps_new_file [pres_rules]:
  "keeps fd s0 s \<Longrightarrow> keeps fd s0 (upd_file fd (new_file mode t) s)"
  by (erule keeps_upd) (simp add: wf_file_def new_file_def)

lemma keeps_truncate [pres_rules]:
  "keeps fd s0 s \<Longrightarrow> keeps fd s0 (upd_file fd (truncate_file t t') s)"
  by (erule keeps_upd) (simp add: wf_file_def truncate_file_def)

lemma cursor_value: "unat (ucast ((w :: u32) AND 0x1FF) :: u16) = unat w mod 512"
proof -
  have "unat (w AND 0x1FF) = unat w mod 512"
    using word_block_split(2) [of "unat w"] unsigned_less [of w] by simp
  moreover have "unat w mod 512 < 2 ^ 16"
    by (rule less_trans [of _ 512]) simp_all
  ultimately show ?thesis
    by (simp only: unsigned_ucast_eq take_bit_nat_eq_self)
      (simp add: take_bit_nat_eq_self)
qed

lemma cursor_mask: "ucast ((w :: u32) AND 0x1FF) \<le> (512 :: u16)"
  unfolding word_le_nat_alt cursor_value by (simp add: order_less_imp_le)

lemma keeps_seek [pres_rules]:
  "keeps fd s0 s \<Longrightarrow> keeps fd s0 (upd_file fd (seek_in_cluster a b) s)"
  "keeps fd s0 s \<Longrightarrow> keeps fd s0 (upd_file fd (seek_arrive v a c) s)"
  "keeps fd s0 s \<Longrightarrow> keeps fd s0 (upd_file fd (\<lambda>f. f\<lparr>f_cursor := ucast (a AND 0x1FF)\<rparr>) s)"
  by (erule keeps_upd, simp add: wf_file_def seek_in_cluster_def seek_arrive_def Let_def cursor_mask)+

lemma next_cursor: "(c :: u16) \<le> 512 \<Longrightarrow> c \<noteq> 512 \<Longrightarrow> c + 1 \<le> 512"
  by unat_arith


lemma keeps_take_byte:
  assumes "keeps fd s0 s" and "f_cursor (the_file s fd) \<noteq> 512"
  shows "keeps fd s0 (upd_file fd take_byte s)"
  using assms(1) by (rule keeps_upd) (use assms(2) in \<open>simp add: wf_file_def take_byte_def next_cursor\<close>)

lemma keeps_put_byte:
  assumes "keeps fd s0 s" and "f_cursor (the_file s fd) \<noteq> 512"
  shows "keeps fd s0 (upd_file fd (put_byte b) s)"
  using assms(1)
  by (rule keeps_upd) (use assms(2) in \<open>simp add: wf_file_def put_byte_def Let_def next_cursor\<close>)

lemma keeps_update_time [pres_rules]:
  "keeps fd s0 s \<Longrightarrow> keeps fd s0 (fat_update_atime P fd s)"
  "keeps fd s0 s \<Longrightarrow> keeps fd s0 (fat_update_mtime P fd s)"
  by (auto simp: fat_update_atime_def fat_update_mtime_def now_def
      intro!: keeps_flags keeps_accessed keeps_modified elim: keeps_same)

lemma select_cursor:
  "fd < length (file_num s) \<Longrightarrow> fat_select_cluster P fd c s = (rc, s') \<Longrightarrow>
    f_cursor (the_file s' fd) = 0"
  by (auto simp: fat_select_cluster_def file_block_read_def Let_def split: prod.splits if_splits)

text \<open>A successful \<open>fat_next_sector\<close> puts the cursor at the start of the new block.\<close>

lemma next_sector_cursor:
  assumes "fat_next_sector P n fd s = Some (0, s')" and "fd < 4" and "length (file_num s') = 4"
  shows "f_cursor (the_file s' fd) = 0"
proof -
  obtain rc s1 where s1: "fat_flush_with P (fat_flush_fileinfo P n) fd s = Some (rc, s1)" "rc = 0"
    using assms(1)
    by (auto simp: fat_next_sector_def fat_next_sector_with_def split: Option.bind_splits if_splits)
  have read: "f_cursor (the_file s' fd) = 0"
    if "file_block_read P fd b (upd_file fd step_sector s1) = (0, s')" for b
    using that assms(2,3)
    by (auto simp: file_block_read_def step_sector_def split: prod.splits)
  have select: "f_cursor (the_file s' fd) = 0"
    if "fat_select_cluster P fd c s2 = (0, s')" for c s2
  proof (rule select_cursor [OF _ that])
    show "fd < length (file_num s2)"
      using that assms(2,3)
      by (auto simp: fat_select_cluster_def file_block_read_def Let_def split: prod.splits if_splits)
  qed
  show ?thesis
    using assms(1) s1 read select
    by (auto simp: fat_next_sector_def fat_next_sector_with_def Let_def
        split: Option.bind_splits if_splits)
qed

text \<open>The rooms for the next byte: what both loops do when the cursor is behind the buffer.\<close>

definition make_room :: "'d platform \<Rightarrow> nat \<Rightarrow> nat \<Rightarrow> 'd gstate \<Rightarrow> (int \<times> 'd gstate) option" where
  "make_room P n fd s =
    (if f_cursor (the_file s fd) = 512 then fat_next_sector P n fd s else Some (0, s))"

context block_device
begin

lemma pres_make_room [pres_rules]: "keeps fd s0 s \<Longrightarrow> pres fd s0 (make_room P n fd s)"
  unfolding make_room_def by (intro pres_rules; assumption?)

lemma make_room_cursor:
  assumes "keeps fd s0 s" and "fd < 4" and "make_room P n fd s = Some (0, s1)"
  shows "f_cursor (the_file s1 fd) \<noteq> 512"
proof (cases "f_cursor (the_file s fd) = 512")
  case True
  then have "fat_next_sector P n fd s = Some (0, s1)" using assms(3) by (simp add: make_room_def)
  moreover have "length (file_num s1) = 4"
    using presD [OF pres_make_room [OF assms(1)] assms(3)] by (simp add: keeps_def wf_state_def)
  ultimately show ?thesis using next_sector_cursor [OF _ assms(2)] by fastforce
next
  case False
  then show ?thesis using assms(3) by (simp add: make_room_def)
qed

lemma pres_read_loop [pres_rules]:
  "fd < 4 \<Longrightarrow> keeps fd s0 s \<Longrightarrow> pres fd s0 (read_loop P n fd k s)"
proof (induction k arbitrary: s)
  case 0
  then show ?case by (simp add: pres_def)
next
  case (Suc k)
  show ?case
  proof (cases "make_room P n fd s")
    case None
    then show ?thesis using Suc.prems(2) by (auto simp: make_room_def pres_def)
  next
    case (Some r)
    obtain rc s1 where r: "make_room P n fd s = Some (rc, s1)" using Some by (cases r) auto
    have k1: "keeps fd s0 s1" using presD [OF pres_make_room [OF Suc.prems(2)] r] .
    have "pres fd s0 (read_loop P n fd k (upd_file fd take_byte s1))" if "rc = 0"
      using Suc.IH [OF Suc.prems(1) keeps_take_byte [OF k1]] that
        make_room_cursor [OF Suc.prems(2,1)] r by simp
    then show ?thesis
      unfolding read_loop.simps make_room_def [symmetric] r
      using Suc.prems(2) k1 by (auto intro!: pres_rules)
  qed
qed

lemma pres_write_loop [pres_rules]:
  "fd < 4 \<Longrightarrow> keeps fd s0 s \<Longrightarrow> pres fd s0 (write_loop P n fd bs s)"
proof (induction bs arbitrary: s)
  case Nil
  then show ?case by (simp add: pres_def)
next
  case (Cons b bs)
  show ?case
  proof (cases "make_room P n fd s")
    case None
    then show ?thesis by (auto simp: make_room_def pres_def)
  next
    case (Some r)
    obtain rc s1 where r: "make_room P n fd s = Some (rc, s1)" using Some by (cases r) auto
    have k1: "keeps fd s0 s1" using presD [OF pres_make_room [OF Cons.prems(2)] r] .
    have "pres fd s0 (write_loop P n fd bs (upd_file fd (put_byte b) s1))" if "rc = 0"
      using Cons.IH [OF Cons.prems(1) keeps_put_byte [OF k1]] that
        make_room_cursor [OF Cons.prems(2,1)] r by simp
    then show ?thesis
      unfolding write_loop.simps make_room_def [symmetric] r
      using k1 by (auto intro!: pres_rules)
  qed
qed

lemma pres_seek_chain [pres_rules]:
  "keeps fd s0 s \<Longrightarrow> pres fd s0 (seek_chain P n fd k e s)"
proof (induction k arbitrary: e s)
  case 0
  then show ?case by (simp add: pres_def)
next
  case (Suc k)
  show ?case
    unfolding seek_chain.simps by (intro pres_rules Suc; assumption?)
qed

lemma pres_lseek [pres_rules]:
  "keeps fd s0 s \<Longrightarrow> pres fd s0 (fat_lseek P n fd ptr dir s)"
  unfolding fat_lseek_def Let_def by (intro pres_rules; assumption?)

lemma pres_fat_read [pres_rules]:
  "keeps fd s0 s \<Longrightarrow> pres fd s0 (fat_read P n fd count s)"
  unfolding fat_read_def by (intro pres_rules; (assumption | simp)?)

lemma pres_fat_write [pres_rules]:
  "keeps fd s0 s \<Longrightarrow> pres fd s0 (fat_write P n fd bs s)"
  unfolding fat_write_def by (intro pres_rules; (assumption | simp)?)

lemma pres_fat_close [pres_rules]:
  "keeps fd s0 s \<Longrightarrow> pres fd s0 (fat_close P n fd s)"
  unfolding fat_close_def by (intro pres_rules; assumption?)

lemma pres_next_dirent_loop:
  "keeps fd s0 s \<Longrightarrow> pres fd s0 (next_dirent_loop P n m fd s)"
proof (induction m arbitrary: s)
  case 0
  then show ?case by (simp add: pres_def)
next
  case (Suc m)
  show ?case
    unfolding next_dirent_loop.simps Let_def by (intro pres_rules Suc; assumption?)
qed

lemma pres_get_next_dirent [pres_rules]:
  "keeps fd s0 s \<Longrightarrow> pres fd s0 (fat_get_next_dirent P n fd s)"
  unfolding fat_get_next_dirent_def by (rule pres_next_dirent_loop)

lemma pres_open_new [pres_rules]:
  "keeps fd s0 s \<Longrightarrow> pres fd s0 (open_new P fd flags mode s)"
  unfolding open_new_def by (intro pres_rules; assumption?)

lemma pres_open_existing [pres_rules]:
  "keeps fd s0 s \<Longrightarrow> pres fd s0 (open_existing P fd flags e s)"
  unfolding open_existing_def by (intro pres_rules pres_free_clusters; assumption?)

lemma pres_fat_open_on:
  assumes "keeps fd s0 s"
  shows "pres fd s0 (do {
         ((i, e), s1) \<leftarrow> fat_lookup_path P n fd name rerrno s;
         let s2 = upd_file fd (\<lambda>f. f\<lparr>f_flags := open_flags flags (f_flags f)\<rparr>) s1 in
         if i = - 1 \<and> e = ENOENT then open_new P fd flags mode s2
         else if i = - 1 \<and> e = GRISTLE_BAD_PATH then fail_open fd ENOENT s2
         else if i = 0 then open_existing P fd flags e s2
         else fail_open fd e s2 })"
  unfolding Let_def by (intro pres_rules assms; assumption?)

end

lemma next_file_cases:
  assumes "fat_get_next_file s = (fd', s0)"
  obtains "fd' = - 1" "s0 = s" "\<forall>j<4. has (f_flags (the_file s j)) FAT_FLAG_OPEN"
  | j where "fd' = int j" "j < 4" "\<not> has (f_flags (the_file s j)) FAT_FLAG_OPEN"
      "s0 = upd_file j (\<lambda>f. f\<lparr>f_flags := FAT_FLAG_OPEN\<rparr>) s"
proof (cases "find (\<lambda>j. \<not> has (f_flags (the_file s j)) FAT_FLAG_OPEN) [0..<4]")
  case None
  then have "\<forall>j<4. has (f_flags (the_file s j)) FAT_FLAG_OPEN" by (simp add: find_None_iff)
  with None assms show ?thesis by (intro that(1)) (simp_all add: fat_get_next_file_def)
next
  case (Some j)
  then have "j < 4 \<and> \<not> has (f_flags (the_file s j)) FAT_FLAG_OPEN"
    unfolding find_Some_iff by (elim exE conjE) (simp del: upt_Suc)
  with Some assms show ?thesis by (intro that(2) [of j]) (simp_all add: fat_get_next_file_def)
qed

lemma open_result:
  "open_new P fd flags mode s = Some ((rc, e), s') \<Longrightarrow> rc = - 1 \<or> rc = int fd"
  "open_existing P fd flags e0 s = Some ((rc, e), s') \<Longrightarrow> rc = - 1 \<or> rc = int fd"
  by (auto simp: open_new_def open_existing_def split: if_splits prod.splits Option.bind_splits)

lemma open_on_result:
  assumes "do {
         ((i, e), s1) \<leftarrow> m;
         let s2 = upd_file fd (g s1) s1 in
         if i = - 1 \<and> e = ENOENT then open_new P fd flags mode s2
         else if i = - 1 \<and> e = GRISTLE_BAD_PATH then fail_open fd ENOENT s2
         else if i = 0 then open_existing P fd flags e s2
         else fail_open fd e s2 } = Some ((rc, e'), s')"
  shows "rc = - 1 \<or> rc = int fd"
proof (cases m)
  case None
  then show ?thesis using assms by simp
next
  case (Some r)
  obtain i e1 s1 where "m = Some ((i, e1), s1)" using Some by (cases r) auto
  with assms have "(let s2 = upd_file fd (g s1) s1 in
         if i = - 1 \<and> e1 = ENOENT then open_new P fd flags mode s2
         else if i = - 1 \<and> e1 = GRISTLE_BAD_PATH then fail_open fd ENOENT s2
         else if i = 0 then open_existing P fd flags e1 s2
         else fail_open fd e1 s2) = Some ((rc, e'), s')"
    by simp
  then show ?thesis
    unfolding Let_def by (simp split: if_split_asm) (metis open_result)+
qed

context block_device
begin

lemma fat_open_keeps:
  assumes wf: "wf_state s" and "fat_open P n name flags mode e s = Some ((rc, e'), s')"
  shows "(s' = s \<and> rc = - 1 \<and> e' = ENFILE \<and> (\<forall>j<4. has (f_flags (the_file s j)) FAT_FLAG_OPEN)) \<or>
    (\<exists>fd<4. \<not> has (f_flags (the_file s fd)) FAT_FLAG_OPEN \<and> keeps fd s s' \<and> (rc = - 1 \<or> rc = int fd))"
proof -
  obtain fd' s0 where nf: "fat_get_next_file s = (fd', s0)" by fastforce
  then show ?thesis
  proof (cases rule: next_file_cases)
    case 1
    then show ?thesis using assms(2) nf by (simp add: fat_open_def)
  next
    case (2 fd)
    have k0: "keeps fd s s0" unfolding 2(4) by (rule keeps_flags [OF keeps_refl [OF wf]])
    have run: "do {
         ((i, e), s1) \<leftarrow> fat_lookup_path P n fd name e s0;
         let s2 = upd_file fd (\<lambda>f. f\<lparr>f_flags := open_flags flags (f_flags f)\<rparr>) s1 in
         if i = - 1 \<and> e = ENOENT then open_new P fd flags mode s2
         else if i = - 1 \<and> e = GRISTLE_BAD_PATH then fail_open fd ENOENT s2
         else if i = 0 then open_existing P fd flags e s2
         else fail_open fd e s2 } = Some ((rc, e'), s')"
      using assms(2) nf 2(1) by (simp add: fat_open_def Let_def)
    have "keeps fd s s'" by (rule presD [OF pres_fat_open_on [OF k0] run])
    moreover have "rc = - 1 \<or> rc = int fd"
      using open_on_result [OF run] .
    ultimately show ?thesis using 2 by blast
  qed
qed

end

end
