(* ===== verification/Fat_Dir.thy ===== *)
theory Fat_Dir
  imports Fat_Ops
begin

text \<open>
  The operations on directory entries: \<open>fat_delete\<close>, \<open>fat_unlink\<close>, \<open>fat_rmdir\<close> and \<open>fat_mkdir\<close>
  of gristle.c, written with the file operations as the code is.
\<close>

section \<open>Model\<close>

definition fat_delete :: "'d platform \<Rightarrow> nat \<Rightarrow> 'd gstate \<Rightarrow> (int \<times> 'd gstate) option" where
  "fat_delete P fd s =
    (let s1 = snd (file_block_read P fd (f_entry_sector (the_file s fd)) s);
         s2 = upd_file fd (\<lambda>f. f\<lparr>f_buffer := (f_buffer f)[unat (f_entry_number f) * 32 := 0xE5]\<rparr>) s1;
         s3 = snd (file_block_write P fd (f_entry_sector (the_file s2 fd)) s2) in
     do {
       (_, s4) \<leftarrow> fat_free_clusters P (f_full_first_cluster (the_file s3 fd)) s3;
       Some (0, upd_file fd (\<lambda>f. f\<lparr>f_flags := FAT_FLAG_OPEN\<rparr>) s4) })"

definition fat_unlink ::
  "'d platform \<Rightarrow> nat \<Rightarrow> byte list \<Rightarrow> int \<Rightarrow> 'd gstate \<Rightarrow> ((int \<times> int) \<times> 'd gstate) option" where
  "fat_unlink P n path rerrno s =
    do {
      ((fd', e), s1) \<leftarrow> fat_open P n path O_RDONLY 0x1FF rerrno s;
      if fd' < 0 then Some ((- 1, e), s1)
      else
        let fd = nat fd' in
        (case fat_fstat fd s1 of
           (rc, e', st) \<Rightarrow>
             if rc \<noteq> 0 then Some ((- 1, e'), s1)
             else if has (st_mode (the st)) S_IFDIR then
               do {
                 (_, s2) \<leftarrow> fat_close P n fd (upd_file fd (\<lambda>f. f\<lparr>f_flags := FAT_FLAG_OPEN\<rparr>) s1);
                 Some ((- 1, EPERM), s2) }
             else
               do {
                 (_, s2) \<leftarrow> fat_delete P fd s1;
                 ((_, e''), s3) \<leftarrow> fat_close P n fd s2;
                 Some ((0, e''), s3) }) }"

text \<open>The names \<open>.\<close> and \<open>..\<close> do not count as entries of a directory.\<close>

definition dot_name :: "byte list \<Rightarrow> bool" where
  "dot_name name \<longleftrightarrow> name = [DOT] \<or> name = [DOT, DOT]"

text \<open>The loop of \<open>fat_rmdir\<close>: was an entry found that counts? With the last value of \<open>rerrno\<close>.\<close>

primrec rmdir_loop ::
  "'d platform \<Rightarrow> nat \<Rightarrow> nat \<Rightarrow> nat \<Rightarrow> 'd gstate \<Rightarrow> ((bool \<times> int) \<times> 'd gstate) option" where
  "rmdir_loop P n 0 fd s = None"
| "rmdir_loop P n (Suc m) fd s =
    do {
      ((rc, e, de), s1) \<leftarrow> fat_get_next_dirent P n fd s;
      if rc \<noteq> 0 then Some ((False, e), s1)
      else if \<not> dot_name (fst (the de)) then Some ((True, e), s1)
      else rmdir_loop P n m fd s1 }"

definition fat_rmdir ::
  "'d platform \<Rightarrow> nat \<Rightarrow> byte list \<Rightarrow> int \<Rightarrow> 'd gstate \<Rightarrow> ((int \<times> int) \<times> 'd gstate) option" where
  "fat_rmdir P n path rerrno s =
    do {
      ((fd', e), s1) \<leftarrow> fat_open P n path O_RDONLY 0x1FF rerrno s;
      if fd' = - 1 then Some ((- 1, e), s1)
      else
        let fd = nat fd' in
        do {
          ((found, e'), s2) \<leftarrow> rmdir_loop P n n fd s1;
          if found then
            do { (_, s3) \<leftarrow> fat_close P n fd s2; Some ((- 1, ENOTEMPTY), s3) }
          else
            do {
              (_, s3) \<leftarrow> fat_delete P fd s2;
              ((rc, e''), s4) \<leftarrow> fat_close P n fd s3;
              if rc \<noteq> 0 then Some ((- 1, e''), s4) else Some ((0, e''), s4) } } }"

text \<open>
  \<open>fat_mkdir\<close>: the path without its trailing slash is cut at its last slash. For the path \<open>/\<close> the
  code stores the terminator in front of its buffer; both parts are empty here.
\<close>

definition mkdir_split :: "byte list \<Rightarrow> byte list \<times> byte list" where
  "mkdir_split path =
    (let local = (if last path = SLASH then butlast path else path) in
     (butlast (rev (dropWhile (\<lambda>c. c \<noteq> SLASH) (rev local))),
      rev (takeWhile (\<lambda>c. c \<noteq> SLASH) (rev local))))"

text \<open>The loop that reads entries up to the first unused one; the flag says that it was found.\<close>

primrec mkdir_seek_end ::
  "'d platform \<Rightarrow> nat \<Rightarrow> nat \<Rightarrow> nat \<Rightarrow> 'd gstate \<Rightarrow> ((bool \<times> int) \<times> 'd gstate) option" where
  "mkdir_seek_end P n 0 fd s = None"
| "mkdir_seek_end P n (Suc m) fd s =
    do {
      ((rc, e, bs), s1) \<leftarrow> fat_read P n fd 32 s;
      if rc < 32 then Some ((False, e), s1)
      else if bs ! 0 = 0 then Some ((True, e), s1)
      else mkdir_seek_end P n m fd s1 }"

text \<open>The new entry: the 8.3 name goes to \<open>filename\<close> up to its eighth character.\<close>

definition mkdir_filename :: "byte list \<Rightarrow> byte list" where
  "mkdir_filename dosname =
    map (\<lambda>i. if i < length (cstr dosname) then dosname ! i else SPACE) [0..<8]"

text \<open>The entry's fields, with six readings of the clock.\<close>

definition mkdir_dirent ::
  "'d platform \<Rightarrow> byte list \<Rightarrow> u32 \<Rightarrow> 'd gstate \<Rightarrow> direntS \<times> 'd gstate" where
  "mkdir_dirent P name cluster s =
    (let t = (\<lambda>i. plat_time P (ticks s + i)) in
     (\<lparr>de_filename = name, de_extension = [SPACE, SPACE, SPACE],
       de_attributes = FAT_ATT_SUBDIR OR FAT_ATT_ARC, de_reserved = 0,
       de_create_time_fine = word_of_int (t 0 mod 2 * 100),
       de_create_time = fat_from_unix_time (t 1), de_create_date = fat_from_unix_date (t 2),
       de_access_date = fat_from_unix_date (t 3),
       de_high_first_cluster = ucast (drop_bit 16 cluster),
       de_modified_time = fat_from_unix_time (t 4), de_modified_date = fat_from_unix_date (t 5),
       de_first_cluster = ucast (cluster AND 0xFFFF), de_size = 0\<rparr>,
      s\<lparr>ticks := ticks s + 6\<rparr>))"

definition zero_entry :: "byte list" where
  "zero_entry = replicate 32 0"

text \<open>\<open>k\<close> further empty entries; the flag says whether all were written.\<close>

primrec mkdir_zero ::
  "'d platform \<Rightarrow> nat \<Rightarrow> nat \<Rightarrow> nat \<Rightarrow> int \<Rightarrow> 'd gstate \<Rightarrow> ((bool \<times> int) \<times> 'd gstate) option" where
  "mkdir_zero P n fd 0 e s = Some ((True, e), s)"
| "mkdir_zero P n fd (Suc k) e s =
    do {
      ((rc, e'), s1) \<leftarrow> fat_write P n fd zero_entry s;
      if rc = - 1 then Some ((False, e'), s1) else mkdir_zero P n fd k e' s1 }"

text \<open>The second half: the entries \<open>.\<close> and \<open>..\<close> in the new directory, and zeros behind them.\<close>

definition mkdir_fill ::
  "'d platform \<Rightarrow> nat \<Rightarrow> byte list \<Rightarrow> u32 \<Rightarrow> u32 \<Rightarrow> int \<Rightarrow> int \<Rightarrow> 'd gstate \<Rightarrow>
    ((int \<times> int) \<times> 'd gstate) option" where
  "mkdir_fill P n path cluster parent_cluster int_call rerrno s =
    do {
      ((fd', e), s1) \<leftarrow> fat_open P n path O_RDWR 0x1FF int_call s;
      if fd' = - 1 then Some ((- 1, e), s1)
      else
        let fd = nat fd';
            (d, s2) = mkdir_dirent P (DOT # replicate 7 SPACE) cluster s1;
            d2 = d\<lparr>de_filename := (de_filename d)[1 := DOT],
                   de_high_first_cluster := ucast (drop_bit 16 parent_cluster),
                   de_first_cluster := ucast (parent_cluster AND 0xFFFF)\<rparr> in
        do {
          ((rc, e3), s3) \<leftarrow> fat_write P n fd (dirent_bytes d) s2;
          if rc = - 1 then Some ((- 1, e3), s3)
          else do {
            ((rc, e4), s4) \<leftarrow> fat_write P n fd (dirent_bytes d2) s3;
            if rc = - 1 then Some ((- 1, e4), s4)
            else do {
              ((done_all, e5), s5) \<leftarrow> mkdir_zero P n fd
                (block_get_block_size * unat (sectors_per_cluster (fatfs s4)) div 32 - 2) e4 s4;
              if \<not> done_all then Some ((- 1, e5), s5)
              else do {
                ((rc, e6), s6) \<leftarrow> fat_close P n fd s5;
                Some ((if rc \<noteq> 0 then - 1 else 0, e6), s6) } } } } }"

text \<open>The exits that give the cluster back: close the parent and free, or free and close.\<close>

definition close_and_free ::
  "'d platform \<Rightarrow> nat \<Rightarrow> nat \<Rightarrow> u32 \<Rightarrow> 'd gstate \<Rightarrow> ((int \<times> int) \<times> 'd gstate) option" where
  "close_and_free P n fd cluster s =
    do {
      ((_, e), s1) \<leftarrow> fat_close P n fd s;
      (_, s2) \<leftarrow> fat_free_clusters P cluster s1;
      Some ((- 1, e), s2) }"

definition free_and_close ::
  "'d platform \<Rightarrow> nat \<Rightarrow> nat \<Rightarrow> u32 \<Rightarrow> int \<Rightarrow> 'd gstate \<Rightarrow> ((int \<times> int) \<times> 'd gstate) option" where
  "free_and_close P n fd cluster e s =
    do {
      (_, s1) \<leftarrow> fat_free_clusters P cluster s;
      (_, s2) \<leftarrow> fat_close P n fd s1;
      Some ((- 1, e), s2) }"

text \<open>The first half: the entry in the parent directory, which is open on \<open>fd\<close>.\<close>

definition mkdir_enter ::
  "'d platform \<Rightarrow> nat \<Rightarrow> byte list \<Rightarrow> byte list \<Rightarrow> nat \<Rightarrow> u32 \<Rightarrow> int \<Rightarrow> 'd gstate \<Rightarrow>
    ((int \<times> int) \<times> 'd gstate) option" where
  "mkdir_enter P n path filename fd cluster int_call s =
    (let parent_cluster = f_full_first_cluster (the_file s fd) in
     do {
       ((found, _), s1) \<leftarrow> mkdir_seek_end P n n fd s;
       if \<not> found then close_and_free P n fd cluster s1
       else do {
         ((pos, _), s2) \<leftarrow> fat_lseek P n fd (- 32) SEEK_CUR s1;
         if pos = - 33 then close_and_free P n fd cluster s2
         else
           (case str_to_fatname filename (map (plat_junk P) [0..<13]) of
              (rc, dosname) \<Rightarrow>
                if rc \<noteq> 0 then free_and_close P n fd cluster ENAMETOOLONG s2
                else
                  let (d, s3) = mkdir_dirent P (mkdir_filename dosname) cluster s2 in
                  do {
                    ((rc, e4), s4) \<leftarrow> fat_write P n fd (dirent_bytes d) s3;
                    if rc = - 1 then Some ((- 1, e4), s4)
                    else do {
                      ((rc, e5), s5) \<leftarrow> fat_write P n fd zero_entry s4;
                      if rc = - 1 then Some ((- 1, e5), s5)
                      else do {
                        ((rc, e6), s6) \<leftarrow> fat_close P n fd s5;
                        if rc \<noteq> 0 then Some ((- 1, e6), s6)
                        else mkdir_fill P n path cluster parent_cluster int_call e6 s6 } } }) } })"

definition fat_mkdir ::
  "'d platform \<Rightarrow> nat \<Rightarrow> byte list \<Rightarrow> int \<Rightarrow> 'd gstate \<Rightarrow> ((int \<times> int) \<times> 'd gstate) option" where
  "fat_mkdir P n path rerrno s =
    (if length path + 1 > 256 then Some ((- 1, ENAMETOOLONG), s)
     else if path = [] \<or> hd path \<noteq> SLASH then Some ((- 1, ENAMETOOLONG), s)
     else
       let (parent, filename) = mkdir_split path in
       (case fat_get_free_cluster P s of (cluster, s1) \<Rightarrow>
          if cluster = 0xFFFFFFF \<or> cluster = 0 then Some ((- 1, ENOSPC), s1)
          else do {
            ((fd', int_call), s2) \<leftarrow>
              fat_open P n (if parent = [] then [SLASH] else parent) O_RDWR 0x1FF FAT_INTERNAL_CALL s1;
            if fd' < 0 then
              do { (_, s3) \<leftarrow> fat_free_clusters P cluster s2; Some ((- 1, int_call), s3) }
            else mkdir_enter P n path filename (nat fd') cluster int_call s2 }))"

section \<open>Open files are left alone\<close>

text \<open>
  What the operations on directory entries keep, which work on descriptors they open themselves:
  the invariant, the volume, and every file that is open.
\<close>

definition is_open :: "'d gstate \<Rightarrow> nat \<Rightarrow> bool" where
  "is_open s fd \<longleftrightarrow> has (f_flags (the_file s fd)) FAT_FLAG_OPEN"

definition spares :: "'d gstate \<Rightarrow> 'd gstate \<Rightarrow> bool" where
  "spares s s' \<longleftrightarrow>
    wf_state s' \<and> same_volume (fatfs s) (fatfs s') \<and>
    (\<forall>fd<MAX_OPEN_FILES. is_open s fd \<longrightarrow> the_file s' fd = the_file s fd)"

definition pres_sp :: "'d gstate \<Rightarrow> ('r \<times> 'd gstate) option \<Rightarrow> bool" where
  "pres_sp s m \<longleftrightarrow> (\<forall>r s'. m = Some (r, s') \<longrightarrow> spares s s')"

lemma spares_trans: "spares s s' \<Longrightarrow> spares s' s'' \<Longrightarrow> spares s s''"
  using same_volume_trans by (fastforce simp: spares_def is_open_def)

lemma keeps_spares: "keeps fd s s' \<Longrightarrow> \<not> is_open s fd \<Longrightarrow> spares s s'"
  by (auto simp: keeps_def spares_def)

text \<open>A step that keeps everything for every descriptor touches no file at all.\<close>

lemma all_keeps_spares:
  assumes "\<And>fd. keeps fd s s'"
  shows "spares s s'"
proof -
  have "the_file s' fd = the_file s fd" for fd
    using assms [of "Suc fd"] by (simp add: keeps_def)
  then show ?thesis using assms [of 0] by (simp add: keeps_def spares_def)
qed

lemma spares_refl: "wf_state s \<Longrightarrow> spares s s"
  by (simp add: spares_def)

lemma pres_sp_keeps: "pres fd s m \<Longrightarrow> \<not> is_open s fd \<Longrightarrow> pres_sp s m"
  using keeps_spares by (fastforce simp: pres_def pres_sp_def)

lemma pres_sp_bind:
  assumes "pres fd s m" and "\<And>r s'. keeps fd s s' \<Longrightarrow> pres_sp s (k (r, s'))"
  shows "pres_sp s (Option.bind m k)"
  using assms by (cases m) (auto simp: pres_def pres_sp_def)

lemma pres_sp_if: "(b \<Longrightarrow> pres_sp s x) \<Longrightarrow> (\<not> b \<Longrightarrow> pres_sp s y) \<Longrightarrow> pres_sp s (if b then x else y)"
  by simp

lemma pres_sp_pair: "(\<And>a b. pres_sp s (k a b)) \<Longrightarrow> pres_sp s (case p of (a, b) \<Rightarrow> k a b)"
  by (cases p) simp

lemma pres_sp_case_Pair: "pres_sp s (k a b) \<Longrightarrow> pres_sp s (case (a, b) of (x, y) \<Rightarrow> k x y)"
  by simp

lemma pres_sp_nested: "(\<And>a b. pres_sp s (k a b s')) \<Longrightarrow> pres_sp s ((case p of (a, b) \<Rightarrow> k a b) s')"
  by (cases p) simp

lemma pres_sp_Some: "spares s s' \<Longrightarrow> pres_sp s (Some (r, s'))"
  by (simp add: pres_sp_def)

lemma keeps_delete_mark:
  "keeps fd s0 s \<Longrightarrow> keeps fd s0 (upd_file fd (\<lambda>f. f\<lparr>f_buffer := (f_buffer f)[i f := x]\<rparr>) s)"
  by (erule keeps_upd) (simp add: wf_file_def)

lemma keeps_mkdir_dirent:
  "keeps fd s0 s \<Longrightarrow> mkdir_dirent P name c s = (d, s') \<Longrightarrow> keeps fd s0 s'"
  by (erule keeps_same) (auto simp: mkdir_dirent_def Let_def)

context block_device
begin

lemma keeps_snd_read [pres_rules]: "keeps fd s0 s \<Longrightarrow> keeps fd s0 (snd (file_block_read P fd b s))"
  by (rule keeps_read [OF _ surjective_pairing])

lemma keeps_snd_write [pres_rules]: "keeps fd s0 s \<Longrightarrow> keeps fd s0 (snd (file_block_write P fd b s))"
  by (rule keeps_write [OF _ surjective_pairing])

lemma pres_delete [pres_rules]: "keeps fd s0 s \<Longrightarrow> pres fd s0 (fat_delete P fd s)"
  unfolding fat_delete_def Let_def
  by (intro pres_rules pres_free_clusters keeps_delete_mark; assumption?)

lemma pres_rmdir_loop [pres_rules]: "keeps fd s0 s \<Longrightarrow> pres fd s0 (rmdir_loop P n m fd s)"
proof (induction m arbitrary: s)
  case 0
  then show ?case by (simp add: pres_def)
next
  case (Suc m)
  show ?case unfolding rmdir_loop.simps by (intro pres_rules Suc; assumption?)
qed

lemma pres_mkdir_seek_end [pres_rules]: "keeps fd s0 s \<Longrightarrow> pres fd s0 (mkdir_seek_end P n m fd s)"
proof (induction m arbitrary: s)
  case 0
  then show ?case by (simp add: pres_def)
next
  case (Suc m)
  show ?case unfolding mkdir_seek_end.simps by (intro pres_rules Suc; assumption?)
qed

lemma pres_mkdir_zero [pres_rules]: "keeps fd s0 s \<Longrightarrow> pres fd s0 (mkdir_zero P n fd k e s)"
proof (induction k arbitrary: e s)
  case 0
  then show ?case by (simp add: pres_def)
next
  case (Suc k)
  show ?case unfolding mkdir_zero.simps by (intro pres_rules Suc; assumption?)
qed

text \<open>An operation that opens a descriptor and goes on with it.\<close>

lemma pres_sp_open:
  assumes wf: "wf_state s"
    and fail: "\<And>e s1. spares s s1 \<Longrightarrow> pres_sp s (k (- 1) e s1)"
    and go: "\<And>fd e s1. fd < 4 \<Longrightarrow> \<not> is_open s fd \<Longrightarrow> keeps fd s s1 \<Longrightarrow> pres_sp s (k (int fd) e s1)"
  shows "pres_sp s (do { ((fd', e), s1) \<leftarrow> fat_open P n path flags mode e0 s; k fd' e s1 })"
proof (cases "fat_open P n path flags mode e0 s")
  case None
  then show ?thesis by (simp add: pres_sp_def)
next
  case (Some r)
  obtain rc e s1 where r: "fat_open P n path flags mode e0 s = Some ((rc, e), s1)"
    using Some by (cases r) auto
  from fat_open_keeps [OF wf r] show ?thesis
  proof (elim disjE exE conjE)
    assume "s1 = s" "rc = - 1"
    then show ?thesis using fail [OF spares_refl [OF wf]] r by simp
  next
    fix fd assume fd: "fd < 4" "\<not> has (f_flags (the_file s fd)) FAT_FLAG_OPEN" "keeps fd s s1"
    have idle: "\<not> is_open s fd" using fd(2) by (simp add: is_open_def)
    assume "rc = - 1"
    then show ?thesis using fail [OF keeps_spares [OF fd(3) idle]] r by simp
  next
    fix fd assume fd: "fd < 4" "\<not> has (f_flags (the_file s fd)) FAT_FLAG_OPEN" "keeps fd s s1"
    have idle: "\<not> is_open s fd" using fd(2) by (simp add: is_open_def)
    assume "rc = int fd"
    then show ?thesis using go [OF fd(1) idle fd(3)] r by simp
  qed
qed

lemma pres_sp_unlink:
  assumes "wf_state s"
  shows "pres_sp s (fat_unlink P n path e s)"
  unfolding fat_unlink_def
proof (rule pres_sp_open [OF assms], goal_cases)
  case (1 e1 s1)
  then show ?case by (simp add: pres_sp_def)
next
  case (2 fd e1 s1)
  have "pres fd s (case fat_fstat fd s1 of
           (rc, e', st) \<Rightarrow>
             if rc \<noteq> 0 then Some ((- 1, e'), s1)
             else if has (st_mode (the st)) S_IFDIR then
               do {
                 (_, s2) \<leftarrow> fat_close P n fd (upd_file fd (\<lambda>f. f\<lparr>f_flags := FAT_FLAG_OPEN\<rparr>) s1);
                 Some ((- 1, EPERM), s2) }
             else
               do {
                 (_, s2) \<leftarrow> fat_delete P fd s1;
                 ((_, e''), s3) \<leftarrow> fat_close P n fd s2;
                 Some ((0, e''), s3) })"
    using 2(3) by (cases "fat_fstat fd s1") (auto intro!: pres_rules)
  from pres_sp_keeps [OF this 2(2)] show ?case by (simp add: Let_def)
qed

lemma pres_sp_rmdir:
  assumes "wf_state s"
  shows "pres_sp s (fat_rmdir P n path e s)"
  unfolding fat_rmdir_def
proof (rule pres_sp_open [OF assms], goal_cases)
  case (1 e1 s1)
  then show ?case by (simp add: pres_sp_def)
next
  case (2 fd e1 s1)
  show ?case
    unfolding Let_def nat_int
    by (rule pres_sp_keeps [OF _ 2(2)], intro pres_rules 2(3); assumption?)
qed

lemma pres_sp_fill:
  assumes "wf_state s"
  shows "pres_sp s (mkdir_fill P n path c pc ic e s)"
  unfolding mkdir_fill_def
proof (rule pres_sp_open [OF assms], goal_cases)
  case (1 e1 s1)
  then show ?case by (simp add: pres_sp_def)
next
  case (2 fd e1 s1)
  obtain d s2 where d: "mkdir_dirent P (DOT # replicate 7 SPACE) c s1 = (d, s2)" by fastforce
  have k2: "keeps fd s s2" using keeps_mkdir_dirent [OF 2(3) d] .
  show ?case
    unfolding Let_def nat_int d prod.case
    by (rule pres_sp_keeps [OF _ 2(2)], intro pres_rules 2(3) k2; assumption?)
qed

lemma pres_close_and_free [pres_rules]:
  "keeps fd s0 s \<Longrightarrow> pres fd s0 (close_and_free P n fd c s)"
  "keeps fd s0 s \<Longrightarrow> pres fd s0 (free_and_close P n fd c e s)"
  unfolding close_and_free_def free_and_close_def
  by (intro pres_rules pres_free_clusters; assumption?)+

lemma pres_sp_enter:
  assumes idle: "\<not> is_open s0 fd" and k: "keeps fd s0 s"
  shows "pres_sp s0 (mkdir_enter P n path name fd c ic s)"
proof -
  have spare: "spares s0 s'" if "keeps fd s0 s'" for s'
    using keeps_spares [OF that idle] .
  have fill: "pres_sp s0 (mkdir_fill P n path c pc ic e s')" if "keeps fd s0 s'" for pc e s'
    using pres_sp_fill [OF keeps_wf [OF that]] spares_trans [OF spare [OF that]]
    by (fastforce simp: pres_sp_def)
  note sp = pres_sp_bind [of fd s0] pres_sp_if pres_sp_case_Pair pres_sp_nested pres_sp_Some
    spare fill
  have enter: "pres_sp s0 (let (d, s3) = mkdir_dirent P x c s2 in
                  do {
                    ((rc, e4), s4) \<leftarrow> fat_write P n fd (dirent_bytes d) s3;
                    if rc = - 1 then Some ((- 1, e4), s4)
                    else do {
                      ((rc, e5), s5) \<leftarrow> fat_write P n fd zero_entry s4;
                      if rc = - 1 then Some ((- 1, e5), s5)
                      else do {
                        ((rc, e6), s6) \<leftarrow> fat_close P n fd s5;
                        if rc \<noteq> 0 then Some ((- 1, e6), s6)
                        else mkdir_fill P n path c pc ic e6 s6 } } })"
    if k2: "keeps fd s0 s2" for x pc s2
  proof -
    obtain d s3 where d: "mkdir_dirent P x c s2 = (d, s3)" by fastforce
    note k3 = keeps_mkdir_dirent [OF k2 d]
    show ?thesis
      unfolding d Let_def prod.case
      by (intro sp pres_fat_write pres_fat_close k3; assumption)
  qed
  have name: "pres_sp s0 (case str_to_fatname name junk of (rc, dosname) \<Rightarrow>
      if rc \<noteq> 0 then free_and_close P n fd c e s2 else k dosname)"
    if "keeps fd s0 s2" and "\<And>dosname. pres_sp s0 (k dosname)" for junk e s2 k
    using that(2) pres_sp_keeps [OF pres_close_and_free(2) [OF that(1)] idle]
    by (auto intro: pres_sp_pair)
  show ?thesis
    unfolding mkdir_enter_def Let_def
    by (intro sp name enter [unfolded Let_def] pres_mkdir_seek_end pres_lseek k
        pres_sp_keeps [OF pres_close_and_free(1) idle]; assumption)
qed

lemma pres_sp_mkdir:
  assumes wf: "wf_state s"
  shows "pres_sp s (fat_mkdir P n path e s)"
proof -
  have run: "pres_sp s (do {
            ((fd', int_call), s2) \<leftarrow> fat_open P n p O_RDWR 0x1FF e0 s1;
            if fd' < 0 then
              do { (_, s3) \<leftarrow> fat_free_clusters P c s2; Some ((- 1, int_call), s3) }
            else mkdir_enter P n path name (nat fd') c int_call s2 })"
    if k1: "\<And>fd. keeps fd s s1" for p e0 s1 c name
  proof -
    note sp1 = all_keeps_spares [OF k1]
    have sp: "pres_sp s m" if "pres_sp s1 m" for m :: "((int \<times> int) \<times> 'd gstate) option"
      using that spares_trans [OF sp1] by (auto simp: pres_sp_def)
    show ?thesis
    proof (rule sp, rule pres_sp_open [OF keeps_wf [OF k1]], goal_cases)
      case (1 e1 s2)
      have "spares s1 s3" if "fat_free_clusters P c s2 = Some (r, s3)" for r s3
      proof -
        have wf2: "wf_state s2" using 1 by (simp add: spares_def)
        have "keeps fd s2 s3" for fd
          using presD [OF pres_free_clusters [OF keeps_refl [OF wf2]] that] .
        then have "spares s2 s3" by (rule all_keeps_spares)
        then show ?thesis using spares_trans [OF 1] by simp
      qed
      then show ?case by (auto simp: pres_sp_def split: Option.bind_splits)
    next
      case (2 fd e1 s2)
      then show ?case using pres_sp_enter [OF 2(2,3)] by simp
    qed
  qed
  obtain c s1 where c: "fat_get_free_cluster P s = (c, s1)" by fastforce
  have k1: "keeps fd s s1" for fd
    using keeps_get_free_cluster [OF keeps_refl [OF wf] c] .
  note sp1 = all_keeps_spares [OF k1]
  show ?thesis
    unfolding fat_mkdir_def Let_def c prod.case
    by (cases "mkdir_split path")
      (auto intro!: pres_sp_Some pres_sp_if spares_refl wf sp1 run k1)
qed

end

end
