(* ===== verification/Demo_Volume.thy ===== *)
theory Demo_Volume
  imports Fat_Alloc
begin

text \<open>
  A small FAT16 volume in the memory of the PC driver, on which the theorems are instantiated:
  eight blocks with the boot sector in block 0, the FAT in block 1, a root directory of one block
  in block 2 and one sector per cluster from block 3 on. The root holds one file, \<open>A1.TXT\<close>, of 600
  bytes in clusters 2 and 3.
\<close>

definition demo_fat :: "byte list" where
  "demo_fat = [0xF8, 0xFF, 0xFF, 0xFF, 0x03, 0x00, 0xF8, 0xFF]"

definition demo_entry :: "byte list" where
  "demo_entry =
    [0x41, 0x31, 0x20, 0x20, 0x20, 0x20, 0x20, 0x20, 0x54, 0x58, 0x54, 0x20, 0, 0, 0, 0,
     0x21, 0x40, 0x21, 0x40, 0, 0, 0, 0, 0x21, 0x40, 2, 0, 0x58, 2, 0, 0]"

definition demo_boot :: "byte list" where
  "demo_boot =
    [0xEB, 0x3C, 0x90, 0x4D, 0x53, 0x44, 0x4F, 0x53, 0x35, 0x2E, 0x30,
     0x00, 0x02, 0x01, 0x01, 0x00, 0x01, 0x10, 0x00, 0x08, 0x00, 0xF8, 0x01, 0x00]"

definition demo_memory :: "nat \<Rightarrow> byte" where
  "demo_memory a =
    (if a < 24 then demo_boot ! a
     else if 512 \<le> a \<and> a < 520 then demo_fat ! (a - 512)
     else if 1024 \<le> a \<and> a < 1056 then demo_entry ! (a - 1024)
     else if 1536 \<le> a \<and> a < 2136 then 0x61
     else 0)"

definition demo_dev :: pc_dev where
  "demo_dev = \<lparr>pc_blocks = demo_memory, block_fs_size = 4096, block_ro = 0, image_name = None\<rparr>"

definition demo_platform :: "pc_dev platform" where
  "demo_platform = pc_platform (\<lambda>_. 1000000000) (\<lambda>_. 0)"

text \<open>The volume after mounting, and a state with no open file.\<close>

definition demo_volume :: fat_info where
  "demo_volume =
    \<lparr>read_only = 0, fat_entry_len = 2, end_cluster_marker = 0xFFF0, sectors_per_cluster = 1,
     cluster0 = 1, active_fat_start = 1, sectors_per_fat = 1, root_len = 1, root_start = 2,
     root_cluster = 1, fs_type = 6, part_start = 0, total_sectors = 8,
     sysbuf = replicate 512 0\<rparr>"

definition demo_state :: "pc_dev gstate" where
  "demo_state =
    \<lparr>dev = demo_dev, fatfs = demo_volume, file_num = replicate 4 closed_file, ticks = 0\<rparr>"

text \<open>The same with the file open for reading and writing on descriptor 0, at its first byte.\<close>

definition demo_file :: FileS where
  "demo_file =
    closed_file\<lparr>f_flags := 7, f_buffer := replicate 512 0x61, f_sector := 3, f_cluster := 2,
      f_filename := take 8 demo_entry, f_extension := take 3 (drop 8 demo_entry), f_size := 600,
      f_full_first_cluster := 2, f_entry_sector := 2\<rparr>"

definition demo_open :: "pc_dev gstate" where
  "demo_open = demo_state\<lparr>file_num := demo_file # replicate 3 closed_file\<rparr>"

lemma demo_view: "i < 512 \<Longrightarrow> pc_view demo_dev b ! i = demo_memory (512 * unat b + i)"
  by (simp add: pc_view_def demo_dev_def)

lemma demo_ok: "pc_ok demo_dev b \<longleftrightarrow> unat b < 8"
  by (auto simp: pc_ok_def demo_dev_def)

lemma demo_sizes [simp]:
  "wf_fat_info demo_volume" "entries_per_block demo_volume = 256" "fat_clusters demo_volume = 256"
  by (simp_all add: wf_fat_info_def demo_volume_def cluster_size_ok_def entries_per_block_def
      fat_clusters_def upt_rec)

lemma demo_regular: "regular_fat demo_volume"
  by (simp add: regular_fat_def) (simp add: demo_volume_def)

lemma demo_ready: "fat_ready demo_state"
  by (simp add: fat_ready_def demo_state_def demo_regular fat_present_def demo_ok)
    (simp add: demo_volume_def)

lemma demo_cell:
  "c < 256 \<Longrightarrow> fat_of pc_view demo_state c =
    ucast (le16 (demo_memory (512 + 2 * c)) (demo_memory (513 + 2 * c)))"
  by (simp add: fat_of_def demo_state_def fat_cell_def cell_block_def cell_offset_def
      fat_entry_at_def get16_def demo_view)
    (simp add: demo_volume_def cell_offset_def fat_entry_at_def get16_def demo_view mult.commute)

lemma demo_cells:
  "fat_of pc_view demo_state 0 = 0xFFF8" "fat_of pc_view demo_state 1 = 0xFFFF"
  "fat_of pc_view demo_state 2 = 3" "fat_of pc_view demo_state 3 = 0xFFF8"
  "fat_of pc_view demo_state 4 = 0"
  by (simp_all add: demo_cell demo_memory_def demo_fat_def le16_def)

lemma demo_nonzero: "c < 4 \<Longrightarrow> fat_of pc_view demo_state c \<noteq> 0"
proof -
  assume "c < 4"
  then have "c = 0 \<or> c = 1 \<or> c = 2 \<or> c = 3" by arith
  then show ?thesis using demo_cells by auto
qed

lemma demo_fatfs [simp]: "fatfs demo_state = demo_volume"
  by (simp add: demo_state_def)

lemma demo_type [simp]: "end_value (fs_type demo_volume) = 0xFFF8" "end_cluster_marker demo_volume = 0xFFF0"
  by (simp_all add: end_value_def demo_volume_def end_mark_value)

section \<open>Instances of the allocation theorems\<close>

lemma get_free_cluster_takes_first_witness:
  "\<exists>s'. fat_get_free_cluster (pc_platform (\<lambda>_. 0) (\<lambda>_. 0)) demo_state = (4, s') \<and>
    fat_of pc_view s' 4 = 0xFFF8"
  using get_free_cluster_takes_first [OF demo_ready, of 4 "\<lambda>_. 0" "\<lambda>_. 0"] demo_cells demo_nonzero
  by auto

lemma free_clusters_frees_chain_witness:
  "\<exists>s'. fat_free_clusters (pc_platform (\<lambda>_. 0) (\<lambda>_. 0)) 2 demo_state = Some (0, s') \<and>
    fat_of pc_view s' 2 = 0 \<and> fat_of pc_view s' 3 = 0 \<and> fat_of pc_view s' 1 = 0xFFFF"
proof -
  have "fat_chain (fatfs demo_state) (fat_of pc_view demo_state) [2, 3]"
    using demo_cells by simp
  from free_clusters_frees_chain [OF demo_ready _ this, of "\<lambda>_. 0" "\<lambda>_. 0"] show ?thesis
    using demo_cells by auto
qed

lemma allocate_free_roundtrip_witness:
  "\<exists>s1 s2. fat_get_free_cluster (pc_platform (\<lambda>_. 0) (\<lambda>_. 0)) demo_state = (4, s1) \<and>
    fat_free_clusters (pc_platform (\<lambda>_. 0) (\<lambda>_. 0)) 4 s1 = Some (0, s2) \<and>
    fat_of pc_view s2 4 = 0"
  using allocate_free_roundtrip [OF demo_ready, of 4 "\<lambda>_. 0" "\<lambda>_. 0"] demo_cells demo_nonzero
  by fastforce

text \<open>A volume whose FAT is full: every byte of the device is \<open>0xFF\<close>.\<close>

definition full_state :: "pc_dev gstate" where
  "full_state = demo_state\<lparr>dev := demo_dev\<lparr>pc_blocks := (\<lambda>_. 0xFF)\<rparr>\<rparr>"

lemma full_ready: "fat_ready full_state"
  using demo_ready by (simp add: fat_ready_def full_state_def fat_present_def pc_ok_def demo_state_def)

lemma full_cells: "c < 256 \<Longrightarrow> fat_of pc_view full_state c = 0xFFFF"
  by (simp add: fat_of_def full_state_def fat_cell_def)
    (simp add: demo_volume_def cell_offset_def fat_entry_at_def get16_def pc_view_def le16_def
      entries_per_block_def)

lemma get_free_cluster_when_full_witness:
  "\<exists>s'. fat_get_free_cluster (pc_platform (\<lambda>_. 0) (\<lambda>_. 0)) full_state = (0, s') \<and>
    dev s' = dev full_state"
  using get_free_cluster_when_full [OF full_ready, of "\<lambda>_. 0" "\<lambda>_. 0"] full_cells
  by (auto simp: full_state_def)

end
