(* ===== verification/Fat_Api.thy ===== *)
theory Fat_Api
  imports Fat_Dir Demo_Volume
begin

text \<open>
  The driver as a whole: a call of gristle.h as a step on the driver's state, the states a client
  can reach from a successful mount, and the properties that hold for every operation in every
  such state.
\<close>

section \<open>Model\<close>

datatype api_call =
    Open "byte list" u32 u32 int
  | Close nat
  | Read nat u32
  | Write nat "byte list"
  | Lseek nat int int
  | Next_dirent nat
  | Unlink "byte list" int
  | Rmdir "byte list" int
  | Mkdir "byte list" int

text \<open>The state after a call; \<open>None\<close> when the fuel does not suffice.\<close>

definition state_of :: "('r \<times> 'd gstate) option \<Rightarrow> 'd gstate option" where
  "state_of m = map_option snd m"

fun call :: "'d platform \<Rightarrow> nat \<Rightarrow> api_call \<Rightarrow> 'd gstate \<Rightarrow> 'd gstate option" where
  "call P n (Open name flags mode e) s = state_of (fat_open P n name flags mode e s)"
| "call P n (Close fd) s = state_of (fat_close P n fd s)"
| "call P n (Read fd count) s = state_of (fat_read P n fd count s)"
| "call P n (Write fd data) s = state_of (fat_write P n fd data s)"
| "call P n (Lseek fd ptr dir) s = state_of (fat_lseek P n fd ptr dir s)"
| "call P n (Next_dirent fd) s = state_of (fat_get_next_dirent P n fd s)"
| "call P n (Unlink path e) s = state_of (fat_unlink P n path e s)"
| "call P n (Rmdir path e) s = state_of (fat_rmdir P n path e s)"
| "call P n (Mkdir path e) s = state_of (fat_mkdir P n path e s)"

text \<open>The calls that work on a descriptor of the client.\<close>

fun on_descriptor :: "api_call \<Rightarrow> nat option" where
  "on_descriptor (Close fd) = Some fd"
| "on_descriptor (Read fd count) = Some fd"
| "on_descriptor (Write fd data) = Some fd"
| "on_descriptor (Lseek fd ptr dir) = Some fd"
| "on_descriptor (Next_dirent fd) = Some fd"
| "on_descriptor _ = None"

text \<open>
  What a client can bring about on device state \<open>d\<close>: mount a partition, then call operations,
  each with as much fuel as it needs.
\<close>

inductive reachable :: "'d platform \<Rightarrow> 'd \<Rightarrow> 'd gstate \<Rightarrow> bool" for P and d where
  mounted: "fat_mount P start vol hint (startup d) = (0, s) \<Longrightarrow> reachable P d s"
| called: "reachable P d s \<Longrightarrow> call P n c s = Some s' \<Longrightarrow> reachable P d s'"

inductive_cases called_cases: "reachable P d s"

section \<open>Every call keeps the invariant\<close>

lemma state_of_Some: "state_of m = Some s' \<Longrightarrow> \<exists>r. m = Some (r, s')"
  by (auto simp: state_of_def)

lemma pres_state_of: "pres fd s m \<Longrightarrow> state_of m = Some s' \<Longrightarrow> keeps fd s s'"
  using state_of_Some presD by fastforce

lemma pres_sp_state_of: "pres_sp s m \<Longrightarrow> state_of m = Some s' \<Longrightarrow> spares s s'"
  using state_of_Some by (fastforce simp: pres_sp_def)

lemma closed_file_wf: "wf_file closed_file"
  by (simp add: wf_file_def closed_file_def)

lemma mount_files:
  "fat_mount P start vol hint s = (rc, s') \<Longrightarrow> file_num s' = file_num s"
  by (auto simp: fat_mount_def fat_mount_fat16_def fat_mount_fat32_def mount_read_def
      sys_block_read_def Let_def split: prod.splits if_splits)

context block_device
begin

lemma descriptor_call:
  assumes "wf_state s" and "on_descriptor c = Some fd" and "call P n c s = Some s'"
  shows "keeps fd s s'"
  using assms(2,3) keeps_refl [OF assms(1), of fd]
  by (cases c) (auto elim!: pres_state_of [rotated] intro: pres_rules)

lemma open_call:
  assumes "wf_state s" and "call P n (Open name flags mode e) s = Some s'"
  shows "spares s s'"
proof -
  obtain r where r: "fat_open P n name flags mode e s = Some (r, s')"
    using assms(2) state_of_Some by fastforce
  show ?thesis
    using fat_open_keeps [OF assms(1), of n name flags mode e "fst r" "snd r" s'] r
      spares_refl [OF assms(1)] keeps_spares
    by (auto simp: is_open_def)
qed

lemma call_wf:
  assumes "wf_state s" and "call P n c s = Some s'"
  shows "wf_state s' \<and> same_volume (fatfs s) (fatfs s')"
proof (cases "on_descriptor c")
  case (Some fd)
  from descriptor_call [OF assms(1) Some assms(2)] show ?thesis by (simp add: keeps_def)
next
  case None
  have "spares s s'"
    using None assms open_call pres_sp_unlink [OF assms(1)] pres_sp_rmdir [OF assms(1)]
      pres_sp_mkdir [OF assms(1)]
    by (cases c) (auto elim: pres_sp_state_of [rotated])
  then show ?thesis by (simp add: spares_def)
qed

lemma mounted_wf:
  assumes "fat_mount P start vol hint (startup d) = (0, s)"
  shows "wf_state s"
  using mount_wf [OF _ assms] mount_files [OF assms] closed_file_wf
  by (simp add: startup_def unmounted_def wf_state_def list_all_length)

lemma reachable_wf: "reachable P d s \<Longrightarrow> wf_state s"
  by (induction rule: reachable.induct) (use mounted_wf call_wf in blast)+

end

section \<open>Properties\<close>

text \<open>
  C1: Every state a client can reach after a successful mount is well formed, whatever the disk
  holds and however reads and writes fail: all buffers are whole blocks and every index the driver
  keeps into them is in range.
\<close>

theorem reachable_states_wf:
  assumes "reachable (pc_platform clk junk) d s"
  shows "wf_state s"
  using assms by (rule pc.reachable_wf)

text \<open>
  C12: A call on a descriptor changes no other open file and no part of the volume's description but
  the system buffer.
\<close>

theorem descriptor_calls_isolated:
  assumes "wf_state s" and "on_descriptor c = Some fd"
    and "call (pc_platform clk junk) n c s = Some s'" and "fd' \<noteq> fd"
  shows "the_file s' fd' = the_file s fd' \<and> same_volume (fatfs s) (fatfs s')"
  using pc.descriptor_call [OF assms(1-3)] assms(4) by (simp add: keeps_def)

text \<open>
  C33: Opening hands out a descriptor that was not in use, or fails; it fails with \<open>ENFILE\<close> and
  changes nothing when all are in use.
\<close>

theorem open_descriptor_fresh:
  assumes "wf_state s"
    and "fat_open (pc_platform clk junk) n name flags mode e s = Some ((rc, e'), s')"
  shows "(rc = - 1 \<or> (\<exists>fd<MAX_OPEN_FILES. rc = int fd \<and> \<not> is_open s fd)) \<and>
    ((\<forall>fd<MAX_OPEN_FILES. is_open s fd) \<longrightarrow> rc = - 1 \<and> e' = ENFILE \<and> s' = s)"
  using pc.fat_open_keeps [OF assms] by (auto simp: is_open_def)

text \<open>
  C11: Opening, unlinking, removing a directory and making one leave every file that is open as it is.
\<close>

theorem path_calls_spare_open_files:
  assumes "wf_state s" and "on_descriptor c = None"
    and "call (pc_platform clk junk) n c s = Some s'" and "fd < MAX_OPEN_FILES" and "is_open s fd"
  shows "the_file s' fd = the_file s fd"
proof -
  have "spares s s'"
    using assms(2,3) pc.open_call [OF assms(1)] pc.pres_sp_unlink [OF assms(1)]
      pc.pres_sp_rmdir [OF assms(1)] pc.pres_sp_mkdir [OF assms(1)]
    by (cases c) (auto elim: pres_sp_state_of [rotated])
  then show ?thesis using assms(4,5) by (simp add: spares_def)
qed

lemma not_open_flags:
  assumes "\<not> has f FAT_FLAG_OPEN"
  shows "has (NOT f) (FAT_FLAG_OPEN OR m)"
proof -
  have "\<not> bit f 0"
    using assms by (simp add: has_def and_one_eq flip: odd_iff_mod_2_eq_one) (simp add: bit_0)
  then have "bit (NOT f AND (1 OR m)) 0" by (simp add: bit_simps)
  then show ?thesis unfolding has_def by (metis bit_0_eq bot_apply bot_bool_def)
qed

lemma not_open_modes: "\<not> has f FAT_FLAG_OPEN \<Longrightarrow> has (NOT f) 3 \<and> has (NOT f) (5 :: byte)"
  using not_open_flags [of f 2] not_open_flags [of f 4] by simp

text \<open>
  C34: The six operations on a descriptor, the reading of a directory included, fail with \<open>EBADF\<close> and
  change nothing when the descriptor is 4 or more or is not open. (Descriptors are natural numbers
  here. The check of the code has no lower bound: a negative one passes it and is outside the model.)
\<close>

theorem bad_descriptor_rejected:
  assumes "fd \<ge> MAX_OPEN_FILES \<or> \<not> is_open s fd"
  shows "fat_close P n fd s = Some ((- 1, EBADF), s) \<and>
    fat_read P n fd count s = Some ((- 1, EBADF, []), s) \<and>
    fat_write P n fd data s = Some ((- 1, EBADF), s) \<and>
    fat_lseek P n fd ptr dir s = Some ((ptr - 1, EBADF), s) \<and>
    fat_fstat fd s = (- 1, EBADF, None) \<and>
    fat_get_next_dirent P (Suc n) fd s = Some ((- 1, EBADF, None), s)"
  using assms not_open_modes [of "f_flags (the_file s fd)"]
  by (auto simp: fat_close_def fat_read_def fat_write_def fat_lseek_def fat_fstat_def bad_fd_def
      fat_get_next_dirent_def is_open_def)

section \<open>Instances\<close>

definition demo_boot16 :: boot_sector_fat16 where
  "demo_boot16 = boot16_of (pc_view demo_dev 0)"

lemma demo_boot_fields:
  "b16_sector_size demo_boot16 = 512" "b16_cluster_size demo_boot16 = 1"
  "b16_reserved_sectors demo_boot16 = 1" "b16_num_fats demo_boot16 = 1"
  "b16_root_entries demo_boot16 = 16" "b16_total_sectors demo_boot16 = 8"
  "b16_sectors_per_fat demo_boot16 = 1"
  by (simp_all add: demo_boot16_def boot16_of_def get16_def get32_def demo_view demo_memory_def
      demo_boot_def le16_def le32_def)

lemma demo_boot_valid: "boot16_valid demo_boot16 8"
  by (simp add: boot16_valid_def demo_boot_fields has_def cluster_size_ok_def upt_rec
      word_le_nat_alt word_less_nat_alt)

lemma demo_layout:
  "finish16 demo_boot16 0 (layout16 demo_boot16 0 (unmounted\<lparr>read_only := 0, sysbuf := b\<rparr>)) =
    demo_volume\<lparr>sysbuf := b\<rparr>"
  "root_start (layout16 demo_boot16 0 v) = 2"
  by (simp_all add: finish16_def layout16_def demo_boot_fields unmounted_def demo_volume_def)

lemma demo_mount_read:
  "mount_read (pc_platform clk junk) 0 (startup demo_dev) =
    (startup demo_dev)\<lparr>fatfs := unmounted\<lparr>read_only := 0, sysbuf := pc_view demo_dev 0\<rparr>\<rparr>"
proof -
  have "pc_get_device_read_only demo_dev = 0"
    by (simp add: pc_get_device_read_only_def demo_dev_def)
  moreover have "blk_read_only (pc_platform clk junk) = pc_get_device_read_only"
    by (simp add: pc_platform_def)
  ultimately show ?thesis
    by (simp add: mount_read_def sys_block_read_def startup_def upd_fs_def demo_ok)
qed

lemma demo_mount:
  "fat_mount (pc_platform clk junk) 0 8 6 (startup demo_dev) =
    (0, (startup demo_dev)\<lparr>fatfs := demo_volume\<lparr>sysbuf := pc_view demo_dev 0\<rparr>\<rparr>)"
  using demo_boot_valid demo_layout
  by (simp add: fat_mount_def fat_mount_fat16_def Let_def demo_mount_read upd_fs_def
      flip: demo_boot16_def)

lemma reachable_states_wf_witness:
  "wf_state ((startup demo_dev)\<lparr>fatfs := demo_volume\<lparr>sysbuf := pc_view demo_dev 0\<rparr>\<rparr>)"
  by (rule reachable_states_wf [OF reachable.mounted [OF demo_mount]])

lemma mount_establishes_wf_witness:
  "wf_fat_info (demo_volume\<lparr>sysbuf := pc_view demo_dev 0\<rparr>)"
  using mount_establishes_wf [OF _ demo_mount] by (simp add: startup_def unmounted_def)

lemma demo_wf: "wf_state demo_state" "wf_state demo_open"
  using closed_file_wf demo_sizes(1)
  by (simp_all add: wf_state_def demo_state_def demo_open_def list_all_length nth_Cons' demo_file_def
      wf_file_def demo_entry_def closed_file_def)

text \<open>Closing the demonstration file, which has nothing to write back.\<close>

lemma demo_close:
  "fat_close P n 0 demo_open =
    Some ((0, 0), upd_file 0 (\<lambda>f. f\<lparr>f_flags := 0\<rparr>) demo_open)"
  by (simp add: fat_close_def bad_fd_def demo_open_def the_file_def demo_file_def has_def)

lemma descriptor_calls_isolated_witness:
  "the_file (upd_file 0 (\<lambda>f. f\<lparr>f_flags := 0\<rparr>) demo_open) 1 = the_file demo_open 1"
  using descriptor_calls_isolated [OF demo_wf(2), of "Close 0" 0 "\<lambda>_. 0" "\<lambda>_. 0" 5 _ 1] demo_close
  by (auto simp: state_of_def)

lemma demo_full_open:
  "fat_open P n name flags mode e (demo_state\<lparr>file_num := replicate 4 demo_file\<rparr>) =
    Some ((- 1, ENFILE), demo_state\<lparr>file_num := replicate 4 demo_file\<rparr>)"
  by (simp add: fat_open_def fat_get_next_file_def the_file_def demo_file_def has_def upt_rec)

lemma demo_full_wf: "wf_state (demo_state\<lparr>file_num := replicate 4 demo_file\<rparr>)"
  using demo_wf(2)
  by (auto simp: wf_state_def demo_open_def demo_state_def list_all_length dest: spec [of _ 0])

lemma open_descriptor_fresh_witness:
  "fat_open (pc_platform (\<lambda>_. 0) (\<lambda>_. 0)) 1 [0x2F] 0 0 0
      (demo_state\<lparr>file_num := replicate 4 demo_file\<rparr>) =
    Some ((- 1, ENFILE), demo_state\<lparr>file_num := replicate 4 demo_file\<rparr>) \<and>
    ((- 1 :: int) = - 1 \<or> (\<exists>fd<4. - 1 = int fd))"
  using open_descriptor_fresh [OF demo_full_wf demo_full_open] demo_full_open by blast

lemma path_calls_spare_open_files_witness:
  "the_file (demo_state\<lparr>file_num := replicate 4 demo_file\<rparr>) 2 = demo_file"
  using path_calls_spare_open_files [OF demo_full_wf, of "Open [0x2F] 0 0 0" "\<lambda>_. 0" "\<lambda>_. 0" 1 _ 2]
  by (auto simp: state_of_def demo_full_open is_open_def the_file_def demo_file_def has_def)

lemma bad_descriptor_rejected_witness:
  "fat_close (pc_platform (\<lambda>_. 0) (\<lambda>_. 0)) 1 3 demo_state = Some ((- 1, EBADF), demo_state) \<and>
    fat_read (pc_platform (\<lambda>_. 0) (\<lambda>_. 0)) 1 3 10 demo_state = Some ((- 1, EBADF, []), demo_state) \<and>
    fat_get_next_dirent (pc_platform (\<lambda>_. 0) (\<lambda>_. 0)) 2 3 demo_state = Some ((- 1, EBADF, None), demo_state)"
proof -
  have "\<not> is_open demo_state 3"
    by (simp add: is_open_def demo_state_def the_file_def closed_file_def)
  from bad_descriptor_rejected [OF disjI2 [OF this], of "pc_platform (\<lambda>_. 0) (\<lambda>_. 0)" 1] show ?thesis
    by (simp add: numeral_2_eq_2)
qed

end
