(* ===== verification/Fat_Read.thy ===== *)
theory Fat_Read
  imports Fat_Api
begin

text \<open>
  What reading delivers. The abstract file is the byte list stored in the sectors of its cluster
  chain, cut at the size in the directory entry; the theorem says that the loop of \<open>fat_read\<close>,
  with its sector buffer, its countdown of sectors and its walk along the FAT, delivers exactly
  the bytes from the position of the cursor on.
\<close>

section \<open>The bytes of a chain\<close>

definition sectors_in_cluster :: "fat_info \<Rightarrow> nat" where
  "sectors_in_cluster v = unat (sectors_per_cluster v)"

text \<open>The block of the \<open>q\<close>-th sector of a file with these clusters.\<close>

definition chain_sector :: "fat_info \<Rightarrow> nat list \<Rightarrow> nat \<Rightarrow> blockno" where
  "chain_sector v cs q =
    cluster_sector v (of_nat (cs ! (q div sectors_in_cluster v))) + of_nat (q mod sectors_in_cluster v)"

definition chain_sectors :: "fat_info \<Rightarrow> nat list \<Rightarrow> nat" where
  "chain_sectors v cs = length cs * sectors_in_cluster v"

definition chain_bytes :: "fat_info \<Rightarrow> (blockno \<Rightarrow> sector) \<Rightarrow> nat list \<Rightarrow> byte list" where
  "chain_bytes v blocks cs =
    concat (map (\<lambda>q. blocks (chain_sector v cs q)) [0..<chain_sectors v cs])"

text \<open>
  The file structure stands on sector \<open>q\<close> of the chain: its buffer holds the sector, there is
  nothing to flush, and the countdown fits the place of the sector in its cluster.
\<close>

definition on_sector :: "fat_info \<Rightarrow> (blockno \<Rightarrow> sector) \<Rightarrow> nat list \<Rightarrow> nat \<Rightarrow> FileS \<Rightarrow> bool" where
  "on_sector v blocks cs q f \<longleftrightarrow>
    q < chain_sectors v cs \<and> \<not> has (f_flags f) FAT_FLAG_DIRTY \<and> f_file_sector f = of_nat q \<and>
    f_cluster f = of_nat (cs ! (q div sectors_in_cluster v)) \<and> f_sector f = chain_sector v cs q \<and>
    unat (f_sectors_left f) = sectors_in_cluster v - 1 - q mod sectors_in_cluster v \<and>
    f_buffer f = blocks (chain_sector v cs q)"

lemma nth_concat_uniform:
  assumes "\<forall>xs\<in>set xss. length xs = m" and "i < length xss" and "r < m"
  shows "concat xss ! (m * i + r) = xss ! i ! r"
  using assms
proof (induction xss arbitrary: i)
  case Nil
  then show ?case by simp
next
  case (Cons x xss)
  show ?case
  proof (cases i)
    case 0
    then show ?thesis using Cons.prems by (simp add: nth_append)
  next
    case (Suc j)
    then have "concat (x # xss) ! (m * i + r) = concat xss ! (m * j + r)"
      using Cons.prems(1) by (simp add: nth_append)
    then show ?thesis using Cons.IH [of j] Cons.prems Suc by simp
  qed
qed

lemma length_concat_uniform: "\<forall>xs\<in>set xss. length xs = m \<Longrightarrow> length (concat xss) = m * length xss"
  by (induction xss) simp_all

lemma length_chain_bytes:
  "\<forall>b. length (blocks b) = 512 \<Longrightarrow> length (chain_bytes v blocks cs) = 512 * chain_sectors v cs"
  unfolding chain_bytes_def by (subst length_concat_uniform [where m = 512]) simp_all

lemma chain_bytes_nth:
  assumes "\<forall>b. length (blocks b) = 512" and "q < chain_sectors v cs" and "r < 512"
  shows "chain_bytes v blocks cs ! (512 * q + r) = blocks (chain_sector v cs q) ! r"
  unfolding chain_bytes_def using assms by (subst nth_concat_uniform [where m = 512]) auto

lemma fat_chain_link:
  assumes "fat_chain v cell cs" and "Suc i < length cs"
  shows "cell (cs ! i) = of_nat (cs ! Suc i)" and "cell (cs ! i) < end_cluster_marker v"
proof -
  have "cell (cs ! i) = of_nat (cs ! Suc i) \<and> of_nat (cs ! Suc i) < end_cluster_marker v"
    using assms
  proof (induction v cell cs arbitrary: i rule: fat_chain.induct)
    case (3 v cell c d cs)
    show ?case
    proof (cases i)
      case 0
      then show ?thesis using "3.prems" by auto
    next
      case (Suc j)
      then show ?thesis using "3.IH" [of j] "3.prems" by simp
    qed
  qed simp_all
  then show "cell (cs ! i) = of_nat (cs ! Suc i)" and "cell (cs ! i) < end_cluster_marker v"
    by simp_all
qed

lemma cluster_number_small:
  assumes "regular_fat v" and "c < fat_clusters v"
  shows "c < 2 ^ 31"
proof -
  have "c < unat (sectors_per_fat v) * 256"
    using assms wf_entry_len [of v]
    by (auto simp: fat_clusters_def regular_fat_def elim: less_le_trans)
  also have "\<dots> < 2 ^ 23 * 256"
    using assms(1) by (intro mult_strict_right_mono) (simp_all add: regular_fat_def)
  finally show ?thesis by simp
qed

section \<open>Stepping to the next sector\<close>

lemma sectors_in_cluster_pos: "wf_fat_info v \<Longrightarrow> 0 < sectors_in_cluster v \<and> sectors_in_cluster v \<le> 128"
  using cluster_size_ok_pos by (simp add: wf_fat_info_def sectors_in_cluster_def)

lemma flush_clean:
  "\<not> has (f_flags (the_file s fd)) FAT_FLAG_DIRTY \<Longrightarrow> fat_flush_with P ffi fd s = Some (0, s)"
  by (simp add: fat_flush_with_def)

lemma int_of_cluster:
  assumes "c < 2 ^ 31"
  shows "sint (of_nat c :: u32) = int c" and "word_of_int (int c) = (of_nat c :: u32)"
proof -
  have "signed_take_bit 31 (int c) = int c"
    using assms by (intro signed_take_bit_int_eq_self) (simp_all add: zless_nat_eq_int_zless)
  then show "sint (of_nat c :: u32) = int c"
    by (simp add: signed_of_nat)
  show "word_of_int (int c) = (of_nat c :: u32)" by simp
qed

lemma unat_of_cluster: "c < 2 ^ 31 \<Longrightarrow> unat (of_nat c :: u32) = c"
  by (simp add: unat_of_nat take_bit_nat_eq_self)

text \<open>What the volume and the file must be for reading along the chain \<open>cs\<close>.\<close>

definition chain_on_disk ::
  "('d \<Rightarrow> blockno \<Rightarrow> bool) \<Rightarrow> ('d \<Rightarrow> blockno \<Rightarrow> sector) \<Rightarrow> 'd gstate \<Rightarrow> nat list \<Rightarrow> bool" where
  "chain_on_disk ok view s cs \<longleftrightarrow>
    regular_fat (fatfs s) \<and> fat_present ok (dev s) (fatfs s) \<and>
    fat_chain (fatfs s) (fat_of view s) cs \<and> (\<forall>c\<in>set cs. 2 \<le> c) \<and>
    (\<forall>q<chain_sectors (fatfs s) cs. ok (dev s) (chain_sector (fatfs s) cs q))"

text \<open>The file as the loop of \<open>fat_read\<close> leaves it alone: only its place and its buffer move.\<close>

definition same_file :: "FileS \<Rightarrow> FileS \<Rightarrow> bool" where
  "same_file f f' \<longleftrightarrow>
    f_flags f' = f_flags f \<and> f_attributes f' = f_attributes f \<and> f_size f' = f_size f \<and>
    f_full_first_cluster f' = f_full_first_cluster f"

lemma same_file_refl [simp]: "same_file f f"
  by (simp add: same_file_def)

lemma same_file_trans: "same_file f f' \<Longrightarrow> same_file f' f'' \<Longrightarrow> same_file f f''"
  by (simp add: same_file_def)

lemma upd_file_twice [simp]: "upd_file fd g (upd_file fd h s) = upd_file fd (g \<circ> h) s"
  by (cases "fd < length (file_num s)") (simp_all add: upd_file_def list_update_beyond)

lemma upd_file_id: "fd < length (file_num s) \<Longrightarrow> g (the_file s fd) = the_file s fd \<Longrightarrow> upd_file fd g s = s"
  by (simp add: upd_file_def the_file_def)

lemma upd_file_cong:
  "g (the_file s fd) = h (the_file s fd) \<Longrightarrow> upd_file fd g s = upd_file fd h s"
  by (simp add: upd_file_def the_file_def)

lemma chain_on_disk_upd [simp]: "chain_on_disk ok view (upd_file fd g s) cs = chain_on_disk ok view s cs"
  by (simp add: chain_on_disk_def fat_of_def)

lemma next_in_cluster:
  assumes "wf_fat_info v" and "q mod sectors_in_cluster v < sectors_in_cluster v - 1"
  shows "Suc q div sectors_in_cluster v = q div sectors_in_cluster v"
    "Suc q mod sectors_in_cluster v = Suc (q mod sectors_in_cluster v)"
  using assms by (simp_all add: div_Suc mod_Suc)

lemma next_cluster_index:
  assumes "wf_fat_info v" and "\<not> q mod sectors_in_cluster v < sectors_in_cluster v - 1"
  shows "Suc q div sectors_in_cluster v = Suc (q div sectors_in_cluster v)"
    "Suc q mod sectors_in_cluster v = 0"
proof -
  have "q mod sectors_in_cluster v < sectors_in_cluster v"
    using sectors_in_cluster_pos [OF assms(1)] by simp
  then have "Suc (q mod sectors_in_cluster v) = sectors_in_cluster v" using assms(2) by linarith
  then show "Suc q div sectors_in_cluster v = Suc (q div sectors_in_cluster v)"
    "Suc q mod sectors_in_cluster v = 0"
    by (simp_all add: div_Suc mod_Suc)
qed

lemma sector_cluster_less: "q < chain_sectors v cs \<Longrightarrow> q div sectors_in_cluster v < length cs"
  by (simp add: chain_sectors_def less_mult_imp_div_less)

context block_device
begin

lemma file_read_ok:
  "ok (dev s) b \<Longrightarrow> file_block_read P fd b s = (0, upd_file fd (\<lambda>f. f\<lparr>f_buffer := view (dev s) b\<rparr>) s)"
  by (simp add: file_block_read_def)

lemma next_sector_in_cluster:
  assumes chain: "chain_on_disk ok view s cs" and fd: "fd < length (file_num s)"
    and on: "on_sector (fatfs s) (view (dev s)) cs q (the_file s fd)"
    and q: "Suc q < chain_sectors (fatfs s) cs"
    and inside: "q mod sectors_in_cluster (fatfs s) < sectors_in_cluster (fatfs s) - 1"
  shows "\<exists>f'. fat_next_sector_with P ffi fd s = Some (0, upd_file fd (\<lambda>_. f') s) \<and>
    on_sector (fatfs s) (view (dev s)) cs (Suc q) f' \<and> f_cursor f' = 0 \<and> same_file (the_file s fd) f'"
proof -
  let ?v = "fatfs s" and ?f = "the_file s fd"
  let ?f' = "step_sector ?f\<lparr>f_buffer := view (dev s) (chain_sector ?v cs (Suc q))\<rparr>"
  have wf: "wf_fat_info ?v" using chain by (simp add: chain_on_disk_def regular_fat_def)
  note step = next_in_cluster [OF wf inside]
  have left: "unat (f_sectors_left ?f) = sectors_in_cluster ?v - 1 - q mod sectors_in_cluster ?v"
    and clean: "\<not> has (f_flags ?f) FAT_FLAG_DIRTY" using on by (simp_all add: on_sector_def)
  then have pos: "0 < f_sectors_left ?f" using inside by (simp add: word_less_nat_alt)
  have sec: "f_sector ?f + 1 = chain_sector ?v cs (Suc q)"
    using on step by (simp add: on_sector_def chain_sector_def add.assoc add.commute)
  have "unat (f_sectors_left ?f - 1) = sectors_in_cluster ?v - 1 - Suc q mod sectors_in_cluster ?v"
    using left pos step(2) by (simp add: unat_sub word_le_nat_alt word_less_nat_alt)
  then have "on_sector ?v (view (dev s)) cs (Suc q) ?f'"
    using on q sec step by (simp add: on_sector_def step_sector_def)
  moreover have "ok (dev s) (chain_sector ?v cs (Suc q))"
    using chain q by (simp add: chain_on_disk_def)
  then have "fat_next_sector_with P ffi fd s = Some (0, upd_file fd (\<lambda>_. ?f') s)"
    using clean pos fd sec
    by (simp add: fat_next_sector_with_def flush_clean file_read_ok)
      (simp add: step_sector_def sec file_read_ok, rule upd_file_cong, simp add: step_sector_def sec)
  ultimately show ?thesis by (intro exI [of _ ?f']) (simp add: step_sector_def same_file_def)
qed

lemma next_cluster_reading:
  assumes chain: "chain_on_disk ok view s cs" and fd: "fd < length (file_num s)"
    and clean: "\<not> has (f_flags (the_file s fd)) FAT_FLAG_DIRTY"
    and i: "Suc i < length cs" and here: "f_cluster (the_file s fd) = of_nat (cs ! i)"
  shows "\<exists>buf. fat_next_cluster_with P ffi fd s =
    Some ((int (cs ! Suc i), 0), upd_file fd (\<lambda>f. f\<lparr>f_buffer := buf\<rparr>) s)"
proof -
  let ?v = "fatfs s" and ?c = "cs ! i" and ?d = "cs ! Suc i"
  have reg: "regular_fat ?v" and present: "fat_present ok (dev s) ?v"
    and links: "fat_chain ?v (fat_of view s) cs"
    using chain by (simp_all add: chain_on_disk_def)
  have in_chain: "?c \<in> set cs" "?d \<in> set cs" using i by simp_all
  then have c: "?c < fat_clusters ?v" "?d < fat_clusters ?v" and two: "2 \<le> ?c" "2 \<le> ?d"
    using fat_chain_bound [OF links] chain by (auto simp: chain_on_disk_def)
  note small = c [THEN cluster_number_small [OF reg]]
  have cell: "fat_entry_at (fs_type ?v) (view (dev s) (cell_block ?v ?c)) (cell_offset ?v ?c) = of_nat ?d"
    and below: "of_nat ?d < end_cluster_marker ?v"
    using fat_chain_link [OF links i] by (simp_all add: fat_of_def fat_cell_def)
  have not1: "(of_nat ?c :: u32) \<noteq> 1" and not2: "\<not> (of_nat ?d :: u32) < 2"
    using unat_of_cluster [OF small(1)] unat_of_cluster [OF small(2)] two
    by (auto simp: word_less_nat_alt)
  show ?thesis
    using clean here fd fat_present_cell [OF present reg c(1)] cell below not1 not2
      fat_block_of_nat [OF reg c(1)] int_of_cluster(1) [OF small(2)]
    by (intro exI [of _ "view (dev s) (cell_block ?v ?c)"])
      (simp add: fat_next_cluster_with_def Let_def flush_clean file_read_ok not_le [symmetric])
qed

lemma next_sector_other_cluster:
  assumes chain: "chain_on_disk ok view s cs" and fd: "fd < length (file_num s)"
    and on: "on_sector (fatfs s) (view (dev s)) cs q (the_file s fd)"
    and q: "Suc q < chain_sectors (fatfs s) cs"
    and last: "\<not> q mod sectors_in_cluster (fatfs s) < sectors_in_cluster (fatfs s) - 1"
  shows "\<exists>f'. fat_next_sector_with P ffi fd s = Some (0, upd_file fd (\<lambda>_. f') s) \<and>
    on_sector (fatfs s) (view (dev s)) cs (Suc q) f' \<and> f_cursor f' = 0 \<and> same_file (the_file s fd) f'"
proof -
  let ?v = "fatfs s" and ?f = "the_file s fd" and ?i = "q div sectors_in_cluster (fatfs s)"
  let ?d = "cs ! Suc ?i"
  let ?f' = "?f\<lparr>f_file_sector := f_file_sector ?f + 1, f_sector := cluster_sector ?v (of_nat ?d),
    f_sectors_left := sectors_per_cluster ?v - 1, f_cluster := of_nat ?d, f_cursor := 0,
    f_buffer := view (dev s) (cluster_sector ?v (of_nat ?d))\<rparr>"
  have wf: "wf_fat_info ?v" and reg: "regular_fat ?v"
    using chain by (simp_all add: chain_on_disk_def regular_fat_def)
  note step = next_cluster_index [OF wf last] and pos = sectors_in_cluster_pos [OF wf]
  have clean: "\<not> has (f_flags ?f) FAT_FLAG_DIRTY" and here: "f_cluster ?f = of_nat (cs ! ?i)"
    and "unat (f_sectors_left ?f) = 0"
    using on last by (simp_all add: on_sector_def)
  then have none_left: "f_sectors_left ?f = 0" by (simp add: unat_eq_0)
  have i: "Suc ?i < length cs" using sector_cluster_less [OF q] step(1) by simp
  then have "?d \<in> set cs" by simp
  then have d: "?d < fat_clusters ?v" "2 \<le> ?d"
    using fat_chain_bound [of ?v "fat_of view s" cs ?d] chain by (auto simp: chain_on_disk_def)
  note small = cluster_number_small [OF reg d(1)]
  have not1: "(of_nat ?d :: u32) \<noteq> 1" using unat_of_cluster [OF small] d(2) by auto
  obtain buf where buf: "fat_next_cluster_with P ffi fd s =
      Some ((int ?d, 0), upd_file fd (\<lambda>f. f\<lparr>f_buffer := buf\<rparr>) s)"
    using next_cluster_reading [OF chain fd clean i here] by blast
  have sec: "chain_sector ?v cs (Suc q) = cluster_sector ?v (of_nat ?d)"
    using step by (simp add: chain_sector_def)
  have "ok (dev s) (chain_sector ?v cs (Suc q))"
    using chain q by (simp add: chain_on_disk_def)
  then have okd: "ok (dev s) (cluster_sector ?v (of_nat ?d))" by (simp add: sec)
  have "fat_next_sector_with P ffi fd s = Some (0, upd_file fd (\<lambda>_. ?f') s)"
    using clean none_left fd not1 okd
    by (simp add: fat_next_sector_with_def flush_clean buf fat_select_cluster_def Let_def file_read_ok
        cong: if_cong) (rule upd_file_cong, simp)
  moreover have "unat (sectors_per_cluster ?v - 1) = sectors_in_cluster ?v - 1"
    using pos by (simp add: sectors_in_cluster_def unat_sub word_le_nat_alt)
  then have "on_sector ?v (view (dev s)) cs (Suc q) ?f'"
    using on q step sec by (simp add: on_sector_def)
  ultimately show ?thesis by (intro exI [of _ ?f']) (simp add: same_file_def)
qed

lemma next_sector_reading:
  assumes "chain_on_disk ok view s cs" and "fd < length (file_num s)"
    and "on_sector (fatfs s) (view (dev s)) cs q (the_file s fd)"
    and "Suc q < chain_sectors (fatfs s) cs"
  shows "\<exists>f'. fat_next_sector_with P ffi fd s = Some (0, upd_file fd (\<lambda>_. f') s) \<and>
    on_sector (fatfs s) (view (dev s)) cs (Suc q) f' \<and> f_cursor f' = 0 \<and> same_file (the_file s fd) f'"
  using next_sector_in_cluster [OF assms] next_sector_other_cluster [OF assms] by blast

end

section \<open>The loop of \<open>fat_read\<close>\<close>

text \<open>The file structure stands at byte \<open>p\<close>.\<close>

definition reading_at :: "fat_info \<Rightarrow> (blockno \<Rightarrow> sector) \<Rightarrow> nat list \<Rightarrow> nat \<Rightarrow> FileS \<Rightarrow> bool" where
  "reading_at v blocks cs p f \<longleftrightarrow>
    (\<exists>q. on_sector v blocks cs q f \<and> unat (f_cursor f) \<le> 512 \<and> p = 512 * q + unat (f_cursor f))"

text \<open>What a regular file of the chain \<open>cs\<close> holds, and the limits of its 32 bit arithmetic.\<close>

definition file_bytes :: "('d \<Rightarrow> blockno \<Rightarrow> sector) \<Rightarrow> 'd gstate \<Rightarrow> nat list \<Rightarrow> FileS \<Rightarrow> byte list" where
  "file_bytes view s cs f = take (unat (f_size f)) (chain_bytes (fatfs s) (view (dev s)) cs)"

definition regular_file :: "fat_info \<Rightarrow> nat list \<Rightarrow> FileS \<Rightarrow> bool" where
  "regular_file v cs f \<longleftrightarrow>
    \<not> has (f_attributes f) FAT_ATT_SUBDIR \<and> unat (f_size f) \<le> 512 * chain_sectors v cs \<and>
    512 * chain_sectors v cs < 2 ^ 32"

lemma same_file_regular: "same_file f f' \<Longrightarrow> regular_file v cs f' = regular_file v cs f"
  by (simp add: same_file_def regular_file_def)

lemma unat_of_nat32: "n < 2 ^ 32 \<Longrightarrow> unat (of_nat n :: u32) = n"
  by (simp add: unat_of_nat take_bit_nat_eq_self)

lemma file_pos_reading:
  assumes "on_sector v blocks cs q f" and "unat (f_cursor f) \<le> 512"
    and "512 * q + unat (f_cursor f) < 2 ^ 32"
  shows "unat (file_pos f) = 512 * q + unat (f_cursor f)"
proof -
  have "file_pos f = of_nat (512 * q + unat (f_cursor f))"
    using assms(1) by (simp add: file_pos_def on_sector_def ac_simps)
  then show ?thesis using assms(3) by (simp only: unat_of_nat32)
qed

lemma at_eof_reading:
  assumes "reading_at v blocks cs p f" and "regular_file v cs f"
  shows "at_eof f \<longleftrightarrow> unat (f_size f) \<le> p"
proof -
  obtain q where q: "on_sector v blocks cs q f" "unat (f_cursor f) \<le> 512"
    "p = 512 * q + unat (f_cursor f)"
    using assms(1) by (auto simp: reading_at_def)
  have "p \<le> 512 * chain_sectors v cs" using q by (simp add: on_sector_def)
  then have "unat (file_pos f) = p"
    using file_pos_reading [OF q(1,2)] q(3) assms(2) by (simp add: regular_file_def)
  then show ?thesis
    using assms(2) by (simp add: at_eof_def regular_file_def word_le_nat_alt)
qed

lemma reading_take_byte:
  assumes "on_sector v blocks cs q f" and "unat (f_cursor f) < 512"
  shows "reading_at v blocks cs (Suc (512 * q + unat (f_cursor f))) (take_byte f)"
proof -
  have "unat (f_cursor f + 1) = Suc (unat (f_cursor f))"
    using assms(2) by (simp add: unat_word_ariths)
  then show ?thesis
    using assms by (auto simp: reading_at_def take_byte_def on_sector_def intro!: exI [of _ q])
qed

lemma take_drop_Suc: "p < length xs \<Longrightarrow> take (Suc k) (drop p xs) = xs ! p # take k (drop (Suc p) xs)"
  by (simp flip: Cons_nth_drop_Suc)

context block_device
begin

text \<open>One round of the loop: the cursor moves to the next sector first, when it is past the buffer.\<close>

lemma reading_advance:
  assumes chain: "chain_on_disk ok view s cs" and fd: "fd < length (file_num s)"
    and at: "reading_at (fatfs s) (view (dev s)) cs p (the_file s fd)"
    and p: "p < 512 * chain_sectors (fatfs s) cs"
  shows "\<exists>f' q. (if f_cursor (the_file s fd) = 512 then fat_next_sector P n fd s else Some (0, s)) =
      Some (0, upd_file fd (\<lambda>_. f') s) \<and> same_file (the_file s fd) f' \<and>
    on_sector (fatfs s) (view (dev s)) cs q f' \<and> unat (f_cursor f') < 512 \<and>
    p = 512 * q + unat (f_cursor f')"
proof -
  let ?f = "the_file s fd"
  obtain q where q: "on_sector (fatfs s) (view (dev s)) cs q ?f" "unat (f_cursor ?f) \<le> 512"
    "p = 512 * q + unat (f_cursor ?f)"
    using at by (auto simp: reading_at_def)
  show ?thesis
  proof (cases "f_cursor ?f = 512")
    case True
    then have "Suc q < chain_sectors (fatfs s) cs" using q(3) p by simp
    then obtain f' where f': "fat_next_sector P n fd s = Some (0, upd_file fd (\<lambda>_. f') s)"
      "on_sector (fatfs s) (view (dev s)) cs (Suc q) f'" "f_cursor f' = 0" "same_file ?f f'"
      using next_sector_reading [OF chain fd q(1), of "fat_flush_fileinfo P n"]
      unfolding fat_next_sector_def by blast
    then show ?thesis using True q(3) by (intro exI [of _ f'] exI [of _ "Suc q"]) simp
  next
    case False
    then have "unat (f_cursor ?f) \<noteq> 512" using word_unat_eq_iff [of "f_cursor ?f" 512] by simp
    moreover have "upd_file fd (\<lambda>_. ?f) s = s" using fd by (simp add: upd_file_id)
    ultimately show ?thesis
      using False q by (intro exI [of _ ?f] exI [of _ q]) simp
  qed
qed

lemma read_loop_bytes:
  assumes "chain_on_disk ok view s cs" and "fd < length (file_num s)"
    and "regular_file (fatfs s) cs (the_file s fd)"
    and "reading_at (fatfs s) (view (dev s)) cs p (the_file s fd)"
  shows "\<exists>f'. read_loop P n fd k s =
      Some (take k (drop p (file_bytes view s cs (the_file s fd))), upd_file fd (\<lambda>_. f') s) \<and>
    same_file (the_file s fd) f' \<and>
    reading_at (fatfs s) (view (dev s)) cs
      (p + length (take k (drop p (file_bytes view s cs (the_file s fd))))) f'"
  using assms
proof (induction k arbitrary: s p)
  case 0
  then show ?case by (intro exI [of _ "the_file s fd"]) (simp add: upd_file_id)
next
  case (Suc k)
  let ?f = "the_file s fd" and ?bytes = "file_bytes view s cs (the_file s fd)"
  have len: "length ?bytes = unat (f_size ?f)"
    using Suc.prems(3) length_chain_bytes [of "view (dev s)"]
    by (simp add: file_bytes_def regular_file_def)
  note eof = at_eof_reading [OF Suc.prems(4,3)]
  show ?case
  proof (cases "at_eof ?f")
    case True
    then show ?thesis using eof len Suc.prems(2,4) by (intro exI [of _ ?f]) (simp add: upd_file_id)
  next
    case False
    then have p: "p < length ?bytes" using eof len by simp
    then have "p < 512 * chain_sectors (fatfs s) cs"
      using len Suc.prems(3) by (simp add: regular_file_def)
    from reading_advance [OF Suc.prems(1,2,4) this] obtain f1 q where
      f1: "(if f_cursor ?f = 512 then fat_next_sector P n fd s else Some (0, s)) =
        Some (0, upd_file fd (\<lambda>_. f1) s)" "same_file ?f f1"
        "on_sector (fatfs s) (view (dev s)) cs q f1" "unat (f_cursor f1) < 512"
        "p = 512 * q + unat (f_cursor f1)"
      by blast
    let ?s2 = "upd_file fd (\<lambda>_. take_byte f1) s"
    have same: "same_file ?f (take_byte f1)"
      using f1(2) by (simp add: same_file_def take_byte_def)
    have "f_buffer f1 ! unat (f_cursor f1) = chain_bytes (fatfs s) (view (dev s)) cs ! p"
      using f1(3-5) chain_bytes_nth [of "view (dev s)" q "fatfs s" cs "unat (f_cursor f1)"]
      by (simp add: on_sector_def)
    then have byte: "f_buffer f1 ! unat (f_cursor f1) = ?bytes ! p"
      using p by (simp add: file_bytes_def)
    have bytes2: "file_bytes view ?s2 cs (the_file ?s2 fd) = ?bytes"
      using same Suc.prems(2) by (simp add: file_bytes_def same_file_def)
    obtain f' where f': "read_loop P n fd k ?s2 = Some (take k (drop (Suc p) ?bytes), upd_file fd (\<lambda>_. f') ?s2)"
      "same_file (take_byte f1) f'"
      "reading_at (fatfs s) (view (dev s)) cs (Suc p + length (take k (drop (Suc p) ?bytes))) f'"
      using Suc.IH [of ?s2 "Suc p"] Suc.prems(1-3) bytes2 same_file_regular [OF same]
        reading_take_byte [OF f1(3,4)] f1(5) by auto
    have "upd_file fd take_byte (upd_file fd (\<lambda>_. f1) s) = ?s2" by (simp add: comp_def)
    then have "read_loop P n fd (Suc k) s =
        Some (take (Suc k) (drop p ?bytes), upd_file fd (\<lambda>_. f') s)"
      using False f1(1) f'(1) byte take_drop_Suc [OF p, of k] Suc.prems(2) by (simp add: comp_def)
    moreover have "Suc p + length (take k (drop (Suc p) ?bytes)) =
        p + length (take (Suc k) (drop p ?bytes))"
      using p by (simp add: min_def) linarith
    ultimately show ?thesis
      using f'(3) same_file_trans [OF same f'(2)] by (intro exI [of _ f']) (simp only: simp_thms)
  qed
qed

end

section \<open>Properties\<close>

text \<open>Reading the clock and noting the access moves neither the cursor nor the buffer.\<close>

lemma update_atime_reading:
  assumes "fd < length (file_num s)"
  shows "dev (fat_update_atime P fd s) = dev s" "fatfs (fat_update_atime P fd s) = fatfs s"
    "reading_at v blocks cs p (the_file (fat_update_atime P fd s) fd) =
      reading_at v blocks cs p (the_file s fd)"
proof -
  have "has (f OR FAT_FLAG_FS_DIRTY) FAT_FLAG_DIRTY = has f FAT_FLAG_DIRTY" for f
    by (simp add: has_or) (simp add: has_def)
  then show "dev (fat_update_atime P fd s) = dev s" "fatfs (fat_update_atime P fd s) = fatfs s"
    "reading_at v blocks cs p (the_file (fat_update_atime P fd s) fd) =
      reading_at v blocks cs p (the_file s fd)"
    using assms by (simp_all add: fat_update_atime_def now_def reading_at_def on_sector_def)
qed

lemma read_delivers:
  assumes "chain_on_disk pc_ok pc_view s cs" and "wf_state s" and "fd < MAX_OPEN_FILES"
    and "\<not> has (NOT (f_flags (the_file s fd))) (FAT_FLAG_OPEN OR FAT_FLAG_READ)"
    and "regular_file (fatfs s) cs (the_file s fd)"
    and "reading_at (fatfs s) (pc_view (dev s)) cs p (the_file s fd)" and "unat count < 2 ^ 31"
  shows "let bytes = take (unat count) (drop p (file_bytes pc_view s cs (the_file s fd))) in
    \<exists>s'. fat_read (pc_platform clk junk) n fd count s = Some ((int (length bytes), 0, bytes), s') \<and>
      dev s' = dev s \<and> fatfs s' = fatfs s \<and>
      reading_at (fatfs s) (pc_view (dev s)) cs (p + length bytes) (the_file s' fd)"
proof -
  let ?P = "pc_platform clk junk"
  let ?bytes = "take (unat count) (drop p (file_bytes pc_view s cs (the_file s fd)))"
  have fd: "fd < length (file_num s)" using assms(2,3) by (simp add: wf_state_def)
  obtain f' where f': "read_loop ?P n fd (unat count) s = Some (?bytes, upd_file fd (\<lambda>_. f') s)"
    "reading_at (fatfs s) (pc_view (dev s)) cs (p + length ?bytes) f'"
    using pc.read_loop_bytes [OF assms(1) fd assms(5,6)] by blast
  let ?s1 = "upd_file fd (\<lambda>_. f') s"
  let ?s' = "if ?bytes \<noteq> [] then fat_update_atime ?P fd ?s1 else ?s1"
  have "length ?bytes < 2 ^ 31" using assms(7) by simp
  then have "sint (of_nat (length ?bytes) :: u32) = int (length ?bytes)" by (rule int_of_cluster)
  then have "fat_read ?P n fd count s = Some ((int (length ?bytes), 0, ?bytes), ?s')"
    using assms(3,4) f'(1) by (simp add: fat_read_def)
  moreover have "dev ?s' = dev s" "fatfs ?s' = fatfs s"
    "reading_at (fatfs s) (pc_view (dev s)) cs (p + length ?bytes) (the_file ?s' fd)"
    using f'(2) fd update_atime_reading [where fd = fd and s = ?s1 and P = ?P] by simp_all
  ultimately show ?thesis by (simp only: Let_def) blast
qed

text \<open>
  C2: Reading a regular file delivers the bytes of its cluster chain from the position of the
  cursor on, as many as asked for and as there are below the size, moves the position behind them
  and leaves the disk as it is. No fuel is needed: the call always returns.
\<close>

theorem fat_read_delivers:
  assumes "chain_on_disk pc_ok pc_view s cs" and "wf_state s" and "fd < MAX_OPEN_FILES"
    and "\<not> has (NOT (f_flags (the_file s fd))) (FAT_FLAG_OPEN OR FAT_FLAG_READ)"
    and "regular_file (fatfs s) cs (the_file s fd)"
    and "reading_at (fatfs s) (pc_view (dev s)) cs p (the_file s fd)" and "unat count < 2 ^ 31"
  shows "let bytes = take (unat count) (drop p (file_bytes pc_view s cs (the_file s fd))) in
    \<exists>s'. fat_read (pc_platform clk junk) n fd count s = Some ((int (length bytes), 0, bytes), s') \<and>
      dev s' = dev s \<and> fatfs s' = fatfs s \<and>
      reading_at (fatfs s) (pc_view (dev s)) cs (p + length bytes) (the_file s' fd)"
  using read_delivers [OF assms] .

text \<open>The demonstration file: all 600 bytes of its two clusters, and no byte of the rest of them.\<close>

lemma demo_chain: "chain_on_disk pc_ok pc_view demo_open [2, 3]"
proof -
  have v: "fatfs demo_open = demo_volume" "dev demo_open = demo_dev" "dev demo_state = demo_dev"
    by (simp_all add: demo_open_def demo_state_def)
  have "fat_of pc_view demo_open = fat_of pc_view demo_state" by (simp add: fat_of_def v)
  then have "fat_chain demo_volume (fat_of pc_view demo_open) [2, 3]" using demo_cells by simp
  moreover have "q < chain_sectors demo_volume [2, 3] \<Longrightarrow> pc_ok demo_dev (chain_sector demo_volume [2, 3] q)"
    for q
  proof -
    assume "q < chain_sectors demo_volume [2, 3]"
    then have "q = 0 \<or> q = 1"
      by (auto simp: chain_sectors_def sectors_in_cluster_def demo_volume_def)
    then show "pc_ok demo_dev (chain_sector demo_volume [2, 3] q)"
      by (auto simp: demo_ok chain_sector_def sectors_in_cluster_def demo_volume_def cluster_sector_def)
  qed
  ultimately show ?thesis
    using demo_ready by (simp add: chain_on_disk_def fat_ready_def v)
qed

lemma demo_blocks:
  "chain_sectors demo_volume [2, 3] = 2" "chain_sector demo_volume [2, 3] 0 = 3"
  "chain_sector demo_volume [2, 3] (Suc 0) = 4"
  by (simp_all add: chain_sectors_def chain_sector_def sectors_in_cluster_def demo_volume_def
      cluster_sector_def)

lemma demo_bytes: "file_bytes pc_view demo_open [2, 3] demo_file = replicate 600 0x61"
proof (rule nth_equalityI)
  have len: "length (chain_bytes demo_volume (pc_view demo_dev) [2, 3]) = 1024"
    by (simp add: length_chain_bytes demo_blocks)
  then show "length (file_bytes pc_view demo_open [2, 3] demo_file) = length (replicate 600 (0x61 :: byte))"
    by (simp add: file_bytes_def demo_open_def demo_state_def demo_file_def)
  fix i assume "i < length (file_bytes pc_view demo_open [2, 3] demo_file)"
  then have i: "i < 600" by (simp add: file_bytes_def demo_file_def)
  have "chain_bytes demo_volume (pc_view demo_dev) [2, 3] ! (512 * q + r) = 0x61"
    if "i = 512 * q + r" "r < 512" for q r
  proof -
    have "q = 0 \<or> q = 1" using that i by auto
    then show ?thesis
      using that i chain_bytes_nth [of "pc_view demo_dev" q demo_volume "[2, 3]" r]
      by (auto simp: demo_blocks demo_view demo_memory_def)
  qed
  from this [of "i div 512" "i mod 512"]
  show "file_bytes pc_view demo_open [2, 3] demo_file ! i = replicate 600 0x61 ! i"
    using i by (simp add: file_bytes_def demo_file_def demo_open_def demo_state_def)
qed

lemma demo_reading: "reading_at demo_volume (pc_view demo_dev) [2, 3] 0 demo_file"
proof -
  have "pc_view demo_dev 3 = replicate 512 0x61"
    by (rule nth_equalityI) (simp_all add: demo_view demo_memory_def pc.length_view)
  then have "on_sector demo_volume (pc_view demo_dev) [2, 3] 0 demo_file"
    by (simp add: on_sector_def demo_blocks demo_file_def has_def closed_file_def)
      (simp add: sectors_in_cluster_def demo_volume_def)
  then show ?thesis
    by (auto simp: reading_at_def demo_file_def closed_file_def intro!: exI [of _ 0])
qed

lemma fat_read_delivers_witness:
  "\<exists>s'. fat_read (pc_platform (\<lambda>_. 0) (\<lambda>_. 0)) 0 0 1000 demo_open =
    Some ((600, 0, replicate 600 0x61), s') \<and> dev s' = dev demo_open"
proof -
  have f: "the_file demo_open 0 = demo_file" "fatfs demo_open = demo_volume" "dev demo_open = demo_dev"
    by (simp_all add: demo_open_def the_file_def demo_state_def)
  have "regular_file demo_volume [2, 3] demo_file"
    by (simp add: regular_file_def demo_blocks demo_file_def closed_file_def)
  moreover have "\<not> has (NOT (f_flags demo_file)) (FAT_FLAG_OPEN OR FAT_FLAG_READ)"
    by (simp add: demo_file_def has_def)
  ultimately show ?thesis
    using fat_read_delivers [OF demo_chain demo_wf(2), of 0 0 1000 "\<lambda>_. 0" "\<lambda>_. 0" 0] demo_reading
    by (auto simp: f demo_bytes Let_def)
qed

end
