(* ===== verification/Fat_Fuel.thy ===== *)
theory Fat_Fuel
  imports Fat_Read
begin

text \<open>
  What the fuel of the driver's model means. More fuel never changes a result, so that \<open>None\<close> only
  says that the code has not returned yet. And the fuel is needed for the search of a free directory
  slot and for endless directory listings only: a file that has its directory entry is read,
  written, positioned and closed with a fuel of two.
\<close>

section \<open>More fuel never changes a result\<close>

definition more :: "'a option \<Rightarrow> 'a option \<Rightarrow> bool" where
  "more m m' \<longleftrightarrow> m = None \<or> m' = m"

named_theorems fuel_rules

lemma more_refl [fuel_rules]: "more m m"
  by (simp add: more_def)

lemma more_None [fuel_rules]: "more None m"
  by (simp add: more_def)

lemma more_bind [fuel_rules]:
  assumes "more m m'" and "\<And>x. more (k x) (k' x)"
  shows "more (Option.bind m k) (Option.bind m' k')"
  using assms by (cases m) (auto simp: more_def)

lemma more_if [fuel_rules]:
  "more x x' \<Longrightarrow> more y y' \<Longrightarrow> more (if b then x else y) (if b then x' else y')"
  by simp

lemma more_let [fuel_rules]: "(\<And>a. more (k a) (k' a)) \<Longrightarrow> more (Let x k) (Let x k')"
  by (simp add: Let_def)

lemma more_pair [fuel_rules]:
  "(\<And>a b. more (k a b) (k' a b)) \<Longrightarrow> more (case p of (a, b) \<Rightarrow> k a b) (case p of (a, b) \<Rightarrow> k' a b)"
  by (cases p) simp

lemma more_nested [fuel_rules]:
  "(\<And>a b. more (k a b s) (k' a b s)) \<Longrightarrow>
    more ((case p of (a, b) \<Rightarrow> k a b) s) ((case p of (a, b) \<Rightarrow> k' a b) s)"
  by (cases p) simp

lemma more_option [fuel_rules]:
  "more x x' \<Longrightarrow> (\<And>a. more (k a) (k' a)) \<Longrightarrow>
    more (case m of None \<Rightarrow> x | Some a \<Rightarrow> k a) (case m of None \<Rightarrow> x' | Some a \<Rightarrow> k' a)"
  by (cases m) simp_all

lemma more_state_of [fuel_rules]: "more m m' \<Longrightarrow> more (state_of m) (state_of m')"
  by (auto simp: more_def state_of_def)

lemma more_Some: "more m m' \<Longrightarrow> m = Some r \<Longrightarrow> m' = Some r"
  by (simp add: more_def)

lemma flush_more [fuel_rules]:
  "(\<And>fd s. more (f fd s) (g fd s)) \<Longrightarrow> more (fat_flush_with P f fd s) (fat_flush_with P g fd s)"
  unfolding fat_flush_with_def by (intro fuel_rules; assumption?)

lemma extend_chain_more [fuel_rules]:
  "(\<And>fd s. more (f fd s) (g fd s)) \<Longrightarrow> more (extend_chain P f fd c s) (extend_chain P g fd c s)"
  unfolding extend_chain_def by (intro fuel_rules; assumption?)

lemma next_cluster_more [fuel_rules]:
  "(\<And>fd s. more (f fd s) (g fd s)) \<Longrightarrow>
    more (fat_next_cluster_with P f fd s) (fat_next_cluster_with P g fd s)"
  unfolding fat_next_cluster_with_def by (intro fuel_rules; assumption?)

lemma next_sector_more [fuel_rules]:
  "(\<And>fd s. more (f fd s) (g fd s)) \<Longrightarrow>
    more (fat_next_sector_with P f fd s) (fat_next_sector_with P g fd s)"
  unfolding fat_next_sector_with_def by (intro fuel_rules; assumption?)

text \<open>A loop with a fuel of its own: the smaller one is a successor only if the larger one is.\<close>

lemma find_slot_more [fuel_rules]:
  assumes "\<And>fd s. more (f fd s) (g fd s)"
  shows "n \<le> m \<Longrightarrow> more (find_slot P f n fd s) (find_slot P g m fd s)"
proof (induction n arbitrary: m s)
  case (Suc n)
  then obtain m' where "m = Suc m'" "n \<le> m'" by (cases m) auto
  then show ?case by (simp only: find_slot.simps) (intro fuel_rules assms Suc.IH; assumption?)
qed (simp add: fuel_rules)

lemma ffi_more [fuel_rules]:
  "n \<le> m \<Longrightarrow> more (fat_flush_fileinfo P n fd s) (fat_flush_fileinfo P m fd s)"
proof (induction n arbitrary: m fd s)
  case (Suc n)
  then obtain m' where "m = Suc m'" "n \<le> m'" by (cases m) auto
  then show ?case
    by (simp only: fat_flush_fileinfo.simps) (intro fuel_rules Suc.IH; assumption?)
qed (simp add: fuel_rules)

lemma file_more [fuel_rules]:
  assumes "n \<le> m"
  shows "more (fat_flush P n fd s) (fat_flush P m fd s)"
    "more (fat_next_cluster P n fd s) (fat_next_cluster P m fd s)"
    "more (fat_next_sector P n fd s) (fat_next_sector P m fd s)"
  unfolding fat_flush_def fat_next_cluster_def fat_next_sector_def
  by (intro fuel_rules assms)+

lemma lookup_scan_more [fuel_rules]:
  "n \<le> m \<Longrightarrow> k \<le> l \<Longrightarrow> more (lookup_scan P n k fd dn s) (lookup_scan P m l fd dn s)"
proof (induction k arbitrary: l s)
  case (Suc k)
  then obtain l' where "l = Suc l'" "k \<le> l'" by (cases l) auto
  then show ?case using Suc
    by (cases "scan_block dn (f_buffer (the_file s fd)) [0..<16]") (auto intro!: fuel_rules)
qed (simp add: fuel_rules)

lemma lookup_elements_more [fuel_rules]:
  assumes "n \<le> m"
  shows "more (lookup_elements P n fd es dn dn2 e s) (lookup_elements P m fd es dn dn2 e s)"
proof (induction es arbitrary: dn dn2 s)
  case (Cons x es)
  show ?case unfolding lookup_elements.simps by (intro fuel_rules Cons.IH assms)
qed (simp add: more_refl)

lemma lookup_path_more [fuel_rules]:
  "n \<le> m \<Longrightarrow> more (fat_lookup_path P n fd path e s) (fat_lookup_path P m fd path e s)"
  unfolding fat_lookup_path_def by (intro fuel_rules; assumption?)

lemma seek_chain_more [fuel_rules]:
  assumes "n \<le> m"
  shows "more (seek_chain P n fd k e s) (seek_chain P m fd k e s)"
proof (induction k arbitrary: e s)
  case (Suc k)
  show ?case unfolding seek_chain.simps by (intro fuel_rules Suc.IH assms)
qed (simp add: more_refl)

lemma lseek_more [fuel_rules]:
  "n \<le> m \<Longrightarrow> more (fat_lseek P n fd ptr dir s) (fat_lseek P m fd ptr dir s)"
  unfolding fat_lseek_def by (intro fuel_rules; assumption?)

lemma read_loop_more [fuel_rules]:
  assumes "n \<le> m"
  shows "more (read_loop P n fd k s) (read_loop P m fd k s)"
proof (induction k arbitrary: s)
  case (Suc k)
  show ?case unfolding read_loop.simps by (intro fuel_rules Suc.IH assms)
qed (simp add: more_refl)

lemma write_loop_more [fuel_rules]:
  assumes "n \<le> m"
  shows "more (write_loop P n fd bs s) (write_loop P m fd bs s)"
proof (induction bs arbitrary: s)
  case (Cons b bs)
  show ?case unfolding write_loop.simps by (intro fuel_rules Cons.IH assms)
qed (simp add: more_refl)

lemma operation_more [fuel_rules]:
  assumes "n \<le> m"
  shows "more (fat_read P n fd count s) (fat_read P m fd count s)"
    "more (fat_write P n fd data s) (fat_write P m fd data s)"
    "more (fat_close P n fd s) (fat_close P m fd s)"
    "more (fat_open P n path flags mode e s) (fat_open P m path flags mode e s)"
  unfolding fat_read_def fat_write_def fat_close_def fat_open_def
  by (intro fuel_rules assms)+

text \<open>The loops of the directory operations, which have a fuel of their own.\<close>

lemma next_dirent_more [fuel_rules]:
  "n \<le> m \<Longrightarrow> k \<le> l \<Longrightarrow> more (next_dirent_loop P n k fd s) (next_dirent_loop P m l fd s)"
proof (induction k arbitrary: l s)
  case (Suc k)
  then obtain l' where "l = Suc l'" "k \<le> l'" by (cases l) auto
  then show ?case unfolding next_dirent_loop.simps
    by (simp only: next_dirent_loop.simps) (intro fuel_rules Suc; assumption?)
qed (simp add: more_None)

lemma get_next_dirent_more [fuel_rules]:
  "n \<le> m \<Longrightarrow> more (fat_get_next_dirent P n fd s) (fat_get_next_dirent P m fd s)"
  unfolding fat_get_next_dirent_def by (intro fuel_rules)

lemma rmdir_loop_more [fuel_rules]:
  "n \<le> m \<Longrightarrow> k \<le> l \<Longrightarrow> more (rmdir_loop P n k fd s) (rmdir_loop P m l fd s)"
proof (induction k arbitrary: l s)
  case (Suc k)
  then obtain l' where "l = Suc l'" "k \<le> l'" by (cases l) auto
  then show ?case
    by (simp only: rmdir_loop.simps) (intro fuel_rules Suc; assumption?)
qed (simp add: more_None)

lemma mkdir_seek_end_more [fuel_rules]:
  "n \<le> m \<Longrightarrow> k \<le> l \<Longrightarrow> more (mkdir_seek_end P n k fd s) (mkdir_seek_end P m l fd s)"
proof (induction k arbitrary: l s)
  case (Suc k)
  then obtain l' where "l = Suc l'" "k \<le> l'" by (cases l) auto
  then show ?case
    by (simp only: mkdir_seek_end.simps) (intro fuel_rules Suc; assumption?)
qed (simp add: more_None)

lemma mkdir_zero_more [fuel_rules]:
  assumes "n \<le> m"
  shows "more (mkdir_zero P n fd k e s) (mkdir_zero P m fd k e s)"
proof (induction k arbitrary: e s)
  case (Suc k)
  show ?case unfolding mkdir_zero.simps by (intro fuel_rules Suc.IH assms)
qed (simp add: more_refl)

lemma directory_more [fuel_rules]:
  assumes "n \<le> m"
  shows "more (fat_unlink P n path e s) (fat_unlink P m path e s)"
    "more (fat_rmdir P n path e s) (fat_rmdir P m path e s)"
  unfolding fat_unlink_def fat_rmdir_def by (intro fuel_rules assms)+

lemma mkdir_more [fuel_rules]:
  assumes "n \<le> m"
  shows "more (fat_mkdir P n path e s) (fat_mkdir P m path e s)"
  unfolding fat_mkdir_def mkdir_enter_def mkdir_fill_def close_and_free_def free_and_close_def
  by (intro fuel_rules assms)

lemma call_more: "n \<le> m \<Longrightarrow> more (call P n c s) (call P m c s)"
  by (cases c) (simp_all only: call.simps, (intro fuel_rules; assumption)+)

section \<open>What returns with a fuel of two\<close>

definition has_entry :: "nat \<Rightarrow> 'd gstate \<Rightarrow> bool" where
  "has_entry fd s \<longleftrightarrow> fd < length (file_num s) \<and> f_entry_sector (the_file s fd) \<noteq> 0"

definition returns :: "nat \<Rightarrow> ('r \<times> 'd gstate) option \<Rightarrow> bool" where
  "returns fd m \<longleftrightarrow> (\<exists>r s'. m = Some (r, s') \<and> has_entry fd s')"

named_theorems returns_rules

lemma returns_Some [returns_rules]: "has_entry fd s \<Longrightarrow> returns fd (Some (r, s))"
  by (simp add: returns_def)

lemma returns_bind [returns_rules]:
  assumes "returns fd m" and "\<And>r s'. has_entry fd s' \<Longrightarrow> returns fd (k (r, s'))"
  shows "returns fd (Option.bind m k)"
  using assms by (auto simp: returns_def)

lemma returns_call:
  assumes "\<And>r s'. p = (r, s') \<Longrightarrow> has_entry fd s'" and "\<And>r s'. has_entry fd s' \<Longrightarrow> returns fd (k r s')"
  shows "returns fd (case p of (r, s') \<Rightarrow> k r s')"
  using assms by (cases p) simp

lemma returns_if [returns_rules]:
  "(b \<Longrightarrow> returns fd x) \<Longrightarrow> (\<not> b \<Longrightarrow> returns fd y) \<Longrightarrow> returns fd (if b then x else y)"
  by simp

lemma returns_let [returns_rules]: "(\<And>a. a = x \<Longrightarrow> returns fd (k a)) \<Longrightarrow> returns fd (Let x k)"
  by simp

lemma returns_Pair [returns_rules]: "returns fd (k a b) \<Longrightarrow> returns fd (case (a, b) of (x, y) \<Rightarrow> k x y)"
  by simp

lemma returns_nested [returns_rules]:
  "(\<And>a b. returns fd (k a b s')) \<Longrightarrow> returns fd ((case p of (a, b) \<Rightarrow> k a b) s')"
  by (cases p) simp

lemma has_entry_if [returns_rules]:
  "(b \<Longrightarrow> has_entry fd x) \<Longrightarrow> (\<not> b \<Longrightarrow> has_entry fd y) \<Longrightarrow> has_entry fd (if b then x else y)"
  by simp

text \<open>The entry of the file stays what it is in every step but the choice of a slot.\<close>

lemma has_entry_upd [returns_rules]:
  assumes "has_entry fd s" and "\<And>f. f_entry_sector (g f) = f_entry_sector f"
  shows "has_entry fd (upd_file fd g s)"
  using assms by (simp add: has_entry_def)

lemma has_entry_read: "has_entry fd s \<Longrightarrow> file_block_read P fd b s = (r, s') \<Longrightarrow> has_entry fd s'"
  by (auto simp: file_block_read_def has_entry_def split: prod.splits)

lemma has_entry_write: "has_entry fd s \<Longrightarrow> file_block_write P fd b s = (r, s') \<Longrightarrow> has_entry fd s'"
  by (auto simp: file_block_write_def has_entry_def split: prod.splits)

lemma has_entry_same: "has_entry fd s \<Longrightarrow> file_num s' = file_num s \<Longrightarrow> has_entry fd s'"
  by (simp add: has_entry_def the_file_def)

lemma gfc_scan_files: "gfc_scan P is s = (r, s') \<Longrightarrow> file_num s' = file_num s"
  by (induction "is" arbitrary: s)
    (auto simp: sys_block_read_def sys_block_write_def upd_fs_def Let_def split: prod.splits if_splits option.splits)

lemma has_entry_select: "has_entry fd s \<Longrightarrow> has_entry fd (snd (fat_select_cluster P fd c s))"
  by (auto simp: fat_select_cluster_def file_block_read_def has_entry_def Let_def split: prod.splits)

lemma returns_calls [returns_rules]:
  assumes "has_entry fd s"
  shows "(\<And>r s'. has_entry fd s' \<Longrightarrow> returns fd (k r s')) \<Longrightarrow> returns fd (case file_block_read P fd b s of (r, s') \<Rightarrow> k r s')"
    "(\<And>r s'. has_entry fd s' \<Longrightarrow> returns fd (k' r s')) \<Longrightarrow> returns fd (case file_block_write P fd b s of (r, s') \<Rightarrow> k' r s')"
    "(\<And>r s'. has_entry fd s' \<Longrightarrow> returns fd (k'' r s')) \<Longrightarrow> returns fd (case fat_get_free_cluster P s of (r, s') \<Rightarrow> k'' r s')"
  by (rule returns_call; auto intro: has_entry_read has_entry_write has_entry_same assms gfc_scan_files
      simp: fat_get_free_cluster_def)+

lemma returns_last [returns_rules]:
  assumes "has_entry fd s"
  shows "returns fd (Some (file_block_read P fd b s))" "returns fd (Some (fat_select_cluster P fd c s))"
  using has_entry_read [OF assms] has_entry_select [OF assms]
  by (auto simp: returns_def) (metis prod.collapse)+

lemma has_entry_time [returns_rules]:
  "has_entry fd s \<Longrightarrow> has_entry fd (fat_update_atime P fd s)"
  "has_entry fd s \<Longrightarrow> has_entry fd (fat_update_mtime P fd s)"
  by (auto simp: fat_update_atime_def fat_update_mtime_def now_def intro!: has_entry_upd elim: has_entry_same)

lemma returns_store [returns_rules]:
  assumes "has_entry fd s"
  shows "returns fd (Some (store_fileinfo P fd de s))"
proof -
  let ?s1 = "upd_file fd (\<lambda>f. f\<lparr>f_buffer :=
    splice (f_buffer f) (unat (f_entry_number f) * 32) (dirent_bytes de)\<rparr>) s"
  obtain r s2 where w: "file_block_write P fd (f_entry_sector (the_file ?s1 fd)) ?s1 = (r, s2)" by fastforce
  obtain r' s3 where l: "file_block_read P fd (f_sector (the_file s2 fd)) s2 = (r', s3)" by fastforce
  have s2: "has_entry fd s2" by (rule has_entry_write [OF _ w]) (simp add: has_entry_upd assms)
  have s3: "has_entry fd s3" by (rule has_entry_read [OF s2 l])
  show ?thesis
    using s2 s3 by (simp add: store_fileinfo_def Let_def w l returns_def has_entry_upd)
qed

text \<open>
  A flush calls the writer of directory entries for a file that has nothing else to write; a writer
  that returns for such files makes the flush return.
\<close>

lemma flush_returns:
  assumes "has_entry fd s"
    and "\<And>s. has_entry fd s \<Longrightarrow> \<not> has (f_flags (the_file s fd)) FAT_FLAG_DIRTY \<Longrightarrow> returns fd (ffi fd s)"
  shows "returns fd (fat_flush_with P ffi fd s)"
proof -
  have clean: "\<not> has (f_flags (the_file (upd_file fd (clear_flags FAT_FLAG_DIRTY) s') fd)) FAT_FLAG_DIRTY"
    if "has_entry fd s'" for s'
    using that by (simp add: has_entry_def has_def and.assoc)
  show ?thesis
    unfolding fat_flush_with_def
    by (intro returns_rules assms clean; assumption?) (simp_all add: has_entry_upd set_first_cluster_def)
qed

lemma ffi_returns_clean:
  assumes "has_entry fd s" and "\<not> has (f_flags (the_file s fd)) FAT_FLAG_DIRTY"
  shows "returns fd (fat_flush_fileinfo P (Suc n) fd s)"
  using assms(1) unfolding fat_flush_fileinfo.simps flush_clean [OF assms(2)]
  by (auto intro!: returns_rules simp: has_entry_def)

lemma ffi_returns:
  assumes "has_entry fd s"
  shows "returns fd (fat_flush_fileinfo P (Suc (Suc n)) fd s)"
proof -
  have "returns fd (fat_flush_with P (fat_flush_fileinfo P (Suc n)) fd s)"
    using assms ffi_returns_clean by (rule flush_returns)
  then show ?thesis
    using assms unfolding fat_flush_fileinfo.simps(2) [of P "Suc n"]
    by (auto intro!: returns_rules simp: has_entry_def)
qed

text \<open>The operations of the driver on such a file, with any fuel from two on.\<close>

lemma file_returns [returns_rules]:
  assumes "has_entry fd s" and "2 \<le> n"
  shows "returns fd (fat_flush_fileinfo P n fd s)" "returns fd (fat_flush P n fd s)"
proof -
  obtain k where n: "n = Suc (Suc k)" using assms(2) by (metis add_2_eq_Suc le_Suc_ex)
  show ffi: "returns fd (fat_flush_fileinfo P n fd s)" unfolding n by (rule ffi_returns [OF assms(1)])
  show "returns fd (fat_flush P n fd s)"
    unfolding fat_flush_def n using assms(1) ffi_returns by (rule flush_returns)
qed

lemma next_cluster_returns [returns_rules]:
  assumes "has_entry fd s" and "2 \<le> n"
  shows "returns fd (fat_next_cluster P n fd s)"
  unfolding fat_next_cluster_def fat_next_cluster_with_def extend_chain_def fat_flush_def [symmetric]
  by (intro returns_rules assms; assumption?) (simp_all add: has_entry_upd)

lemma next_sector_returns [returns_rules]:
  assumes "has_entry fd s" and "2 \<le> n"
  shows "returns fd (fat_next_sector P n fd s)"
  unfolding fat_next_sector_def fat_next_sector_with_def fat_flush_def [symmetric] fat_next_cluster_def [symmetric]
  by (intro returns_rules assms; assumption?) (simp_all add: has_entry_upd step_sector_def)

lemma seek_chain_returns [returns_rules]:
  "has_entry fd s \<Longrightarrow> 2 \<le> n \<Longrightarrow> returns fd (seek_chain P n fd k e s)"
proof (induction k arbitrary: e s)
  case (Suc k)
  show ?case unfolding seek_chain.simps by (intro returns_rules Suc; assumption?) simp
qed (simp add: returns_rules)

lemma lseek_returns [returns_rules]:
  assumes "has_entry fd s" and "2 \<le> n"
  shows "returns fd (fat_lseek P n fd ptr dir s)"
  unfolding fat_lseek_def
  by (intro returns_rules assms; assumption?) (simp_all add: has_entry_upd seek_in_cluster_def seek_arrive_def Let_def)

lemma read_loop_returns [returns_rules]:
  "has_entry fd s \<Longrightarrow> 2 \<le> n \<Longrightarrow> returns fd (read_loop P n fd k s)"
proof (induction k arbitrary: s)
  case (Suc k)
  show ?case unfolding read_loop.simps by (intro returns_rules Suc; assumption?) (simp add: take_byte_def)
qed (simp add: returns_rules)

lemma write_loop_returns [returns_rules]:
  "has_entry fd s \<Longrightarrow> 2 \<le> n \<Longrightarrow> returns fd (write_loop P n fd bs s)"
proof (induction bs arbitrary: s)
  case (Cons b bs)
  show ?case unfolding write_loop.simps
    by (intro returns_rules Cons; assumption?) (simp add: put_byte_def Let_def)
qed (simp add: returns_rules)

lemma operation_returns:
  assumes "has_entry fd s" and "2 \<le> n"
  shows "returns fd (fat_read P n fd count s)" "returns fd (fat_write P n fd data s)" "returns fd (fat_close P n fd s)"
  unfolding fat_read_def fat_write_def fat_close_def
  by (intro returns_rules assms; assumption?; simp add: has_entry_upd)+

text \<open>
  C9: Reading, writing, seeking and closing return: on a file that has its directory entry a fuel of
  two is enough, on any volume and any device, and whatever the device answers.
\<close>

theorem file_calls_return:
  assumes "wf_state s" and "on_descriptor c = Some fd" and "fd < MAX_OPEN_FILES"
    and "f_entry_sector (the_file s fd) \<noteq> 0" and "c \<noteq> Next_dirent fd" and "2 \<le> n"
  shows "\<exists>s'. call P n c s = Some s' \<and> f_entry_sector (the_file s' fd) \<noteq> 0"
proof -
  have "has_entry fd s" using wf_state_files [OF assms(1)] assms(3,4) by (simp add: has_entry_def)
  from operation_returns [OF this assms(6)] lseek_returns [OF this assms(6)] show ?thesis
    using assms(2,5) by (cases c) (fastforce simp: returns_def state_of_def has_entry_def)+
qed

section \<open>Instances\<close>

lemma file_calls_return_witness:
  "\<exists>s'. call (pc_platform (\<lambda>_. 0) (\<lambda>_. 0)) 2 (Write 0 (replicate 5000 0x62)) demo_open = Some s'"
  using file_calls_return [OF demo_wf(2), of "Write 0 (replicate 5000 0x62)" 0 2 "pc_platform (\<lambda>_. 0) (\<lambda>_. 0)"]
  by (auto simp: demo_open_def the_file_def demo_file_def closed_file_def)

end
