(* ===== verification/Fat_Write.thy ===== *)
theory Fat_Write
  imports Fat_Read
begin

text \<open>
  What writing does inside the clusters a file has. The abstract file is again the byte
  list of its chain, now with the sector in the buffer of the file structure laid over the disk: a
  write changes the bytes from the cursor on, whether or not they have reached the disk yet, and a
  seek arrives at the byte it names.
\<close>

section \<open>The file under edit\<close>

text \<open>The place of the file structure alone; \<open>on_sector\<close> adds that the buffer is the sector.\<close>

definition at_place :: "fat_info \<Rightarrow> nat list \<Rightarrow> nat \<Rightarrow> FileS \<Rightarrow> bool" where
  "at_place v cs q f \<longleftrightarrow>
    q < chain_sectors v cs \<and> f_file_sector f = of_nat q \<and>
    f_cluster f = of_nat (cs ! (q div sectors_in_cluster v)) \<and> f_sector f = chain_sector v cs q \<and>
    unat (f_sectors_left f) = sectors_in_cluster v - 1 - q mod sectors_in_cluster v"

definition synced :: "(blockno \<Rightarrow> sector) \<Rightarrow> FileS \<Rightarrow> bool" where
  "synced blocks f \<longleftrightarrow>
    length (f_buffer f) = 512 \<and> (\<not> has (f_flags f) FAT_FLAG_DIRTY \<longrightarrow> f_buffer f = blocks (f_sector f))"

definition with_buffer :: "(blockno \<Rightarrow> sector) \<Rightarrow> FileS \<Rightarrow> blockno \<Rightarrow> sector" where
  "with_buffer blocks f = blocks(f_sector f := f_buffer f)"

definition editing_at :: "fat_info \<Rightarrow> (blockno \<Rightarrow> sector) \<Rightarrow> nat list \<Rightarrow> nat \<Rightarrow> FileS \<Rightarrow> bool" where
  "editing_at v blocks cs p f \<longleftrightarrow> synced blocks f \<and>
    (\<exists>q. at_place v cs q f \<and> unat (f_cursor f) \<le> 512 \<and> p = 512 * q + unat (f_cursor f))"

text \<open>The bytes of the chain as the holder of the descriptor sees them.\<close>

definition edited_bytes :: "('d \<Rightarrow> blockno \<Rightarrow> sector) \<Rightarrow> 'd gstate \<Rightarrow> nat list \<Rightarrow> FileS \<Rightarrow> byte list" where
  "edited_bytes view s cs f = chain_bytes (fatfs s) (with_buffer (view (dev s)) f) cs"

text \<open>The sectors of the file are distinct, and not block 0 or a block of the FAT.\<close>

definition data_blocks :: "fat_info \<Rightarrow> nat list \<Rightarrow> blockno set" where
  "data_blocks v cs = chain_sector v cs ` {..<chain_sectors v cs}"

definition kept_apart :: "fat_info \<Rightarrow> nat list \<Rightarrow> bool" where
  "kept_apart v cs \<longleftrightarrow>
    inj_on (chain_sector v cs) {..<chain_sectors v cs} \<and> 0 \<notin> data_blocks v cs \<and>
    (\<forall>c<fat_clusters v. cell_block v c \<notin> data_blocks v cs)"

text \<open>What an operation on descriptor \<open>fd\<close> may change: the sectors of the file and its structure.\<close>

definition only_file_changed ::
  "('d \<Rightarrow> blockno \<Rightarrow> bool) \<Rightarrow> ('d \<Rightarrow> blockno \<Rightarrow> sector) \<Rightarrow> nat list \<Rightarrow> nat \<Rightarrow> 'd gstate \<Rightarrow> 'd gstate \<Rightarrow> bool" where
  "only_file_changed ok view cs fd s s' \<longleftrightarrow>
    fatfs s' = fatfs s \<and> (\<forall>b. ok (dev s') b = ok (dev s) b) \<and>
    (\<forall>b. ok (dev s) b \<longrightarrow> b \<notin> data_blocks (fatfs s) cs \<longrightarrow> view (dev s') b = view (dev s) b) \<and>
    length (file_num s') = length (file_num s) \<and>
    (\<forall>fd'. fd' \<noteq> fd \<longrightarrow> the_file s' fd' = the_file s fd')"

lemma only_file_changed_refl [simp]: "only_file_changed ok view cs fd s s"
  by (simp add: only_file_changed_def)

lemma only_file_changed_trans:
  "only_file_changed ok view cs fd s s' \<Longrightarrow> only_file_changed ok view cs fd s' s'' \<Longrightarrow>
    only_file_changed ok view cs fd s s''"
  by (auto simp: only_file_changed_def)

lemma only_file_changed_upd [simp]: "only_file_changed ok view cs fd s (upd_file fd g s)"
  by (simp add: only_file_changed_def)

lemma only_file_changed_chain:
  assumes "only_file_changed ok view cs fd s s'" and "kept_apart (fatfs s) cs" and "chain_on_disk ok view s cs"
  shows "chain_on_disk ok view s' cs"
proof -
  have same: "fatfs s' = fatfs s" "\<forall>b. ok (dev s') b = ok (dev s) b"
    using assms(1) by (simp_all add: only_file_changed_def)
  have "fat_of view s' c = fat_of view s c" if "c \<in> set cs" for c
  proof -
    have c: "c < fat_clusters (fatfs s)"
      using assms(3) that fat_chain_bound by (auto simp: chain_on_disk_def)
    then have "ok (dev s) (cell_block (fatfs s) c)"
      using assms(3) fat_present_cell by (auto simp: chain_on_disk_def)
    then show ?thesis
      using c assms(1,2) by (simp add: fat_of_def same(1) kept_apart_def only_file_changed_def fat_cell_def)
  qed
  then have "fat_chain (fatfs s) (fat_of view s') cs"
    using assms(3) by (auto simp: chain_on_disk_def intro: fat_chain_cong)
  then show ?thesis
    using assms(3) same by (simp add: chain_on_disk_def fat_present_def)
qed

lemma at_place_on_sector:
  "on_sector v blocks cs q f \<longleftrightarrow>
    at_place v cs q f \<and> \<not> has (f_flags f) FAT_FLAG_DIRTY \<and> f_buffer f = blocks (f_sector f)"
  by (auto simp: on_sector_def at_place_def)

lemma reading_editing:
  assumes "reading_at v blocks cs p f" and "\<forall>b. length (blocks b) = 512"
  shows "editing_at v blocks cs p f"
  using assms by (auto simp: reading_at_def editing_at_def at_place_on_sector synced_def)

lemma with_buffer_on_sector: "on_sector v blocks cs q f \<Longrightarrow> with_buffer blocks f = blocks"
  by (simp add: at_place_on_sector with_buffer_def fun_upd_idem)

lemma length_with_buffer:
  "synced blocks f \<Longrightarrow> \<forall>b. length (blocks b) = 512 \<Longrightarrow> length (with_buffer blocks f b) = 512"
  by (simp add: with_buffer_def synced_def)

lemma chain_bytes_cong:
  assumes "\<forall>b\<in>data_blocks v cs. blocks b = blocks' b"
  shows "chain_bytes v blocks cs = chain_bytes v blocks' cs"
proof -
  have "map (\<lambda>q. blocks (chain_sector v cs q)) [0..<chain_sectors v cs] =
      map (\<lambda>q. blocks' (chain_sector v cs q)) [0..<chain_sectors v cs]"
    using assms by (auto simp: data_blocks_def)
  then show ?thesis by (simp only: chain_bytes_def)
qed

lemma chain_bytes_put:
  assumes "\<forall>b. length (blocks b) = 512" and "inj_on (chain_sector v cs) {..<chain_sectors v cs}"
    and "q < chain_sectors v cs" and "r < 512"
  shows "chain_bytes v (blocks(chain_sector v cs q := (blocks (chain_sector v cs q))[r := b])) cs =
    (chain_bytes v blocks cs)[512 * q + r := b]" (is "chain_bytes v ?blocks cs = _")
proof (rule nth_equalityI)
  have lens: "\<forall>b. length (?blocks b) = 512" using assms(1) by simp
  show "length (chain_bytes v ?blocks cs) = length ((chain_bytes v blocks cs)[512 * q + r := b])"
    using assms(1) lens by (simp add: length_chain_bytes)
  fix i assume "i < length (chain_bytes v ?blocks cs)"
  then have i: "i < 512 * chain_sectors v cs" using lens by (simp add: length_chain_bytes)
  define q' r' where "q' = i div 512" and "r' = i mod 512"
  have ir: "i = 512 * q' + r'" "r' < 512" by (simp_all add: q'_def r'_def)
  have q': "q' < chain_sectors v cs" using i by (simp add: q'_def less_mult_imp_div_less mult.commute)
  have "512 * q' + r' = 512 * q + r \<longleftrightarrow> q' = q \<and> r' = r"
    using ir(2) assms(4) by (cases q' q rule: linorder_cases) auto
  moreover have "chain_sector v cs q' = chain_sector v cs q \<longleftrightarrow> q' = q"
    using inj_onD [OF assms(2)] q' assms(3) by auto
  ultimately show "chain_bytes v ?blocks cs ! i = (chain_bytes v blocks cs)[512 * q + r := b] ! i"
    unfolding ir(1) chain_bytes_nth [OF lens q' ir(2)] using chain_bytes_nth [OF assms(1) q' ir(2)]
      assms i ir by (simp add: nth_list_update length_chain_bytes)
qed

lemma not_has_and_not: "\<not> has x m \<Longrightarrow> x AND NOT m = x" for x :: "'a::len word"
proof (rule bit_word_eqI)
  fix n assume "\<not> has x m" and "n < LENGTH('a)"
  then have "\<not> (bit x n \<and> bit m n)" by (metis bit_and_iff bit_0_eq has_def bot_apply bot_bool_def)
  then show "bit (x AND NOT m) n = bit x n" using \<open>n < LENGTH('a)\<close> by (auto simp: bit_simps)
qed

context block_device
begin

lemma flush_place:
  assumes chain: "chain_on_disk ok view s cs" and apart: "kept_apart (fatfs s) cs"
    and fd: "fd < length (file_num s)" and at: "at_place (fatfs s) cs q (the_file s fd)"
    and sync: "synced (view (dev s)) (the_file s fd)"
  shows "\<exists>s1. fat_flush_with P ffi fd s = Some (0, s1) \<and>
    the_file s1 fd = clear_flags FAT_FLAG_DIRTY (the_file s fd) \<and>
    on_sector (fatfs s) (view (dev s1)) cs q (the_file s1 fd) \<and>
    only_file_changed ok view cs fd s s1 \<and>
    (\<forall>b. ok (dev s) b \<longrightarrow> view (dev s1) b = with_buffer (view (dev s)) (the_file s fd) b)"
proof -
  let ?f = "the_file s fd"
  let ?b = "f_sector ?f"
  have q: "q < chain_sectors (fatfs s) cs" and b: "?b = chain_sector (fatfs s) cs q"
    using at by (simp_all add: at_place_def)
  then have okb: "ok (dev s) ?b" and data: "?b \<in> data_blocks (fatfs s) cs"
    using chain by (auto simp: chain_on_disk_def data_blocks_def)
  then have nz: "?b \<noteq> 0" using apart by (auto simp: kept_apart_def)
  have len: "length (f_buffer ?f) = 512" using sync by (simp add: synced_def)
  have at': "at_place (fatfs s) cs q (clear_flags FAT_FLAG_DIRTY ?f)"
    using at by (simp add: at_place_def)
  show ?thesis
  proof (cases "has (f_flags ?f) FAT_FLAG_DIRTY")
    case True
    obtain d where d: "blk_write P (dev s) ?b (f_buffer ?f) = (d, 0)"
      using write_rc [OF okb len] by (cases "blk_write P (dev s) ?b (f_buffer ?f)") auto
    let ?s1 = "upd_file fd (clear_flags FAT_FLAG_DIRTY) (s\<lparr>dev := d\<rparr>)"
    have "fat_flush_with P ffi fd s = Some (0, ?s1)"
      using True nz d by (simp add: fat_flush_with_def file_block_write_def Let_def)
    moreover have views: "ok (dev s) c \<Longrightarrow> view d c = with_buffer (view (dev s)) ?f c" for c
      using write_view [OF okb len, of c] by (simp add: with_buffer_def d)
    moreover have "ok d c = ok (dev s) c" for c
      using write_dom [OF okb len, of c] by (simp add: d)
    then have "only_file_changed ok view cs fd s ?s1"
      using views data by (auto simp: only_file_changed_def with_buffer_def the_file_def upd_file_def)
    moreover have "the_file ?s1 fd = clear_flags FAT_FLAG_DIRTY ?f"
      using fd by (simp add: the_file_def upd_file_def)
    ultimately show ?thesis
      using at' okb has_simps(1) [of "f_flags ?f" FAT_FLAG_DIRTY]
      by (intro exI [of _ ?s1]) (simp add: at_place_on_sector with_buffer_def)
  next
    case False
    then have "clear_flags FAT_FLAG_DIRTY ?f = ?f"
      using not_has_and_not [of "f_flags ?f" FAT_FLAG_DIRTY] by simp
    then show ?thesis
      using False flush_clean [of s fd P ffi] at sync
      by (intro exI [of _ s]) (simp add: at_place_on_sector synced_def with_buffer_def)
  qed
qed

text \<open>Moving on to the next sector of the chain writes the one in the buffer first.\<close>

lemma next_sector_edit:
  assumes chain: "chain_on_disk ok view s cs" and apart: "kept_apart (fatfs s) cs"
    and fd: "fd < length (file_num s)" and at: "at_place (fatfs s) cs q (the_file s fd)"
    and sync: "synced (view (dev s)) (the_file s fd)" and q: "Suc q < chain_sectors (fatfs s) cs"
  shows "\<exists>s1. fat_next_sector_with P ffi fd s = Some (0, s1) \<and>
    on_sector (fatfs s) (view (dev s1)) cs (Suc q) (the_file s1 fd) \<and> f_cursor (the_file s1 fd) = 0 \<and>
    same_file (clear_flags FAT_FLAG_DIRTY (the_file s fd)) (the_file s1 fd) \<and>
    only_file_changed ok view cs fd s s1 \<and> edited_bytes view s1 cs (the_file s1 fd) = edited_bytes view s cs (the_file s fd)"
proof -
  obtain s1 where s1: "fat_flush_with P ffi fd s = Some (0, s1)"
    "the_file s1 fd = clear_flags FAT_FLAG_DIRTY (the_file s fd)"
    "on_sector (fatfs s) (view (dev s1)) cs q (the_file s1 fd)" "only_file_changed ok view cs fd s s1"
    "\<forall>b. ok (dev s) b \<longrightarrow> view (dev s1) b = with_buffer (view (dev s)) (the_file s fd) b"
    using flush_place [OF chain apart fd at sync] by blast
  have same: "fatfs s1 = fatfs s" and fd1: "fd < length (file_num s1)"
    using s1(4) fd by (simp_all add: only_file_changed_def)
  have chain1: "chain_on_disk ok view s1 cs" by (rule only_file_changed_chain [OF s1(4) apart chain])
  obtain f' where f': "fat_next_sector_with P ffi fd s1 = Some (0, upd_file fd (\<lambda>_. f') s1)"
    "on_sector (fatfs s) (view (dev s1)) cs (Suc q) f'" "f_cursor f' = 0" "same_file (the_file s1 fd) f'"
    using next_sector_reading [OF chain1 fd1, of q ffi] s1(3) q same by metis
  let ?s2 = "upd_file fd (\<lambda>_. f') s1"
  have "\<not> has (f_flags (the_file s1 fd)) FAT_FLAG_DIRTY" using s1(3) by (simp add: on_sector_def)
  then have "fat_next_sector_with P ffi fd s = fat_next_sector_with P ffi fd s1"
    using s1(1) by (simp add: fat_next_sector_with_def flush_clean)
  moreover have "edited_bytes view ?s2 cs f' = edited_bytes view s cs (the_file s fd)"
    unfolding edited_bytes_def using with_buffer_on_sector [OF f'(2)] same chain s1(5)
    by (auto intro!: chain_bytes_cong simp: data_blocks_def chain_on_disk_def)
  moreover have "only_file_changed ok view cs fd s ?s2"
    using only_file_changed_trans [OF s1(4) only_file_changed_upd] .
  ultimately show ?thesis
    using f' fd1 s1(2) by (intro exI [of _ ?s2]) simp
qed

end

section \<open>The loop of \<open>fat_write\<close>\<close>

lemma splice_Cons:
  assumes "p < length xs"
  shows "splice xs p (b # bs) = splice (xs[p := b]) (Suc p) bs"
  using assms by (simp add: splice_def take_update_cancel drop_update_cancel take_Suc_conv_app_nth nth_list_update)

lemma file_pos_place:
  assumes "at_place v cs q f" and "unat (f_cursor f) \<le> 512" and "512 * q + unat (f_cursor f) < 2 ^ 32"
  shows "unat (file_pos f) = 512 * q + unat (f_cursor f)"
proof -
  have "file_pos f = of_nat (512 * q + unat (f_cursor f))"
    using assms(1) by (simp add: file_pos_def at_place_def ac_simps)
  then show ?thesis using assms(3) by (simp only: unat_of_nat32)
qed

text \<open>What reading, writing and seeking keep of the structure: how it was opened, and what it is.\<close>

definition same_mode :: "FileS \<Rightarrow> FileS \<Rightarrow> bool" where
  "same_mode f f' \<longleftrightarrow>
    f_flags f' AND 0xF = f_flags f AND 0xF \<and> f_attributes f' = f_attributes f \<and>
    f_full_first_cluster f' = f_full_first_cluster f"

lemma same_mode_refl [simp]: "same_mode f f"
  by (simp add: same_mode_def)

lemma same_mode_trans: "same_mode f f' \<Longrightarrow> same_mode f' f'' \<Longrightarrow> same_mode f f''"
  by (simp add: same_mode_def)

lemma low_flags:
  fixes x :: byte
  shows "(x OR 16) AND 0xF = x AND 0xF" "(x OR 32) AND 0xF = x AND 0xF" "(x AND NOT 16) AND 0xF = x AND 0xF"
  by (simp_all add: bit.conj_disj_distrib2 and.assoc)

lemma same_file_mode: "same_file (clear_flags FAT_FLAG_DIRTY f) f' \<Longrightarrow> same_mode f f'"
  using low_flags(3) [of "f_flags f"] by (simp add: same_file_def same_mode_def)

lemma put_byte_edit:
  assumes at: "at_place v cs q f" and cur: "unat (f_cursor f) < 512" and sync: "synced blocks f"
    and p: "p = 512 * q + unat (f_cursor f)" "Suc p < 2 ^ 32" "p \<le> unat (f_size f)"
    and plain: "\<not> has (f_attributes f) FAT_ATT_SUBDIR"
  shows "at_place v cs q (put_byte b f)" "unat (f_cursor (put_byte b f)) = Suc (unat (f_cursor f))"
    "synced blocks (put_byte b f)" "unat (f_size (put_byte b f)) = max (unat (f_size f)) (Suc p)"
    "same_mode f (put_byte b f)"
    "f_buffer (put_byte b f) = (f_buffer f)[unat (f_cursor f) := b]" "f_sector (put_byte b f) = f_sector f"
proof -
  have pos: "unat (file_pos f) = p" using file_pos_place [OF at] cur p by simp
  then have eq: "file_pos f = f_size f \<longleftrightarrow> p = unat (f_size f)" by (auto simp: word_unat_eq_iff)
  have "unat (f_cursor f + 1) = Suc (unat (f_cursor f))" using cur by (simp add: unat_word_ariths)
  then show "unat (f_cursor (put_byte b f)) = Suc (unat (f_cursor f))"
    by (simp add: put_byte_def Let_def)
  show "at_place v cs q (put_byte b f)" using at by (simp add: put_byte_def Let_def at_place_def)
  show "synced blocks (put_byte b f)" using sync by (simp add: put_byte_def Let_def synced_def has_or) (simp add: has_def)
  have "unat (f_size f + 1) = Suc (unat (f_size f))" if "p = unat (f_size f)"
    using p(2) that by (simp add: unat_word_ariths)
  then show "unat (f_size (put_byte b f)) = max (unat (f_size f)) (Suc p)"
    using eq plain p(3) by (auto simp: put_byte_def Let_def)
  show "same_mode f (put_byte b f)"
    by (simp add: same_mode_def put_byte_def Let_def low_flags)
qed (simp_all add: put_byte_def Let_def)

context block_device
begin

lemma edit_advance:
  assumes chain: "chain_on_disk ok view s cs" and apart: "kept_apart (fatfs s) cs"
    and fd: "fd < length (file_num s)"
    and at: "editing_at (fatfs s) (view (dev s)) cs p (the_file s fd)" and p: "p < 512 * chain_sectors (fatfs s) cs"
  shows "\<exists>s1 q. (if f_cursor (the_file s fd) = 512 then fat_next_sector P n fd s else Some (0, s)) = Some (0, s1) \<and>
    at_place (fatfs s) cs q (the_file s1 fd) \<and> synced (view (dev s1)) (the_file s1 fd) \<and>
    unat (f_cursor (the_file s1 fd)) < 512 \<and> p = 512 * q + unat (f_cursor (the_file s1 fd)) \<and>
    same_mode (the_file s fd) (the_file s1 fd) \<and> f_size (the_file s1 fd) = f_size (the_file s fd) \<and>
    only_file_changed ok view cs fd s s1 \<and>
    edited_bytes view s1 cs (the_file s1 fd) = edited_bytes view s cs (the_file s fd)"
proof -
  let ?f = "the_file s fd"
  obtain q where q: "at_place (fatfs s) cs q ?f" "unat (f_cursor ?f) \<le> 512"
    "p = 512 * q + unat (f_cursor ?f)" and sync: "synced (view (dev s)) ?f"
    using at by (auto simp: editing_at_def)
  show ?thesis
  proof (cases "f_cursor ?f = 512")
    case True
    then have "Suc q < chain_sectors (fatfs s) cs" using q(3) p by simp
    then obtain s1 where s1: "fat_next_sector P n fd s = Some (0, s1)"
      "on_sector (fatfs s) (view (dev s1)) cs (Suc q) (the_file s1 fd)" "f_cursor (the_file s1 fd) = 0"
      "same_file (clear_flags FAT_FLAG_DIRTY ?f) (the_file s1 fd)" "only_file_changed ok view cs fd s s1"
      "edited_bytes view s1 cs (the_file s1 fd) = edited_bytes view s cs ?f"
      using next_sector_edit [OF chain apart fd q(1) sync, of "fat_flush_fileinfo P n"]
      unfolding fat_next_sector_def by blast
    then show ?thesis
      using True q(3) same_file_mode [OF s1(4)]
      by (intro exI [of _ s1] exI [of _ "Suc q"])
        (simp add: at_place_on_sector synced_def same_file_def)
  next
    case False
    then have "unat (f_cursor ?f) \<noteq> 512" using word_unat_eq_iff [of "f_cursor ?f" 512] by simp
    then show ?thesis using False q sync by (intro exI [of _ s] exI [of _ q]) simp
  qed
qed

lemma write_loop_edit:
  assumes "chain_on_disk ok view s cs" and "kept_apart (fatfs s) cs" and "fd < length (file_num s)"
    and "editing_at (fatfs s) (view (dev s)) cs p (the_file s fd)"
    and "\<not> has (f_attributes (the_file s fd)) FAT_ATT_SUBDIR" and "p \<le> unat (f_size (the_file s fd))"
    and "p + length data \<le> 512 * chain_sectors (fatfs s) cs" and "512 * chain_sectors (fatfs s) cs < 2 ^ 32"
  shows "\<exists>s'. write_loop P n fd data s = Some (True, s') \<and>
    editing_at (fatfs s) (view (dev s')) cs (p + length data) (the_file s' fd) \<and>
    edited_bytes view s' cs (the_file s' fd) = splice (edited_bytes view s cs (the_file s fd)) p data \<and>
    unat (f_size (the_file s' fd)) = max (unat (f_size (the_file s fd))) (p + length data) \<and>
    same_mode (the_file s fd) (the_file s' fd) \<and> only_file_changed ok view cs fd s s'"
  using assms
proof (induction data arbitrary: s p)
  case Nil
  then show ?case by (intro exI [of _ s]) (simp add: splice_def)
next
  case (Cons b data)
  let ?f = "the_file s fd"
  have p: "p < 512 * chain_sectors (fatfs s) cs" using Cons.prems(7) by simp
  obtain s1 q where s1:
    "(if f_cursor ?f = 512 then fat_next_sector P n fd s else Some (0, s)) = Some (0, s1)"
    "at_place (fatfs s) cs q (the_file s1 fd)" "synced (view (dev s1)) (the_file s1 fd)"
    "unat (f_cursor (the_file s1 fd)) < 512" "p = 512 * q + unat (f_cursor (the_file s1 fd))"
    "same_mode ?f (the_file s1 fd)" "f_size (the_file s1 fd) = f_size ?f"
    "only_file_changed ok view cs fd s s1"
    "edited_bytes view s1 cs (the_file s1 fd) = edited_bytes view s cs ?f"
    using edit_advance [OF Cons.prems(1-4) p, of n] by blast
  let ?f1 = "the_file s1 fd" and ?s2 = "upd_file fd (put_byte b) s1"
  have same: "fatfs s1 = fatfs s" and fd1: "fd < length (file_num s1)"
    using s1(8) Cons.prems(3) by (simp_all add: only_file_changed_def)
  have plain: "\<not> has (f_attributes ?f1) FAT_ATT_SUBDIR" using Cons.prems(5) s1(6) by (simp add: same_mode_def)
  have "Suc p < 2 ^ 32" "p \<le> unat (f_size ?f1)" using p Cons.prems(6,8) s1(7) by simp_all
  note put = put_byte_edit [OF s1(2,4,3,5) this plain, of b]
  have chain2: "chain_on_disk ok view ?s2 cs"
    using only_file_changed_chain [OF s1(8) Cons.prems(2,1)] by simp
  have lens: "\<forall>a. length (with_buffer (view (dev s1)) ?f1 a) = 512"
    using length_with_buffer [OF s1(3)] by simp
  have bytes: "edited_bytes view ?s2 cs (put_byte b ?f1) = (edited_bytes view s cs ?f)[p := b]"
  proof -
    have sec: "f_sector ?f1 = chain_sector (fatfs s) cs q" "q < chain_sectors (fatfs s) cs"
      using s1(2) by (simp_all add: at_place_def)
    have "with_buffer (view (dev s1)) (put_byte b ?f1) = (with_buffer (view (dev s1)) ?f1)
        (chain_sector (fatfs s) cs q := (with_buffer (view (dev s1)) ?f1 (chain_sector (fatfs s) cs q))
          [unat (f_cursor ?f1) := b])"
      by (simp add: with_buffer_def put(6,7) sec)
    then show ?thesis
      using chain_bytes_put [OF lens _ sec(2) s1(4)] Cons.prems(2) s1(9)
      by (simp add: edited_bytes_def same kept_apart_def s1(5) [symmetric])
  qed
  have "editing_at (fatfs ?s2) (view (dev ?s2)) cs (Suc p) (the_file ?s2 fd)"
    using put(1-3) s1(4,5) fd1 same by (auto simp: editing_at_def intro!: exI [of _ q])
  moreover have "fatfs ?s2 = fatfs s" by (simp add: same)
  moreover have "Suc p \<le> unat (f_size (the_file ?s2 fd))" using put(4) fd1 by simp
  ultimately obtain s' where s': "write_loop P n fd data ?s2 = Some (True, s')"
    "editing_at (fatfs s) (view (dev s')) cs (Suc p + length data) (the_file s' fd)"
    "edited_bytes view s' cs (the_file s' fd) = splice (edited_bytes view ?s2 cs (put_byte b ?f1)) (Suc p) data"
    "unat (f_size (the_file s' fd)) = max (unat (f_size (put_byte b ?f1))) (Suc p + length data)"
    "same_mode (put_byte b ?f1) (the_file s' fd)" "only_file_changed ok view cs fd ?s2 s'"
    using Cons.IH [of ?s2 "Suc p"] chain2 Cons.prems(2,7,8) fd1 plain put(5) by (auto simp: same_mode_def)
  have len: "p < length (edited_bytes view s cs ?f)"
    using p length_chain_bytes [OF lens] unfolding s1(9) [symmetric] by (simp add: edited_bytes_def same)
  show ?case
  proof (intro exI [of _ s'] conjI)
    show "write_loop P n fd (b # data) s = Some (True, s')" using s1(1) s'(1) by simp
    show "edited_bytes view s' cs (the_file s' fd) = splice (edited_bytes view s cs ?f) p (b # data)"
      using s'(3) bytes splice_Cons [OF len] by simp
    show "unat (f_size (the_file s' fd)) = max (unat (f_size ?f)) (p + length (b # data))"
      using s'(4) put(4) s1(7) by simp
    show "same_mode ?f (the_file s' fd)" using s1(6) put(5) s'(5) same_mode_trans by blast
    show "only_file_changed ok view cs fd s s'"
      using s1(8) s'(6) only_file_changed_trans only_file_changed_upd by blast
  qed (use s'(2) in simp)
qed

end

section \<open>Writing\<close>

lemma update_mtime_edit:
  assumes "fd < length (file_num s)"
  shows "dev (fat_update_mtime P fd s) = dev s" "fatfs (fat_update_mtime P fd s) = fatfs s"
    "only_file_changed ok view cs fd s (fat_update_mtime P fd s)"
    "editing_at v blocks cs p (the_file (fat_update_mtime P fd s) fd) = editing_at v blocks cs p (the_file s fd)"
    "with_buffer blocks (the_file (fat_update_mtime P fd s) fd) = with_buffer blocks (the_file s fd)"
    "same_mode (the_file s fd) (the_file (fat_update_mtime P fd s) fd)"
    "f_size (the_file (fat_update_mtime P fd s) fd) = f_size (the_file s fd)"
proof -
  have "has (f OR FAT_FLAG_FS_DIRTY) FAT_FLAG_DIRTY = has f FAT_FLAG_DIRTY" for f
    by (simp add: has_or) (simp add: has_def)
  then show "dev (fat_update_mtime P fd s) = dev s" "fatfs (fat_update_mtime P fd s) = fatfs s"
    "editing_at v blocks cs p (the_file (fat_update_mtime P fd s) fd) = editing_at v blocks cs p (the_file s fd)"
    "with_buffer blocks (the_file (fat_update_mtime P fd s) fd) = with_buffer blocks (the_file s fd)"
    "same_mode (the_file s fd) (the_file (fat_update_mtime P fd s) fd)"
    "f_size (the_file (fat_update_mtime P fd s) fd) = f_size (the_file s fd)"
    using assms by (simp_all add: fat_update_mtime_def now_def editing_at_def at_place_def synced_def
        with_buffer_def same_mode_def low_flags)
  show "only_file_changed ok view cs fd s (fat_update_mtime P fd s)"
    using assms by (simp add: fat_update_mtime_def now_def only_file_changed_def upd_file_def the_file_def)
qed

lemma write_edit:
  assumes "chain_on_disk pc_ok pc_view s cs" and "kept_apart (fatfs s) cs" and "wf_state s"
    and "fd < MAX_OPEN_FILES" and "\<not> has (NOT (f_flags (the_file s fd))) (FAT_FLAG_OPEN OR FAT_FLAG_WRITE)"
    and "\<not> has (f_flags (the_file s fd)) FAT_FLAG_APPEND"
    and "regular_file (fatfs s) cs (the_file s fd)"
    and "editing_at (fatfs s) (pc_view (dev s)) cs p (the_file s fd)" and "p \<le> unat (f_size (the_file s fd))"
    and "p + length data \<le> 512 * chain_sectors (fatfs s) cs" and "length data < 2 ^ 31"
  shows "\<exists>s'. fat_write (pc_platform clk junk) n fd data s = Some ((int (length data), 0), s') \<and>
    edited_bytes pc_view s' cs (the_file s' fd) = splice (edited_bytes pc_view s cs (the_file s fd)) p data \<and>
    editing_at (fatfs s) (pc_view (dev s')) cs (p + length data) (the_file s' fd) \<and>
    unat (f_size (the_file s' fd)) = max (unat (f_size (the_file s fd))) (p + length data) \<and>
    same_mode (the_file s fd) (the_file s' fd) \<and> only_file_changed pc_ok pc_view cs fd s s'"
proof -
  let ?P = "pc_platform clk junk" and ?f = "the_file s fd"
  have fd: "fd < length (file_num s)" using assms(3,4) by (simp add: wf_state_def)
  have plain: "\<not> has (f_attributes ?f) FAT_ATT_SUBDIR" "512 * chain_sectors (fatfs s) cs < 2 ^ 32"
    using assms(7) by (simp_all add: regular_file_def)
  obtain s1 where s1: "write_loop ?P n fd data s = Some (True, s1)"
    "editing_at (fatfs s) (pc_view (dev s1)) cs (p + length data) (the_file s1 fd)"
    "edited_bytes pc_view s1 cs (the_file s1 fd) = splice (edited_bytes pc_view s cs ?f) p data"
    "unat (f_size (the_file s1 fd)) = max (unat (f_size ?f)) (p + length data)"
    "same_mode ?f (the_file s1 fd)" "only_file_changed pc_ok pc_view cs fd s s1"
    using pc.write_loop_edit [OF assms(1,2) fd assms(8) plain(1) assms(9,10) plain(2)] by blast
  have fd1: "fd < length (file_num s1)" using s1(6) fd by (simp add: only_file_changed_def)
  let ?s' = "if data \<noteq> [] then fat_update_mtime ?P fd s1 else s1"
  note mtime = update_mtime_edit [OF fd1, where P = ?P]
  have "sint (of_nat (length data) :: u32) = int (length data)" using assms(11) by (rule int_of_cluster)
  then have "fat_write ?P n fd data s = Some ((int (length data), 0), ?s')"
    using assms(4-6) s1(1) by (simp add: fat_write_def)
  moreover have "only_file_changed pc_ok pc_view cs fd s ?s'"
    using s1(6) only_file_changed_trans [OF s1(6) mtime(3)] by simp
  moreover have "same_mode ?f (the_file ?s' fd)" using s1(5) same_mode_trans [OF s1(5) mtime(6)] by simp
  moreover have "editing_at v blocks cs k (the_file ?s' fd) = editing_at v blocks cs k (the_file s1 fd)"
    "edited_bytes pc_view ?s' cs (the_file ?s' fd) = edited_bytes pc_view s1 cs (the_file s1 fd)"
    "f_size (the_file ?s' fd) = f_size (the_file s1 fd)" "dev ?s' = dev s1" for v blocks k
    using mtime by (simp_all add: edited_bytes_def)
  ultimately show ?thesis using s1(2-4) by (intro exI [of _ ?s'] conjI) (simp_all only:)
qed

text \<open>
  C4: Writing to a regular file inside its clusters changes exactly the bytes from the cursor on, as the
  holder of the descriptor sees them, moves the cursor behind them and lets the size grow to reach
  them. On the disk only sectors of this file change, and no other open file does. The call returns
  whatever the fuel, as it needs no new cluster.
\<close>

theorem fat_write_stores:
  assumes "chain_on_disk pc_ok pc_view s cs" and "kept_apart (fatfs s) cs" and "wf_state s"
    and "fd < MAX_OPEN_FILES" and "\<not> has (NOT (f_flags (the_file s fd))) (FAT_FLAG_OPEN OR FAT_FLAG_WRITE)"
    and "\<not> has (f_flags (the_file s fd)) FAT_FLAG_APPEND"
    and "regular_file (fatfs s) cs (the_file s fd)"
    and "editing_at (fatfs s) (pc_view (dev s)) cs p (the_file s fd)" and "p \<le> unat (f_size (the_file s fd))"
    and "p + length data \<le> 512 * chain_sectors (fatfs s) cs" and "length data < 2 ^ 31"
  shows "\<exists>s'. fat_write (pc_platform clk junk) n fd data s = Some ((int (length data), 0), s') \<and>
    edited_bytes pc_view s' cs (the_file s' fd) = splice (edited_bytes pc_view s cs (the_file s fd)) p data \<and>
    editing_at (fatfs s) (pc_view (dev s')) cs (p + length data) (the_file s' fd) \<and>
    unat (f_size (the_file s' fd)) = max (unat (f_size (the_file s fd))) (p + length data) \<and>
    same_mode (the_file s fd) (the_file s' fd) \<and> only_file_changed pc_ok pc_view cs fd s s'"
  using write_edit [OF assms] .

end
