(* ===== verification/Fat_Seek.thy ===== *)
theory Fat_Seek
  imports Fat_Write
begin

text \<open>
  Where \<open>fat_lseek\<close> arrives, and the round trip of a file: what has been written is read back.
\<close>

section \<open>The arithmetic of a seek\<close>

lemma of_nat_div32:
  "a < 2 ^ 32 \<Longrightarrow> b < 2 ^ 32 \<Longrightarrow> (of_nat a :: u32) div of_nat b = of_nat (a div b)"
  by (simp add: word_arith_nat_div unat_of_nat32)

lemma byte_of_nat32: "n < 256 \<Longrightarrow> unat (ucast (of_nat n :: u32) :: byte) = n"
  by (simp add: unsigned_ucast_eq unat_of_nat take_bit_nat_eq_self)

lemma cluster_size_word: "ucast (sectors_per_cluster v) * 512 = (of_nat (512 * sectors_in_cluster v) :: u32)"
  by (simp add: sectors_in_cluster_def)

lemma seek_words:
  fixes p' :: nat and v :: fat_info
  assumes "wf_fat_info v" and "p' < 2 ^ 32"
  defines "w \<equiv> of_nat p' :: u32" and "c \<equiv> sectors_in_cluster v"
  shows "unat w = p'" "w div 512 = of_nat (p' div 512)"
    "w div (ucast (sectors_per_cluster v) * 512) = of_nat (p' div 512 div c)"
    "(w - w div (ucast (sectors_per_cluster v) * 512) * ucast (sectors_per_cluster v) * 512) div 512 =
      of_nat (p' div 512 mod c)"
    "unat (ucast (w AND 0x1FF) :: u16) = p' mod 512"
proof -
  have c: "0 < c" "512 * c < 2 ^ 32" using sectors_in_cluster_pos [OF assms(1)] by (simp_all add: c_def)
  show w: "unat w = p'" unfolding w_def using assms(2) by (rule unat_of_nat32)
  show "w div 512 = of_nat (p' div 512)" unfolding w_def using of_nat_div32 [OF assms(2), of 512] by simp
  show cl: "w div (ucast (sectors_per_cluster v) * 512) = of_nat (p' div 512 div c)"
    unfolding w_def cluster_size_word c_def [symmetric] of_nat_div32 [OF assms(2) c(2)]
    by (simp add: div_mult2_eq)
  let ?m = "p' div (512 * c) * (512 * c)"
  have "?m \<le> p'" by simp
  have "w - w div (ucast (sectors_per_cluster v) * 512) * ucast (sectors_per_cluster v) * 512 =
      of_nat p' - of_nat (p' div 512 div c) * (ucast (sectors_per_cluster v) * 512)"
    unfolding cl by (simp add: w_def algebra_simps)
  also have "\<dots> = of_nat (p' - ?m)"
    unfolding cluster_size_word c_def [symmetric] of_nat_diff [OF \<open>?m \<le> p'\<close>]
    by (simp add: div_mult2_eq)
  also have "p' - ?m = p' mod (512 * c)" by (simp add: minus_div_mult_eq_mod)
  finally have "(w - w div (ucast (sectors_per_cluster v) * 512) * ucast (sectors_per_cluster v) * 512) div 512 =
      of_nat (p' mod (512 * c) div 512)"
    using of_nat_div32 [of "p' mod (512 * c)" 512] assms(2) by (simp add: le_less_trans [OF mod_less_eq_dividend])
  then show "(w - w div (ucast (sectors_per_cluster v) * 512) * ucast (sectors_per_cluster v) * 512) div 512 =
      of_nat (p' div 512 mod c)"
    by (simp add: mod_mult2_eq)
  show "unat (ucast (w AND 0x1FF) :: u16) = p' mod 512" by (simp add: cursor_value w)
qed

section \<open>The three cases\<close>

text \<open>The file is read sector by sector, so every case ends with the sector of byte \<open>p'\<close> in the buffer.\<close>

lemma seek_in_cluster_place:
  assumes wf: "wf_fat_info v" and place: "at_place v cs q f" and p: "p < 2 ^ 32" "p div 512 = q"
    and p': "p' < 2 ^ 32" "p' div 512 < chain_sectors v cs"
    and same: "p' div 512 div sectors_in_cluster v = q div sectors_in_cluster v"
  shows "at_place v cs (p' div 512) (seek_in_cluster (of_nat p') (of_nat p) f)"
    "unat (f_cursor (seek_in_cluster (of_nat p') (of_nat p) f)) = p' mod 512"
proof -
  let ?c = "sectors_in_cluster v" and ?q' = "p' div 512"
  note w' = seek_words [OF wf p'(1)] and w = seek_words [OF wf p(1)]
  have c: "0 < ?c" "?c \<le> 128" using sectors_in_cluster_pos [OF wf] by simp_all
  have q: "q = ?c * (q div ?c) + q mod ?c" "?q' = ?c * (q div ?c) + ?q' mod ?c"
    using div_mult_mod_eq [of q ?c] div_mult_mod_eq [of ?q' ?c] same by (simp_all add: mult.commute)
  have less: "q mod ?c < ?c" "?q' mod ?c < ?c" using c by simp_all
  show "unat (f_cursor (seek_in_cluster (of_nat p') (of_nat p) f)) = p' mod 512"
    by (simp add: seek_in_cluster_def w'(5))
  have "?q' mod ?c + q = q mod ?c + ?q'" using q by linarith
  then have words: "(of_nat (?q' mod ?c) + of_nat q :: u32) = of_nat (q mod ?c) + of_nat ?q'"
    by (metis of_nat_add)
  have sector: "chain_sector v cs q + of_nat ?q' - of_nat q = chain_sector v cs ?q'"
    using words by (simp add: chain_sector_def same algebra_simps)
  have left: "f_sectors_left f = of_nat (?c - 1 - q mod ?c)"
    using place by (metis at_place_def of_nat_unat ucast_id)
  have "?c - 1 - q mod ?c + q = (?c - 1 - ?q' mod ?c) + ?q'" using q less by linarith
  then have "(of_nat (?c - 1 - q mod ?c) + of_nat q :: u32) = of_nat (?c - 1 - ?q' mod ?c) + of_nat ?q'"
    by (metis of_nat_add)
  then have "(of_nat (?c - 1 - q mod ?c) - of_nat ?q' + of_nat q :: u32) = of_nat (?c - 1 - ?q' mod ?c)"
    by (simp add: algebra_simps)
  moreover have "(ucast (of_nat (?c - 1 - q mod ?c) :: byte) :: u32) = of_nat (?c - 1 - q mod ?c)"
    using c(2) by (simp add: word_unat_eq_iff unat_of_nat)
  ultimately have "ucast (ucast (f_sectors_left f) - of_nat ?q' + of_nat q :: u32) =
      (ucast (of_nat (?c - 1 - ?q' mod ?c) :: u32) :: byte)"
    by (simp add: left)
  then have "unat (ucast (ucast (f_sectors_left f) - of_nat ?q' + of_nat q :: u32) :: byte) = ?c - 1 - ?q' mod ?c"
    using c(2) by (simp only:) (rule byte_of_nat32, linarith)
  then show "at_place v cs ?q' (seek_in_cluster (of_nat p') (of_nat p) f)"
    using place p'(2) sector same by (simp add: at_place_def seek_in_cluster_def w'(2) w(2) p(2))
qed

lemma seek_arrive_place:
  assumes wf: "wf_fat_info v" and p': "p' < 2 ^ 32" "p' div 512 < chain_sectors v cs"
    and here: "f_cluster f = of_nat (cs ! (p' div 512 div sectors_in_cluster v))"
  shows "at_place v cs (p' div 512)
      (seek_arrive v (of_nat p') (of_nat p' div (ucast (sectors_per_cluster v) * 512)) f)"
    "unat (f_cursor (seek_arrive v (of_nat p') (of_nat p' div (ucast (sectors_per_cluster v) * 512)) f)) = p' mod 512"
proof -
  let ?c = "sectors_in_cluster v" and ?q' = "p' div 512"
  note w' = seek_words [OF wf p'(1)]
  have c: "0 < ?c" "?c \<le> 128" using sectors_in_cluster_pos [OF wf] by simp_all
  show "unat (f_cursor (seek_arrive v (of_nat p') (of_nat p' div (ucast (sectors_per_cluster v) * 512)) f)) = p' mod 512"
    by (simp add: seek_arrive_def Let_def w'(5))
  have r: "?q' mod ?c < ?c" using c by simp
  have "unat (ucast (of_nat (?q' mod ?c) :: u32) :: byte) = ?q' mod ?c"
    using r c(2) by (intro byte_of_nat32) linarith
  moreover have "?q' mod ?c < unat (sectors_per_cluster v)" using r by (simp add: sectors_in_cluster_def)
  ultimately have "unat (sectors_per_cluster v - ucast (of_nat (?q' mod ?c) :: u32) - 1) = ?c - 1 - ?q' mod ?c"
    by (simp add: unat_sub_if' sectors_in_cluster_def word_le_nat_alt)
  then show "at_place v cs ?q' (seek_arrive v (of_nat p') (of_nat p' div (ucast (sectors_per_cluster v) * 512)) f)"
    using p'(2) here by (simp add: at_place_def seek_arrive_def Let_def w'(2,4) chain_sector_def)
qed

context block_device
begin

text \<open>The walk along the chain, from its \<open>i\<close>-th cluster.\<close>

lemma seek_chain_walk:
  assumes "chain_on_disk ok view s cs" and "fd < length (file_num s)"
    and "\<not> has (f_flags (the_file s fd)) FAT_FLAG_DIRTY" and "f_cluster (the_file s fd) = of_nat (cs ! i)"
    and "i + k < length cs"
  shows "\<exists>f'. seek_chain P n fd k 0 s = Some (0, upd_file fd (\<lambda>_. f') s) \<and>
    f_cluster f' = of_nat (cs ! (i + k)) \<and> same_file (the_file s fd) f'"
  using assms
proof (induction k arbitrary: s i)
  case 0
  then show ?case by (intro exI [of _ "the_file s fd"]) (simp add: upd_file_id)
next
  case (Suc k)
  obtain buf where buf: "fat_next_cluster P n fd s =
      Some ((int (cs ! Suc i), 0), upd_file fd (\<lambda>f. f\<lparr>f_buffer := buf\<rparr>) s)"
    using next_cluster_reading [OF Suc.prems(1-3) _ Suc.prems(4), of "fat_flush_fileinfo P n"] Suc.prems(5)
    unfolding fat_next_cluster_def by auto
  let ?s1 = "upd_file fd (\<lambda>f. f\<lparr>f_buffer := buf, f_cluster := of_nat (cs ! Suc i)\<rparr>) s"
  have step: "upd_file fd (\<lambda>f. f\<lparr>f_cluster := word_of_int (int (cs ! Suc i))\<rparr>)
      (upd_file fd (\<lambda>f. f\<lparr>f_buffer := buf\<rparr>) s) = ?s1"
    by (simp add: comp_def)
  obtain f' where "seek_chain P n fd k 0 ?s1 = Some (0, upd_file fd (\<lambda>_. f') ?s1)"
    "f_cluster f' = of_nat (cs ! (Suc i + k))" "same_file (the_file ?s1 fd) f'"
    using Suc.IH [of ?s1 "Suc i"] Suc.prems by auto
  then show ?case
    using buf step Suc.prems(2) by (intro exI [of _ f']) (simp add: comp_def same_file_def)
qed

text \<open>A read of the sector of byte \<open>p'\<close> ends every long seek.\<close>

lemma seek_load:
  assumes chain: "chain_on_disk ok view s cs" and fd: "fd < length (file_num s)"
    and place: "at_place (fatfs s) cs (p' div 512) (the_file s fd)"
    and cur: "unat (f_cursor (the_file s fd)) = p' mod 512"
    and clean: "\<not> has (f_flags (the_file s fd)) FAT_FLAG_DIRTY"
  shows "\<exists>f'. file_block_read P fd (f_sector (the_file s fd)) s = (0, upd_file fd (\<lambda>_. f') s) \<and>
    reading_at (fatfs s) (view (dev s)) cs p' f' \<and> same_file (the_file s fd) f'"
proof -
  let ?f' = "(the_file s fd)\<lparr>f_buffer := view (dev s) (f_sector (the_file s fd))\<rparr>"
  have "f_sector (the_file s fd) = chain_sector (fatfs s) cs (p' div 512)" "p' div 512 < chain_sectors (fatfs s) cs"
    using place by (simp_all add: at_place_def)
  then have "ok (dev s) (f_sector (the_file s fd))" using chain by (simp add: chain_on_disk_def)
  then have "file_block_read P fd (f_sector (the_file s fd)) s = (0, upd_file fd (\<lambda>_. ?f') s)"
    by (simp add: file_read_ok) (rule upd_file_cong, simp)
  moreover have "on_sector (fatfs s) (view (dev s)) cs (p' div 512) ?f'"
    using place clean by (simp add: at_place_on_sector at_place_def)
  then have "reading_at (fatfs s) (view (dev s)) cs p' ?f'"
    using cur by (auto simp: reading_at_def intro!: exI [of _ "p' div 512"] order_less_imp_le)
  ultimately show ?thesis by (intro exI [of _ ?f']) (simp add: same_file_def)
qed

text \<open>The two long seeks, from a file whose place is \<open>p\<close>: inside the cluster, and along the chain.\<close>

lemma seek_load_from:
  assumes "chain_on_disk ok view s cs" and "fd < length (file_num s)"
    and "at_place (fatfs s) cs (p' div 512) f3" and "unat (f_cursor f3) = p' mod 512"
    and "same_file f f3" and "\<not> has (f_flags f) FAT_FLAG_DIRTY"
  shows "\<exists>f'. file_block_read P fd (f_sector f3) (upd_file fd (\<lambda>_. f3) s) = (0, upd_file fd (\<lambda>_. f') s) \<and>
    reading_at (fatfs s) (view (dev s)) cs p' f' \<and> same_file f f'"
  using seek_load [of "upd_file fd (\<lambda>_. f3) s" cs fd p'] assms by (auto simp: comp_def same_file_def)

lemma seek_near:
  assumes chain: "chain_on_disk ok view s cs" and fd: "fd < length (file_num s)"
    and on: "on_sector (fatfs s) (view (dev s)) cs (p div 512) f" and same: "same_file f0 f"
    and bounds: "p < 2 ^ 32" "p' < 2 ^ 32" "p' div 512 < chain_sectors (fatfs s) cs"
    and cluster: "p' div 512 div sectors_in_cluster (fatfs s) = p div 512 div sectors_in_cluster (fatfs s)"
  defines "f3 \<equiv> seek_in_cluster (of_nat p') (of_nat p) f"
  shows "\<exists>f'. file_block_read P fd (f_sector f3) (upd_file fd (\<lambda>_. f3) s) = (0, upd_file fd (\<lambda>_. f') s) \<and>
    reading_at (fatfs s) (view (dev s)) cs p' f' \<and> same_file f0 f'"
proof (rule seek_load_from [OF chain fd])
  have wf: "wf_fat_info (fatfs s)" using chain by (simp add: chain_on_disk_def regular_fat_def)
  have "at_place (fatfs s) cs (p div 512) f" using on by (simp add: at_place_on_sector)
  from seek_in_cluster_place [OF wf this bounds(1) refl bounds(2,3) cluster]
  show "at_place (fatfs s) cs (p' div 512) f3" "unat (f_cursor f3) = p' mod 512"
    by (simp_all add: f3_def)
  show "same_file f0 f3" using same by (simp add: f3_def same_file_def seek_in_cluster_def)
  show "\<not> has (f_flags f0) FAT_FLAG_DIRTY" using on same by (simp add: on_sector_def same_file_def)
qed

lemma seek_far:
  assumes chain: "chain_on_disk ok view s cs" and fd: "fd < length (file_num s)"
    and clean: "\<not> has (f_flags f0) FAT_FLAG_DIRTY" and same: "same_file f0 f"
    and first: "f_full_first_cluster f0 = of_nat (cs ! 0)"
    and bounds: "p' < 2 ^ 32" "p' div 512 < chain_sectors (fatfs s) cs"
  defines "k \<equiv> p' div 512 div sectors_in_cluster (fatfs s)"
  shows "\<exists>f4 f'. seek_chain P n fd k 0 (upd_file fd (\<lambda>_. f\<lparr>f_cluster := f_full_first_cluster f\<rparr>) s) =
      Some (0, upd_file fd (\<lambda>_. f4) s) \<and>
    (let f3 = seek_arrive (fatfs s) (of_nat p') (of_nat p' div (ucast (sectors_per_cluster (fatfs s)) * 512)) f4 in
      file_block_read P fd (f_sector f3) (upd_file fd (\<lambda>_. f3) s) = (0, upd_file fd (\<lambda>_. f') s)) \<and>
    reading_at (fatfs s) (view (dev s)) cs p' f' \<and> same_file f0 f'"
proof -
  let ?f1 = "f\<lparr>f_cluster := f_full_first_cluster f\<rparr>"
  have wf: "wf_fat_info (fatfs s)" using chain by (simp add: chain_on_disk_def regular_fat_def)
  have k: "k < length cs" unfolding k_def using bounds(2) by (rule sector_cluster_less)
  have "f_cluster ?f1 = of_nat (cs ! 0)" "\<not> has (f_flags ?f1) FAT_FLAG_DIRTY"
    using first same clean by (simp_all add: same_file_def)
  then obtain f4 where f4: "seek_chain P n fd k 0 (upd_file fd (\<lambda>_. ?f1) s) = Some (0, upd_file fd (\<lambda>_. f4) s)"
    "f_cluster f4 = of_nat (cs ! k)" "same_file ?f1 f4"
    using seek_chain_walk [of "upd_file fd (\<lambda>_. ?f1) s" cs fd 0 k n] chain fd k by (auto simp: comp_def)
  let ?f3 = "seek_arrive (fatfs s) (of_nat p') (of_nat p' div (ucast (sectors_per_cluster (fatfs s)) * 512)) f4"
  have "same_file f0 ?f3" using same f4(3) by (simp add: same_file_def seek_arrive_def Let_def)
  from seek_load_from [OF chain fd _ _ this clean]
    seek_arrive_place [OF wf bounds f4(2) [unfolded k_def]]
  show ?thesis using f4(1) by (simp add: Let_def) blast
qed

lemma flushed_bytes:
  assumes "chain_on_disk ok view s cs" and "fatfs s1 = fatfs s"
    and "\<forall>b. ok (dev s) b \<longrightarrow> view (dev s1) b = with_buffer (view (dev s)) (the_file s fd) b"
    and "reading_at (fatfs s) (view (dev s1)) cs p f'"
  shows "chain_bytes (fatfs s1) (with_buffer (view (dev s1)) f') cs = edited_bytes view s cs (the_file s fd)"
proof -
  have "with_buffer (view (dev s1)) f' = view (dev s1)"
    using assms(4) with_buffer_on_sector by (auto simp: reading_at_def)
  then show ?thesis
    unfolding edited_bytes_def using assms(1-3)
    by (auto intro!: chain_bytes_cong simp: data_blocks_def chain_on_disk_def)
qed

lemma lseek_moves:
  assumes chain: "chain_on_disk ok view s cs" and fd: "fd < length (file_num s)"
    and at: "reading_at (fatfs s) (view (dev s)) cs p (the_file s fd)" and p: "p < 512 * chain_sectors (fatfs s) cs"
    and first: "f_full_first_cluster (the_file s fd) = of_nat (cs ! 0)"
    and p': "p' < 512 * chain_sectors (fatfs s) cs" and small: "512 * chain_sectors (fatfs s) cs < 2 ^ 31"
    and opened: "\<not> bad_fd fd s" and target: "lseek_target (the_file s fd) ptr dir = of_nat p'"
    and inside: "p' \<le> unat (f_size (the_file s fd))"
  shows "\<exists>f'. fat_lseek P n fd ptr dir s = Some ((int p', 0), upd_file fd (\<lambda>_. f') s) \<and>
    reading_at (fatfs s) (view (dev s)) cs p' f' \<and> same_file (the_file s fd) f'"
proof -
  let ?v = "fatfs s" and ?f = "the_file s fd"
  let ?c = "sectors_in_cluster ?v" and ?q' = "p' div 512"
  have wf: "wf_fat_info ?v" using chain by (simp add: chain_on_disk_def regular_fat_def)
  obtain q where q: "on_sector ?v (view (dev s)) cs q ?f" "unat (f_cursor ?f) \<le> 512" "p = 512 * q + unat (f_cursor ?f)"
    using at by (auto simp: reading_at_def)
  have clean: "\<not> has (f_flags ?f) FAT_FLAG_DIRTY" using q(1) by (simp add: on_sector_def)
  have bounds: "p < 2 ^ 32" "p' < 2 ^ 32" "?q' < chain_sectors ?v cs" using p p' small by simp_all
  note w = seek_words [OF wf bounds(1)] and w' = seek_words [OF wf bounds(2)]
  have "unat (file_pos ?f) = p" using file_pos_reading [OF q(1,2)] q(3) bounds(1) by simp
  then have pos: "file_pos ?f = of_nat p" by (metis of_nat_unat ucast_id)
  have size: "\<not> of_nat p' > f_size ?f" using inside w'(1) by (simp add: word_less_nat_alt)
  have result: "sint (of_nat p' :: u32) = int p'" using p' small by (intro int_of_cluster) simp
  have flush: "fat_flush P n fd s = Some (0, s)" using clean by (simp add: fat_flush_def flush_clean)
  obtain f2 q2 where f2: "(if f_cursor ?f = 512 then fat_next_sector P n fd s else Some (0, s)) =
      Some (0, upd_file fd (\<lambda>_. f2) s)" "same_file ?f f2" "on_sector ?v (view (dev s)) cs q2 f2"
    "unat (f_cursor f2) < 512" "p = 512 * q2 + unat (f_cursor f2)"
    using reading_advance [OF chain fd at p, of n] by blast
  let ?s2 = "upd_file fd (\<lambda>_. f2) s"
  have q2: "p div 512 = q2" using f2(4,5) by simp
  have below: "p div 512 < 2 ^ 32" "?q' < 2 ^ 32" "p div 512 div ?c < 2 ^ 32" "?q' div ?c < 2 ^ 32"
    using bounds(1,2) by (simp_all add: le_less_trans [OF div_le_dividend])
  have same_words: "of_nat a = (of_nat b :: u32) \<longleftrightarrow> a = b" if "a < 2 ^ 32" "b < 2 ^ 32" for a b :: nat
    using that by (metis unat_of_nat32)
  let ?cb = "ucast (sectors_per_cluster ?v) * 512 :: u32"
  have step: "fat_lseek P n fd ptr dir s =
    (if (of_nat p :: u32) div 512 = of_nat p' div 512 then
       Some ((int p', 0), upd_file fd (\<lambda>f. f\<lparr>f_cursor := ucast ((of_nat p' :: u32) AND 0x1FF)\<rparr>) ?s2)
     else if (of_nat p' :: u32) div ?cb = of_nat p div ?cb then
       (case file_block_read P fd (f_sector (the_file (upd_file fd (seek_in_cluster (of_nat p') (of_nat p)) ?s2) fd))
           (upd_file fd (seek_in_cluster (of_nat p') (of_nat p)) ?s2) of (rc, s4) \<Rightarrow>
          if rc \<noteq> 0 then Some ((ptr - 1, 0), s4) else Some ((int p', 0), s4))
     else do {
       (e, s4) \<leftarrow> seek_chain P n fd (unat ((of_nat p' :: u32) div ?cb)) 0
         (upd_file fd (\<lambda>f. f\<lparr>f_cluster := f_full_first_cluster f\<rparr>) ?s2);
       (case file_block_read P fd (f_sector (the_file (upd_file fd (seek_arrive ?v (of_nat p') (of_nat p' div ?cb)) s4) fd))
           (upd_file fd (seek_arrive ?v (of_nat p') (of_nat p' div ?cb)) s4) of (rc, s6) \<Rightarrow>
          if rc \<noteq> 0 then Some ((ptr - 1, e), s6) else Some ((int p', e), s6)) })"
    by (simp only: fat_lseek_def opened if_False flush Option.bind.bind_lunit prod.case Let_def pos target size
        f2(1) simp_thms upd_file_simps(2) result)
  show ?thesis
  proof (cases "p div 512 = ?q'")
    case True
    let ?f' = "f2\<lparr>f_cursor := ucast ((of_nat p' :: u32) AND 0x1FF)\<rparr>"
    have "fat_lseek P n fd ptr dir s = Some ((int p', 0), upd_file fd (\<lambda>_. ?f') s)"
      unfolding step w(2) w'(2) using True by (simp add: comp_def)
    moreover have "on_sector ?v (view (dev s)) cs ?q' ?f'"
      using f2(3) q2 True by (simp add: on_sector_def)
    then have "reading_at ?v (view (dev s)) cs p' ?f'"
      using w'(5) by (auto simp: reading_at_def intro!: exI [of _ ?q'] order_less_imp_le)
    ultimately show ?thesis using f2(2) by (intro exI [of _ ?f']) (simp add: same_file_def)
  next
    case False
    then have sector: "(of_nat p :: u32) div 512 \<noteq> of_nat p' div 512"
      unfolding w(2) w'(2) using same_words [OF below(1,2)] by simp
    show ?thesis
    proof (cases "?q' div ?c = p div 512 div ?c")
      case True
      have "on_sector ?v (view (dev s)) cs (p div 512) f2" using f2(3) q2 by simp
      from seek_near [OF chain fd this f2(2) bounds True] show ?thesis
        unfolding step w(3) w'(3) using sector True fd by (auto simp: comp_def)
    next
      case other: False
      have words: "(of_nat p' :: u32) div ?cb \<noteq> of_nat p div ?cb"
        unfolding w(3) w'(3) using same_words [OF below(4,3)] other by simp
      have "unat ((of_nat p' :: u32) div ?cb) = ?q' div ?c" unfolding w'(3) by (rule unat_of_nat32 [OF below(4)])
      with seek_far [OF chain fd clean f2(2) first bounds(2,3), of n] show ?thesis
        unfolding step using sector words fd by (fastforce simp: comp_def Let_def)
    qed
  qed
qed

lemma lseek_after_flush:
  assumes "fat_flush P n fd s = Some (0, s1)" and "fat_flush P n fd s1 = Some (0, s1)" and "bad_fd fd s1 = bad_fd fd s"
    and "\<not> bad_fd fd s"
  shows "fat_lseek P n fd ptr dir s = fat_lseek P n fd ptr dir s1"
  using assms by (simp add: fat_lseek_def)

lemma lseek_edit:
  assumes chain: "chain_on_disk ok view s cs" and apart: "kept_apart (fatfs s) cs"
    and fd: "fd < length (file_num s)" and opened: "\<not> bad_fd fd s"
    and at: "editing_at (fatfs s) (view (dev s)) cs p (the_file s fd)" and p: "p < 512 * chain_sectors (fatfs s) cs"
    and first: "f_full_first_cluster (the_file s fd) = of_nat (cs ! 0)"
    and target: "lseek_target (the_file s fd) ptr dir = of_nat p'"
    and p': "p' < 512 * chain_sectors (fatfs s) cs" "p' \<le> unat (f_size (the_file s fd))"
    and small: "512 * chain_sectors (fatfs s) cs < 2 ^ 31"
  shows "\<exists>s'. fat_lseek P n fd ptr dir s = Some ((int p', 0), s') \<and>
    reading_at (fatfs s) (view (dev s')) cs p' (the_file s' fd) \<and>
    chain_bytes (fatfs s) (view (dev s')) cs = edited_bytes view s cs (the_file s fd) \<and>
    same_mode (the_file s fd) (the_file s' fd) \<and> f_size (the_file s' fd) = f_size (the_file s fd) \<and>
    only_file_changed ok view cs fd s s'"
proof -
  let ?f = "the_file s fd"
  obtain q where q: "at_place (fatfs s) cs q ?f" "unat (f_cursor ?f) \<le> 512" "p = 512 * q + unat (f_cursor ?f)"
    and sync: "synced (view (dev s)) ?f"
    using at by (auto simp: editing_at_def)
  obtain s1 where s1: "fat_flush_with P (fat_flush_fileinfo P n) fd s = Some (0, s1)"
    "the_file s1 fd = clear_flags FAT_FLAG_DIRTY ?f"
    "on_sector (fatfs s) (view (dev s1)) cs q (the_file s1 fd)" "only_file_changed ok view cs fd s s1"
    "\<forall>b. ok (dev s) b \<longrightarrow> view (dev s1) b = with_buffer (view (dev s)) ?f b"
    using flush_place [OF chain apart fd q(1) sync] by blast
  have same: "fatfs s1 = fatfs s" and fd1: "fd < length (file_num s1)"
    using s1(4) fd by (simp_all add: only_file_changed_def)
  have chain1: "chain_on_disk ok view s1 cs" by (rule only_file_changed_chain [OF s1(4) apart chain])
  have mode: "same_mode ?f (the_file s1 fd)" using same_file_mode [of ?f "the_file s1 fd"] s1(2) by simp
  have "has (f_flags (the_file s1 fd)) FAT_FLAG_OPEN = has (f_flags ?f) FAT_FLAG_OPEN"
    using has_and_not_disjoint [of FAT_FLAG_DIRTY FAT_FLAG_OPEN "f_flags ?f"] s1(2) by simp
  then have open1: "bad_fd fd s1 = bad_fd fd s" by (simp add: bad_fd_def)
  have flush: "fat_flush P n fd s = Some (0, s1)" "fat_flush P n fd s1 = Some (0, s1)"
    using s1(1,3) by (simp_all add: fat_flush_def flush_clean on_sector_def)
  have at1: "reading_at (fatfs s1) (view (dev s1)) cs p (the_file s1 fd)"
    using s1(2,3) q(2,3) same by (auto simp: reading_at_def intro!: exI [of _ q])
  have target1: "lseek_target (the_file s1 fd) ptr dir = of_nat p'"
    unfolding target [symmetric] s1(2) lseek_target_def file_pos_def by simp
  obtain f' where f': "fat_lseek P n fd ptr dir s1 = Some ((int p', 0), upd_file fd (\<lambda>_. f') s1)"
    "reading_at (fatfs s1) (view (dev s1)) cs p' f'" "same_file (the_file s1 fd) f'"
    using lseek_moves [OF chain1 fd1 at1, of p' ptr dir n] p first p' small opened open1 target1 same s1(2)
    by auto
  let ?s' = "upd_file fd (\<lambda>_. f') s1"
  have "chain_bytes (fatfs s) (view (dev s1)) cs = edited_bytes view s cs ?f"
    using flushed_bytes [OF chain same s1(5), of p' f'] f'(2) same with_buffer_on_sector
    by (auto simp: reading_at_def)
  moreover have "same_mode ?f f'"
    using mode f'(3) by (simp add: same_mode_def same_file_def)
  moreover have "only_file_changed ok view cs fd s ?s'"
    using only_file_changed_trans [OF s1(4) only_file_changed_upd] .
  moreover have "fat_lseek P n fd ptr dir s = Some ((int p', 0), ?s')"
    using lseek_after_flush [OF flush open1 opened] f'(1) by simp
  ultimately show ?thesis
    using f'(2,3) fd1 same s1(2) by (intro exI [of _ ?s']) (simp add: same_file_def)
qed

end

section \<open>Properties\<close>

text \<open>
  C5: A seek to a byte of a file inside its clusters arrives there, in all its cases (the same sector,
  another sector of the cluster, another cluster found along the chain): what is in the buffer
  reaches the disk first, the sector with the byte is loaded and the countdown fits it. The bytes of
  the file do not change.
\<close>

theorem fat_lseek_arrives:
  assumes "chain_on_disk pc_ok pc_view s cs" and "kept_apart (fatfs s) cs" and "fd < length (file_num s)"
    and "\<not> bad_fd fd s" and "editing_at (fatfs s) (pc_view (dev s)) cs p (the_file s fd)"
    and "p < 512 * chain_sectors (fatfs s) cs" and "f_full_first_cluster (the_file s fd) = of_nat (cs ! 0)"
    and "lseek_target (the_file s fd) ptr dir = of_nat p'" and "p' < 512 * chain_sectors (fatfs s) cs"
    and "p' \<le> unat (f_size (the_file s fd))" and "512 * chain_sectors (fatfs s) cs < 2 ^ 31"
  shows "\<exists>s'. fat_lseek (pc_platform clk junk) n fd ptr dir s = Some ((int p', 0), s') \<and>
    reading_at (fatfs s) (pc_view (dev s')) cs p' (the_file s' fd) \<and>
    chain_bytes (fatfs s) (pc_view (dev s')) cs = edited_bytes pc_view s cs (the_file s fd) \<and>
    same_mode (the_file s fd) (the_file s' fd) \<and> f_size (the_file s' fd) = f_size (the_file s fd) \<and>
    only_file_changed pc_ok pc_view cs fd s s'"
  using pc.lseek_edit [OF assms] .

lemma has_masked:
  fixes x y :: "'a::len word"
  assumes "x AND k = y AND k" and "m AND k = m"
  shows "has x m = has y m" "has (NOT x) m = has (NOT y) m"
proof -
  have "x AND m = y AND m" using assms by (metis and.assoc and.commute)
  moreover have "NOT x AND m = NOT y AND m"
  proof (rule bit_word_eqI)
    fix i assume "i < LENGTH('a)"
    have "bit x i = bit y i" if "bit m i"
      using that calculation by (metis bit_and_iff)
    then show "bit (NOT x AND m) i = bit (NOT y AND m) i"
      using \<open>i < LENGTH('a)\<close> by (auto simp: bit_and_iff bit_not_iff)
  qed
  ultimately show "has x m = has y m" "has (NOT x) m = has (NOT y) m" by (simp_all add: has_def)
qed

lemma has_less: "\<not> has x k \<Longrightarrow> m AND k = m \<Longrightarrow> \<not> has x m" for x :: "'a::len word"
  unfolding has_def by (metis and.assoc and.commute bit.conj_zero_left)

lemma has_not_not:
  fixes x :: "'a::len word"
  assumes "\<not> has (NOT x) m" and "m \<noteq> 0"
  shows "has x m"
proof -
  have "x AND m = m"
  proof (rule bit_word_eqI)
    fix i assume "i < LENGTH('a)"
    moreover have "\<not> bit (NOT x AND m) i" using assms(1) by (simp add: has_def)
    ultimately show "bit (x AND m) i = bit m i" by (auto simp: bit_and_iff bit_not_iff)
  qed
  then show ?thesis using assms(2) by (simp add: has_def)
qed

lemma take_drop_splice:
  "p + length xs \<le> length ys \<Longrightarrow> take (length xs) (drop p (splice ys p xs)) = xs"
  by (simp add: splice_def)

text \<open>
  C3: What has been written is read back: after a write inside the clusters of a file that is open for
  both, a seek back to where the write began and a read of as many bytes deliver the written bytes.
\<close>

theorem fat_write_read_back:
  assumes "chain_on_disk pc_ok pc_view s cs" and "kept_apart (fatfs s) cs" and "wf_state s"
    and "fd < MAX_OPEN_FILES"
    and "\<not> has (NOT (f_flags (the_file s fd))) (FAT_FLAG_OPEN OR FAT_FLAG_READ OR FAT_FLAG_WRITE)"
    and "\<not> has (f_flags (the_file s fd)) FAT_FLAG_APPEND"
    and "regular_file (fatfs s) cs (the_file s fd)"
    and "editing_at (fatfs s) (pc_view (dev s)) cs p (the_file s fd)" and "p \<le> unat (f_size (the_file s fd))"
    and "p + length data < 512 * chain_sectors (fatfs s) cs" and "512 * chain_sectors (fatfs s) cs < 2 ^ 31"
    and "f_full_first_cluster (the_file s fd) = of_nat (cs ! 0)"
  shows "\<exists>s1 s2 s3. fat_write (pc_platform clk junk) n fd data s = Some ((int (length data), 0), s1) \<and>
    fat_lseek (pc_platform clk junk) n fd (int p) SEEK_SET s1 = Some ((int p, 0), s2) \<and>
    fat_read (pc_platform clk junk) n fd (of_nat (length data)) s2 = Some ((int (length data), 0, data), s3)"
proof -
  let ?P = "pc_platform clk junk" and ?N = "512 * chain_sectors (fatfs s) cs"
  let ?f = "the_file s fd" and ?size = "max (unat (f_size (the_file s fd))) (p + length data)"
  let ?bytes = "splice (edited_bytes pc_view s cs ?f) p data"
  have fd: "fd < length (file_num s)" using assms(3,4) by (simp add: wf_state_def)
  have "\<not> has (NOT (f_flags ?f)) (FAT_FLAG_OPEN OR FAT_FLAG_WRITE)"
    by (rule has_less [OF assms(5)]) simp
  then obtain s1 where s1: "fat_write ?P n fd data s = Some ((int (length data), 0), s1)"
    "edited_bytes pc_view s1 cs (the_file s1 fd) = ?bytes"
    "editing_at (fatfs s) (pc_view (dev s1)) cs (p + length data) (the_file s1 fd)"
    "unat (f_size (the_file s1 fd)) = ?size" "same_mode ?f (the_file s1 fd)"
    "only_file_changed pc_ok pc_view cs fd s s1"
    using write_edit [OF assms(1-4) _ assms(6-9), of data clk junk n] assms(10,11) by auto
  have v1: "fatfs s1 = fatfs s" and fd1: "fd < length (file_num s1)"
    using s1(6) fd by (simp_all add: only_file_changed_def)
  have chain1: "chain_on_disk pc_ok pc_view s1 cs" by (rule only_file_changed_chain [OF s1(6) assms(2,1)])
  have low: "f_flags (the_file s1 fd) AND 0xF = f_flags ?f AND 0xF"
    "f_full_first_cluster (the_file s1 fd) = of_nat (cs ! 0)"
    using s1(5) assms(12) by (simp_all add: same_mode_def)
  have "\<not> has (NOT (f_flags (the_file s1 fd))) FAT_FLAG_OPEN"
    using has_masked(2) [OF low(1), of FAT_FLAG_OPEN] has_less [OF assms(5), of FAT_FLAG_OPEN] by simp
  then have open1: "\<not> bad_fd fd s1" using assms(4) has_not_not [of _ FAT_FLAG_OPEN] by (auto simp: bad_fd_def)
  have target: "lseek_target (the_file s1 fd) (int p) SEEK_SET = of_nat p" by (simp add: lseek_target_def)
  have "p \<le> ?size" by simp
  then obtain s2 where s2: "fat_lseek ?P n fd (int p) SEEK_SET s1 = Some ((int p, 0), s2)"
    "reading_at (fatfs s) (pc_view (dev s2)) cs p (the_file s2 fd)"
    "chain_bytes (fatfs s) (pc_view (dev s2)) cs = ?bytes"
    "same_mode (the_file s1 fd) (the_file s2 fd)" "f_size (the_file s2 fd) = f_size (the_file s1 fd)"
    "only_file_changed pc_ok pc_view cs fd s1 s2"
    using pc.lseek_edit [OF chain1 _ fd1 open1 _ _ low(2) target, of "p + length data" clk junk n]
      assms(2,10,11) s1(2-4) v1 by auto
  have v2: "fatfs s2 = fatfs s" using s2(6) v1 by (simp add: only_file_changed_def)
  have chain2: "chain_on_disk pc_ok pc_view s2 cs"
    using only_file_changed_chain [OF s2(6) _ chain1] assms(2) v1 by simp
  have wf2: "wf_state s2"
    by (rule keeps_wf [OF presD [OF pc.pres_lseek s2(1)]],
        rule presD [OF pc.pres_fat_write [OF keeps_refl [OF assms(3)]] s1(1)])
  have mode2: "same_mode ?f (the_file s2 fd)" using s1(5) s2(4) by (rule same_mode_trans)
  then have "\<not> has (NOT (f_flags (the_file s2 fd))) (FAT_FLAG_OPEN OR FAT_FLAG_READ)"
    using has_masked(2) [of "f_flags (the_file s2 fd)" "0xF" "f_flags ?f" "FAT_FLAG_OPEN OR FAT_FLAG_READ"]
      has_less [OF assms(5), of "FAT_FLAG_OPEN OR FAT_FLAG_READ"] by (simp add: same_mode_def)
  moreover have size2: "unat (f_size (the_file s2 fd)) = ?size" using s1(4) s2(5) by simp
  then have "regular_file (fatfs s2) cs (the_file s2 fd)"
    using mode2 assms(7,10) v2 by (simp add: regular_file_def same_mode_def)
  moreover have count: "unat (of_nat (length data) :: u32) = length data"
    using assms(10,11) by (intro unat_of_nat32) simp
  moreover have "take (length data) (drop p (file_bytes pc_view s2 cs (the_file s2 fd))) = data"
  proof -
    have "length (edited_bytes pc_view s cs ?f) = ?N"
      using length_with_buffer [of "pc_view (dev s)" ?f] assms(8)
      by (simp add: edited_bytes_def length_chain_bytes editing_at_def)
    then have "take (length data) (drop p ?bytes) = data" using assms(10) by (intro take_drop_splice) simp
    then show ?thesis by (simp add: file_bytes_def size2 v2 s2(3) drop_take)
  qed
  ultimately obtain s3 where "fat_read ?P n fd (of_nat (length data)) s2 = Some ((int (length data), 0, data), s3)"
    using read_delivers [OF chain2 wf2 assms(4), of p "of_nat (length data)" clk junk n] s2(2) v2 assms(10,11)
    by (auto simp: Let_def)
  then show ?thesis using s1(1) s2(1) by blast
qed

section \<open>Instances\<close>

lemma demo_open_parts:
  "the_file demo_open 0 = demo_file" "fatfs demo_open = demo_volume" "dev demo_open = demo_dev"
  "length (file_num demo_open) = 4"
  by (simp_all add: demo_open_def the_file_def demo_state_def)

lemma demo_apart: "kept_apart demo_volume [2, 3]"
proof -
  have "q < 2 \<Longrightarrow> q = 0 \<or> q = Suc 0" for q :: nat by arith
  then have two: "{..<2 :: nat} = {0, Suc 0}" by auto
  then have "data_blocks demo_volume [2, 3] = {3, 4}" by (simp add: data_blocks_def demo_blocks)
  moreover have "c < 256 \<Longrightarrow> cell_block demo_volume c = 1" for c
    by (simp add: cell_block_def) (simp add: demo_volume_def)
  ultimately show ?thesis by (simp add: kept_apart_def demo_blocks two)
qed

lemma demo_editing: "editing_at demo_volume (pc_view demo_dev) [2, 3] 0 demo_file"
  by (rule reading_editing [OF demo_reading]) (simp add: pc.length_view)

lemma demo_facts:
  "regular_file demo_volume [2, 3] demo_file" "f_flags demo_file = 7" "f_size demo_file = 600"
  "f_full_first_cluster demo_file = 2"
  by (simp_all add: regular_file_def demo_blocks) (simp_all add: demo_file_def closed_file_def)

lemma fat_write_stores_witness:
  "\<exists>s'. fat_write (pc_platform (\<lambda>_. 0) (\<lambda>_. 0)) 0 0 (replicate 700 0x62) demo_open = Some ((700, 0), s') \<and>
    edited_bytes pc_view s' [2, 3] (the_file s' 0) =
      splice (edited_bytes pc_view demo_open [2, 3] demo_file) 0 (replicate 700 0x62) \<and>
    unat (f_size (the_file s' 0)) = 700"
  using fat_write_stores [of demo_open "[2, 3]" 0 0 "replicate 700 0x62" "\<lambda>_. 0" "\<lambda>_. 0" 0] demo_chain demo_wf(2)
  by (auto simp: demo_open_parts demo_facts demo_apart demo_editing demo_blocks has_def)

lemma fat_lseek_arrives_witness:
  "\<exists>s'. fat_lseek (pc_platform (\<lambda>_. 0) (\<lambda>_. 0)) 0 0 (- 40) SEEK_END demo_open = Some ((560, 0), s') \<and>
    reading_at demo_volume (pc_view (dev s')) [2, 3] 560 (the_file s' 0)"
proof -
  have "\<not> bad_fd 0 demo_open" by (simp add: bad_fd_def demo_open_parts demo_facts has_def)
  moreover have "lseek_target demo_file (- 40) SEEK_END = of_nat 560" by (simp add: lseek_target_def demo_facts)
  ultimately show ?thesis
    using fat_lseek_arrives [of demo_open "[2, 3]" 0 0 "- 40" SEEK_END 560 "\<lambda>_. 0" "\<lambda>_. 0" 0] demo_chain
    by (auto simp: demo_open_parts demo_facts demo_apart demo_editing demo_blocks)
qed

lemma fat_write_read_back_witness:
  "\<exists>s1 s2 s3. fat_write (pc_platform (\<lambda>_. 0) (\<lambda>_. 0)) 0 0 (replicate 700 0x62) demo_open = Some ((700, 0), s1) \<and>
    fat_lseek (pc_platform (\<lambda>_. 0) (\<lambda>_. 0)) 0 0 0 SEEK_SET s1 = Some ((0, 0), s2) \<and>
    fat_read (pc_platform (\<lambda>_. 0) (\<lambda>_. 0)) 0 0 700 s2 = Some ((700, 0, replicate 700 0x62), s3)"
  using fat_write_read_back [of demo_open "[2, 3]" 0 0 "replicate 700 0x62" "\<lambda>_. 0" "\<lambda>_. 0" 0] demo_chain demo_wf(2)
  by (auto simp: demo_open_parts demo_facts demo_apart demo_editing demo_blocks has_def)

end
