(* ===== verification/Fat_Entry.thy ===== *)
theory Fat_Entry
  imports Fat_Read
begin

text \<open>
  Directory entries on the disk: what \<open>fat_close\<close> and \<open>fat_flush_fileinfo\<close> leave in the 32 bytes of
  a file's entry, stated over the bytes of the block and apart from the codec of \<open>Fat_Types\<close>.
\<close>

section \<open>The bytes of an entry\<close>

text \<open>
  The entry of a file at offset \<open>off\<close> of a block: name and extension, the attributes in byte 11, the
  odd second of the creation in byte 13, the dates and times from byte 14 on, the cluster's upper half
  in byte 20 and its lower half in byte 26, the size in byte 28.
\<close>

definition entry_on_disk :: "sector \<Rightarrow> nat \<Rightarrow> FileS \<Rightarrow> bool" where
  "entry_on_disk buf off f \<longleftrightarrow>
    slice off 8 buf = f_filename f \<and> slice (off + 8) 3 buf = f_extension f \<and>
    buf ! (off + 11) = f_attributes f \<and> unat (buf ! (off + 13)) = (if odd (f_created f) then 100 else 0) \<and>
    le_number buf (off + 14) 2 = unat (fat_from_unix_time (f_created f)) \<and>
    le_number buf (off + 16) 2 = unat (fat_from_unix_date (f_created f)) \<and>
    le_number buf (off + 18) 2 = unat (fat_from_unix_date (f_accessed f)) \<and>
    le_number buf (off + 22) 2 = unat (fat_from_unix_time (f_modified f)) \<and>
    le_number buf (off + 24) 2 = unat (fat_from_unix_date (f_modified f)) \<and>
    65536 * le_number buf (off + 20) 2 + le_number buf (off + 26) 2 = unat (f_full_first_cluster f) \<and>
    le_number buf (off + 28) 4 = unat (f_size f)"

lemma le_number_at:
  "off + i + n \<le> length buf \<Longrightarrow> le_number buf (off + i) n = le_number (drop off buf) i n"
  by (simp add: le_number_def add.assoc)

lemma le_number_take:
  "i + n \<le> m \<Longrightarrow> le_number (take m buf) i n = le_number buf i n"
  by (simp add: le_number_def)

lemma le_number_slice: "i + n \<le> m \<Longrightarrow> off + m \<le> length buf \<Longrightarrow> le_number buf (off + i) n = le_number (slice off m buf) i n"
  by (simp add: le_number_at le_number_take slice_def)

lemma slice_slice: "i + n \<le> m \<Longrightarrow> slice i n (slice off m buf) = slice (off + i) n buf"
  by (simp add: slice_def drop_take min_def add.commute)

lemma cluster_halves:
  "65536 * unat (ucast (drop_bit 16 c) :: u16) + unat (ucast (c AND 0xFFFF) :: u16) = unat c" for c :: u32
proof -
  have "drop_bit 16 (unat c) < 2 ^ 16"
    using unsigned_less [of c] by (simp add: drop_bit_eq_div div_less_iff_less_mult)
  then have "unat (ucast (drop_bit 16 c) :: u16) = unat c div 65536"
    by (simp add: unsigned_ucast_eq unsigned_drop_bit_eq take_bit_nat_eq_self drop_bit_eq_div unat_div)
  moreover have "c AND 0xFFFF = take_bit 16 c"
    by (simp add: take_bit_eq_mask mask_eq_exp_minus_1)
  then have "unat (ucast (c AND 0xFFFF) :: u16) = unat c mod 65536"
    by (simp only: unsigned_ucast_eq unsigned_take_bit_eq) (simp add: take_bit_eq_mod)
  ultimately show ?thesis by simp
qed

lemma dirent_fields:
  assumes "length (de_filename d) = 8" and "length (de_extension d) = 3"
  defines "b \<equiv> dirent_bytes d"
  shows "slice 0 8 b = de_filename d" "slice 8 3 b = de_extension d"
    "b ! 11 = de_attributes d" "b ! 13 = de_create_time_fine d"
    "get16 b 14 = de_create_time d" "get16 b 16 = de_create_date d" "get16 b 18 = de_access_date d"
    "get16 b 20 = de_high_first_cluster d" "get16 b 22 = de_modified_time d" "get16 b 24 = de_modified_date d"
    "get16 b 26 = de_first_cluster d" "get32 b 28 = de_size d"
proof -
  obtain a0 a1 a2 a3 a4 a5 a6 a7 where f: "de_filename d = [a0, a1, a2, a3, a4, a5, a6, a7]"
    using assms(1) by (auto simp: numeral_eq_Suc length_Suc_conv)
  obtain e0 e1 e2 where e: "de_extension d = [e0, e1, e2]"
    using assms(2) by (auto simp: numeral_eq_Suc length_Suc_conv)
  show "slice 0 8 b = de_filename d" "slice 8 3 b = de_extension d"
    "b ! 11 = de_attributes d" "b ! 13 = de_create_time_fine d"
    "get16 b 14 = de_create_time d" "get16 b 16 = de_create_date d" "get16 b 18 = de_access_date d"
    "get16 b 20 = de_high_first_cluster d" "get16 b 22 = de_modified_time d" "get16 b 24 = de_modified_date d"
    "get16 b 26 = de_first_cluster d" "get32 b 28 = de_size d"
    by (simp_all add: b_def dirent_bytes_def f e bytes16_def bytes32_def get16_def get32_def slice_def
        le16_bytes16 le32_bytes32)
qed

lemma fileinfo_fields:
  "de_filename (fileinfo_dirent junk f) = f_filename f" "de_extension (fileinfo_dirent junk f) = f_extension f"
  "de_attributes (fileinfo_dirent junk f) = f_attributes f"
  "unat (de_create_time_fine (fileinfo_dirent junk f)) = (if odd (f_created f) then 100 else 0)"
  "de_create_time (fileinfo_dirent junk f) = fat_from_unix_time (f_created f)"
  "de_create_date (fileinfo_dirent junk f) = fat_from_unix_date (f_created f)"
  "de_access_date (fileinfo_dirent junk f) = fat_from_unix_date (f_accessed f)"
  "de_high_first_cluster (fileinfo_dirent junk f) = ucast (drop_bit 16 (f_full_first_cluster f))"
  "de_modified_time (fileinfo_dirent junk f) = fat_from_unix_time (f_modified f)"
  "de_modified_date (fileinfo_dirent junk f) = fat_from_unix_date (f_modified f)"
  "de_first_cluster (fileinfo_dirent junk f) = ucast (f_full_first_cluster f AND 0xFFFF)"
  "de_size (fileinfo_dirent junk f) = f_size f"
  by (simp_all add: fileinfo_dirent_def) (simp add: odd_iff_mod_2_eq_one even_iff_mod_2_eq_zero)

lemma entry_spliced:
  assumes "length buf = 512" and "off + 32 \<le> 512" and "length (f_filename f) = 8" and "length (f_extension f) = 3"
  shows "entry_on_disk (splice buf off (dirent_bytes (fileinfo_dirent junk f))) off f"
proof -
  let ?d = "fileinfo_dirent junk f" and ?new = "splice buf off (dirent_bytes (fileinfo_dirent junk f))"
  have lens: "length (de_filename ?d) = 8" "length (de_extension ?d) = 3"
    using assms(3,4) by (simp_all add: fileinfo_dirent_def)
  note fields = dirent_fields [OF lens] and len = length_dirent_bytes [OF lens]
  have new: "length ?new = 512" and all: "slice off 32 ?new = dirent_bytes ?d"
    using assms(1,2) len by simp_all
  have num: "le_number ?new (off + i) n = le_number (dirent_bytes ?d) i n" if "i + n \<le> 32" for i n
    using le_number_slice [OF that, of off ?new] new assms(2) all by simp
  then have nums: "le_number ?new (off + i) 2 = unat (get16 (dirent_bytes ?d) i)" if "i + 2 \<le> 32" for i
    using that by (simp add: unat_get16)
  have size: "le_number ?new (off + 28) 4 = unat (f_size f)"
    using num [of 28 4] fields(12) by (simp add: fileinfo_fields flip: unat_get32)
  have part: "slice (off + i) n ?new = slice i n (dirent_bytes ?d)" if "i + n \<le> 32" for i n
    using slice_slice [OF that, of off ?new] all by simp
  have byte: "?new ! (off + i) = dirent_bytes ?d ! i" if "i < 32" for i
    using that assms(1,2) len by (simp add: nth_splice)
  show ?thesis
    unfolding entry_on_disk_def
    using part [of 0 8] part [of 8 3]
    by (simp add: byte nums size fields fileinfo_fields cluster_halves)
qed

section \<open>Flushing and closing\<close>

context block_device
begin

lemma store_fileinfo_ok:
  assumes "fd < length (file_num s)" and "ok (dev s) (f_entry_sector (the_file s fd))"
    and "ok (dev s) (f_sector (the_file s fd))"
    and new: "new = splice (f_buffer (the_file s fd)) (unat (f_entry_number (the_file s fd)) * 32) (dirent_bytes de)"
    and "length new = 512"
  shows "\<exists>s'. store_fileinfo P fd de s = (0, s') \<and>
    dev s' = fst (blk_write P (dev s) (f_entry_sector (the_file s fd)) new) \<and>
    (\<forall>fd'. fd' \<noteq> fd \<longrightarrow> the_file s' fd' = the_file s fd') \<and>
    length (file_num s') = length (file_num s)"
  using assms(1-3,5)
  by (simp add: store_fileinfo_def Let_def file_block_write_def case_prod_beta file_read_ok flip: new)

text \<open>The entry of a file that has one and no unsaved data.\<close>

lemma flush_fileinfo_ok:
  assumes wf: "wf_state s" and fd: "fd < MAX_OPEN_FILES"
  defines "f \<equiv> the_file s fd"
  assumes clean: "\<not> has (f_flags f) FAT_FLAG_DIRTY" and E: "f_entry_sector f \<noteq> 0" "ok (dev s) (f_entry_sector f)"
    and b: "ok (dev s) (f_sector f)" and cluster: "f_full_first_cluster f \<noteq> 0" "f_full_first_cluster f \<noteq> root_cluster (fatfs s)"
  defines "new \<equiv> splice (view (dev s) (f_entry_sector f)) (32 * unat (f_entry_number f))
    (dirent_bytes (fileinfo_dirent (plat_junk P 12) f))"
  shows "\<exists>s'. fat_flush_fileinfo P (Suc n) fd s = Some (0, s') \<and>
    dev s' = fst (blk_write P (dev s) (f_entry_sector f) new) \<and> length new = 512 \<and>
    entry_on_disk new (32 * unat (f_entry_number f)) f \<and>
    (\<forall>fd'. fd' \<noteq> fd \<longrightarrow> the_file s' fd' = the_file s fd') \<and> length (file_num s') = length (file_num s)"
proof -
  have wff: "wf_file f" and len: "fd < length (file_num s)"
    using wf fd by (auto simp: wf_state_def list_all_length f_def the_file_def)
  then have n: "unat (f_entry_number f) < 16" and names: "length (f_filename f) = 8" "length (f_extension f) = 3"
    by (auto simp: wf_file_def word_less_nat_alt)
  have off: "32 * unat (f_entry_number f) + 32 \<le> 512" using n by simp
  have de: "length (dirent_bytes (fileinfo_dirent (plat_junk P 12) f)) = 32"
    using names by (intro length_dirent_bytes) (simp_all add: fileinfo_fields)
  have new: "length new = 512" unfolding new_def using off de by (subst length_splice) simp_all
  let ?s1 = "upd_file fd (\<lambda>g. g\<lparr>f_buffer := view (dev s) (f_entry_sector f)\<rparr>) s"
  have "\<exists>s'. store_fileinfo P fd (fileinfo_dirent (plat_junk P 12) f) ?s1 = (0, s') \<and>
      dev s' = fst (blk_write P (dev s) (f_entry_sector f) new) \<and>
      (\<forall>fd'. fd' \<noteq> fd \<longrightarrow> the_file s' fd' = the_file s fd') \<and> length (file_num s') = length (file_num s)"
    using store_fileinfo_ok [of fd ?s1 new "fileinfo_dirent (plat_junk P 12) f"] len E(2) b new
    by (simp add: new_def f_def mult.commute)
  moreover have "fat_flush_fileinfo P (Suc n) fd s =
      Some (store_fileinfo P fd (fileinfo_dirent (plat_junk P 12) f) ?s1)"
    using clean E cluster len by (simp add: fileinfo_unneeded_def flush_clean file_read_ok f_def)
  moreover have "entry_on_disk new (32 * unat (f_entry_number f)) f"
    unfolding new_def using off names by (intro entry_spliced) simp_all
  ultimately show ?thesis using new by auto
qed

text \<open>Saving the data first leaves a file with the same entry and no unsaved data.\<close>

lemma flush_saves:
  assumes wf: "wf_state s" and fd: "fd < MAX_OPEN_FILES" and f: "f = the_file s fd" and "f_sector f \<noteq> 0"
    and "has (f_flags f) FAT_FLAG_DIRTY" and b: "ok (dev s) (f_sector f)"
    and s1: "s1 = upd_file fd (clear_flags FAT_FLAG_DIRTY)
      (s\<lparr>dev := fst (blk_write P (dev s) (f_sector f) (f_buffer f))\<rparr>)"
  shows "fat_flush P n fd s = Some (0, s1)" and "wf_state s1"
    and "the_file s1 fd = clear_flags FAT_FLAG_DIRTY f"
    and "ok (dev s1) c \<longleftrightarrow> ok (dev s) c"
    and "ok (dev s) c \<Longrightarrow> view (dev s1) c = (if c = f_sector f then f_buffer f else view (dev s) c)"
proof -
  have wff: "wf_file f" and len: "fd < length (file_num s)"
    using wf fd by (simp_all add: wf_state_file wf_state_files f)
  then have buf: "length (f_buffer f) = 512" by (simp add: wf_file_def)
  show "fat_flush P n fd s = Some (0, s1)"
    using assms(4-6) buf unfolding s1 f
    by (simp add: fat_flush_def fat_flush_with_def file_block_write_def case_prod_beta Let_def)
  show "the_file s1 fd = clear_flags FAT_FLAG_DIRTY f" using len unfolding s1 f by simp
  show "wf_state s1"
    using wf wff len unfolding s1 f
    by (auto simp: wf_state_def list_all_length upd_file_def nth_list_update the_file_def wf_file_def)
  show "ok (dev s1) c \<longleftrightarrow> ok (dev s) c" using b buf s1 by simp
  show "ok (dev s) c \<Longrightarrow> view (dev s1) c = (if c = f_sector f then f_buffer f else view (dev s) c)"
    using b buf s1 by (simp add: write_view)
qed

lemma close_clean_stores:
  assumes wf: "wf_state s" and fd: "fd < MAX_OPEN_FILES"
  defines "f \<equiv> the_file s fd"
  assumes opened: "has (f_flags f) FAT_FLAG_OPEN" and fs: "has (f_flags f) FAT_FLAG_FS_DIRTY"
    and clean: "\<not> has (f_flags f) FAT_FLAG_DIRTY" and E: "f_entry_sector f \<noteq> 0" "ok (dev s) (f_entry_sector f)"
    and b: "ok (dev s) (f_sector f)" and cluster: "f_full_first_cluster f \<noteq> 0" "f_full_first_cluster f \<noteq> root_cluster (fatfs s)"
  shows "\<exists>s'. fat_close P (Suc n) fd s = Some ((0, 0), s') \<and>
    entry_on_disk (view (dev s') (f_entry_sector f)) (32 * unat (f_entry_number f)) f \<and>
    (\<forall>i<512. i < 32 * unat (f_entry_number f) \<or> 32 * unat (f_entry_number f) + 32 \<le> i \<longrightarrow>
      view (dev s') (f_entry_sector f) ! i = view (dev s) (f_entry_sector f) ! i) \<and>
    (\<forall>c. ok (dev s) c \<longrightarrow> c \<noteq> f_entry_sector f \<longrightarrow> view (dev s') c = view (dev s) c) \<and>
    \<not> is_open s' fd \<and> (\<forall>fd'. fd' \<noteq> fd \<longrightarrow> the_file s' fd' = the_file s fd')"
proof -
  let ?de = "dirent_bytes (fileinfo_dirent (plat_junk P 12) f)" and ?o = "32 * unat (f_entry_number f)"
  let ?new = "splice (view (dev s) (f_entry_sector f)) ?o ?de"
  have wff: "wf_file f" and len: "fd < length (file_num s)"
    using wf fd by (simp_all add: wf_state_file wf_state_files f_def)
  have de: "length ?de = 32" using wff by (intro length_dirent_bytes) (simp_all add: fileinfo_fields wf_file_def)
  have off: "?o + 32 \<le> 512" using wff by (simp add: wf_file_def word_less_nat_alt)
  obtain s1 where s1: "fat_flush_fileinfo P (Suc n) fd s = Some (0, s1)"
    "dev s1 = fst (blk_write P (dev s) (f_entry_sector f) ?new)" "length ?new = 512"
    "entry_on_disk ?new ?o f" "\<forall>fd'. fd' \<noteq> fd \<longrightarrow> the_file s1 fd' = the_file s fd'"
    "length (file_num s1) = length (file_num s)"
    using flush_fileinfo_ok [OF wf fd, of n] clean E b cluster by (auto simp: f_def)
  let ?s' = "upd_file fd (\<lambda>g. g\<lparr>f_flags := 0\<rparr>) s1"
  have "fat_close P (Suc n) fd s = Some ((0, 0), ?s')"
    using opened fs clean fd s1(1) by (simp add: fat_close_def bad_fd_def f_def del: fat_flush_fileinfo.simps)
  moreover have "ok (dev s) c \<Longrightarrow> view (dev ?s') c = (if c = f_entry_sector f then ?new else view (dev s) c)" for c
    using write_view [OF E(2) s1(3)] by (simp add: s1(2))
  moreover have "?new ! i = view (dev s) (f_entry_sector f) ! i" if "i < 512" "i < ?o \<or> ?o + 32 \<le> i" for i
    using that de off by (intro nth_splice_out) simp_all
  moreover have "\<not> is_open ?s' fd" using len s1(6) by (simp add: is_open_def)
  ultimately show ?thesis using s1(4,5) E(2) by (intro exI [of _ ?s']) simp
qed

end

section \<open>Closing stores the entry\<close>

text \<open>
  C10: Closing a file whose directory entry is out of date writes the entry: in the block of the entry the
  32 bytes at the file's slot hold its name, attributes, times, first cluster and size, at the places
  the format has for them, and the other bytes of the block keep what they held. Unsaved data goes to
  the file's sector first; no other block of the disk changes, the descriptor is closed, and the other
  descriptors stay as they are. (The file has an entry and a first cluster other than the root
  directory's; without them \<open>fat_flush_fileinfo\<close> writes elsewhere or nothing.)
\<close>

theorem fat_close_stores_entry:
  assumes "wf_state s" and "fd < MAX_OPEN_FILES" and "f = the_file s fd" and "off = 32 * unat (f_entry_number f)"
    and "has (f_flags f) FAT_FLAG_OPEN" and "has (f_flags f) FAT_FLAG_FS_DIRTY"
    and "f_entry_sector f \<noteq> 0" and "pc_ok (dev s) (f_entry_sector f)" and "pc_ok (dev s) (f_sector f)"
    and "f_full_first_cluster f \<noteq> 0" and "f_full_first_cluster f \<noteq> root_cluster (fatfs s)"
    and "has (f_flags f) FAT_FLAG_DIRTY \<longrightarrow> f_sector f \<noteq> 0 \<and> f_sector f \<noteq> f_entry_sector f"
  shows "\<exists>s'. fat_close (pc_platform clk junk) (Suc n) fd s = Some ((0, 0), s') \<and>
    entry_on_disk (pc_view (dev s') (f_entry_sector f)) off f \<and>
    (\<forall>i<512. i < off \<or> off + 32 \<le> i \<longrightarrow>
      pc_view (dev s') (f_entry_sector f) ! i = pc_view (dev s) (f_entry_sector f) ! i) \<and>
    (\<forall>b. pc_ok (dev s) b \<longrightarrow> b \<noteq> f_entry_sector f \<longrightarrow>
      pc_view (dev s') b =
        (if has (f_flags f) FAT_FLAG_DIRTY \<and> b = f_sector f then f_buffer f else pc_view (dev s) b)) \<and>
    \<not> is_open s' fd \<and> (\<forall>fd'. fd' \<noteq> fd \<longrightarrow> the_file s' fd' = the_file s fd')"
proof (cases "has (f_flags f) FAT_FLAG_DIRTY")
  case False
  then show ?thesis
    using pc.close_clean_stores [OF assms(1,2), of clk junk n] assms(3-) by simp
next
  case True
  let ?P = "pc_platform clk junk"
  let ?s1 = "upd_file fd (clear_flags FAT_FLAG_DIRTY) (s\<lparr>dev := fst (blk_write ?P (dev s) (f_sector f) (f_buffer f))\<rparr>)"
  have apart: "f_sector f \<noteq> 0" "f_sector f \<noteq> f_entry_sector f" using True assms(12) by auto
  note w = pc.flush_saves [OF assms(1-3) apart(1) True assms(9) refl [of ?s1]]
  have flags: "has (f_flags f AND NOT 16) 1 = has (f_flags f) 1" "has (f_flags f AND NOT 16) 32 = has (f_flags f) 32"
    "\<not> has (f_flags f AND NOT 16) 16"
    by (rule has_and_not_disjoint, simp)+ (rule has_simps(1))
  have close: "fat_close ?P (Suc n) fd s = fat_close ?P (Suc n) fd ?s1"
    using True assms(2,5) w(1) [of "Suc n"] w(3) flags
    by (simp add: fat_close_def bad_fd_def flip: assms(3) del: fat_flush_fileinfo.simps)
  have others: "fd' \<noteq> fd \<Longrightarrow> the_file ?s1 fd' = the_file s fd'" for fd' by simp
  have "entry_on_disk buf o' (clear_flags FAT_FLAG_DIRTY f) = entry_on_disk buf o' f" for buf o'
    by (simp add: entry_on_disk_def)
  then show ?thesis
    using pc.close_clean_stores [OF w(2) assms(2), of clk junk n] assms(4-11) apart True w(4,5) flags others
    unfolding close w(3) by simp
qed

text \<open>The demonstration file after a write: a full sector not saved yet, and one byte more.\<close>

definition demo_written :: FileS where
  "demo_written = demo_file\<lparr>f_flags := 0x37, f_buffer := replicate 512 0x7A, f_size := 601\<rparr>"

lemma demo_written_simps [simp]:
  "f_flags demo_written = 0x37" "f_buffer demo_written = replicate 512 0x7A" "f_size demo_written = 601"
  "f_sector demo_written = 3" "f_entry_sector demo_written = 2" "f_entry_number demo_written = 0"
  "f_full_first_cluster demo_written = 2" "f_extension demo_written = [0x54, 0x58, 0x54]" "wf_file demo_written"
  by (simp_all add: demo_written_def demo_file_def closed_file_def wf_file_def demo_entry_def)

lemma fat_close_stores_entry_witness:
  "\<exists>s'. fat_close (pc_platform (\<lambda>_. 0) (\<lambda>_. 0)) 1 0 (demo_open\<lparr>file_num := demo_written # replicate 3 closed_file\<rparr>) =
      Some ((0, 0), s') \<and>
    le_number (pc_view (dev s') 2) 28 4 = 601 \<and> slice 8 3 (pc_view (dev s') 2) = [0x54, 0x58, 0x54] \<and>
    pc_view (dev s') 3 = replicate 512 0x7A"
proof -
  let ?s = "demo_open\<lparr>file_num := demo_written # replicate 3 closed_file\<rparr>"
  have wf: "wf_state ?s"
    using demo_wf(2) closed_file_wf
    by (simp add: wf_state_def demo_open_def list_all_length nth_Cons')
  have here: "demo_written = the_file ?s 0" by (simp add: the_file_def)
  have state: "dev ?s = demo_dev" "fatfs ?s = demo_volume" by (simp_all add: demo_open_def demo_state_def)
  obtain s' where s': "fat_close (pc_platform (\<lambda>_. 0) (\<lambda>_. 0)) (Suc 0) 0 ?s = Some ((0, 0), s')"
    "entry_on_disk (pc_view (dev s') 2) 0 demo_written"
    "\<forall>b. pc_ok demo_dev b \<longrightarrow> b \<noteq> 2 \<longrightarrow> pc_view (dev s') b = (if b = 3 then replicate 512 0x7A else pc_view demo_dev b)"
    using fat_close_stores_entry [OF wf _ here refl, of "\<lambda>_. 0" "\<lambda>_. 0" 0]
    by (auto simp: state demo_ok has_def demo_volume_def cong: if_cong)
  then show ?thesis by (auto simp: entry_on_disk_def demo_ok)
qed

end
