(* ===== verification/Fat_Open.thy ===== *)
theory Fat_Open
  imports Fat_Entry
begin

text \<open>
  Opening a file and reading it, from the bytes of the root directory to the bytes of the file: the
  search of \<open>fat_lookup_path\<close> through a block of a directory, the file structure it sets up, and the
  read that follows.
\<close>

section \<open>Finding an entry in a block\<close>

text \<open>
  Entry \<open>i\<close> of a block is the first with the eleven bytes \<open>name\<close>, and no entry before it is unused.
\<close>

definition first_entry :: "sector \<Rightarrow> byte list \<Rightarrow> nat \<Rightarrow> bool" where
  "first_entry buf name i \<longleftrightarrow>
    i < 16 \<and> slice (32 * i) 11 buf = name \<and>
    (\<forall>j<i. buf ! (32 * j) \<noteq> 0 \<and> slice (32 * j) 11 buf \<noteq> name)"

lemma strncmp_eq_take:
  "\<forall>c\<in>set name. c \<noteq> 0 \<Longrightarrow> length name \<le> length b \<Longrightarrow>
    strncmp_eq (length name) (name @ rest) b \<longleftrightarrow> take (length name) b = name"
proof (induction name arbitrary: b)
  case Nil
  then show ?case by simp
next
  case (Cons a name)
  then show ?case by (cases b) auto
qed

lemma scan_block_first:
  assumes "first_entry buf name i" and "length buf = 512" and "length name = 11" and "\<forall>c\<in>set name. c \<noteq> 0"
    and "k \<le> i"
  shows "scan_block (name @ rest) buf [k..<16] = Scan_hit i"
  using assms(5)
proof (induction "i - k" arbitrary: k)
  have cmp: "strncmp_eq 11 (name @ rest) (drop (j * 32) buf) \<longleftrightarrow> slice (32 * j) 11 buf = name" if "j < 16" for j
    using strncmp_eq_take [of name "drop (j * 32) buf" rest] assms(2-4) that by (simp add: slice_def mult.commute)
  have i: "i < 16" "slice (32 * i) 11 buf = name" using assms(1) by (simp_all add: first_entry_def)
  case 0
  then have "k = i" by simp
  moreover have "buf ! (i * 32) \<noteq> 0"
  proof -
    have "name ! 0 = buf ! (32 * i)" using i assms(2) by (auto simp: nth_slice)
    then show ?thesis using assms(3,4) by (metis mult.commute nth_mem zero_less_numeral)
  qed
  ultimately show ?case using i cmp by (simp add: upt_conv_Cons)
next
  have cmp: "strncmp_eq 11 (name @ rest) (drop (j * 32) buf) \<longleftrightarrow> slice (32 * j) 11 buf = name" if "j < 16" for j
    using strncmp_eq_take [of name "drop (j * 32) buf" rest] assms(2-4) that by (simp add: slice_def mult.commute)
  case (Suc m)
  then have "k < i" "i < 16" using assms(1) by (simp_all add: first_entry_def)
  moreover from this have "buf ! (k * 32) \<noteq> 0" "slice (32 * k) 11 buf \<noteq> name"
    using assms(1) by (simp_all add: first_entry_def mult.commute)
  moreover have "scan_block (name @ rest) buf [Suc k..<16] = Scan_hit i"
    using Suc by (intro Suc.hyps(1)) simp_all
  ultimately show ?case using cmp [of k] by (simp add: upt_conv_Cons)
qed

text \<open>The first cluster that the entry at an offset of a block names.\<close>

definition entry_cluster :: "byte \<Rightarrow> sector \<Rightarrow> nat \<Rightarrow> nat" where
  "entry_cluster type buf off =
    le_number buf (off + 26) 2 + (if type = PART_TYPE_FAT16 then 0 else 65536 * le_number buf (off + 20) 2)"

lemma unat_halves: "unat (ucast a + push_bit 16 (ucast b) :: u32) = unat a + 65536 * unat b" for a b :: u16
proof -
  have "unat a < 2 ^ 16" "unat b < 2 ^ 16" using unsigned_less [of a] unsigned_less [of b] by simp_all
  then show ?thesis
    by (simp add: unat_word_ariths unsigned_push_bit_eq unsigned_ucast_eq take_bit_nat_eq_self push_bit_nat_def)
qed

lemma entry_at_numbers:
  assumes "length buf = 512" and "i < 16"
  shows "unat (dirent_cluster v (entry_at buf i)) = entry_cluster (fs_type v) buf (32 * i)"
    and "unat (de_size (entry_at buf i)) = le_number buf (32 * i + 28) 4"
    and "de_attributes (entry_at buf i) = buf ! (32 * i + 11)"
proof -
  have off: "32 * i + 32 \<le> length buf" using assms by simp
  have num: "le_number (slice (32 * i) 32 buf) k n = le_number buf (32 * i + k) n" if "k + n \<le> 32" for k n
    using le_number_slice [OF that off] by simp
  show "unat (dirent_cluster v (entry_at buf i)) = entry_cluster (fs_type v) buf (32 * i)"
    by (simp add: dirent_cluster_def entry_at_def dirent_of_def entry_cluster_def unat_halves unat_get16
        mult.commute [of i] num unsigned_ucast_eq take_bit_nat_eq_self)
  show "unat (de_size (entry_at buf i)) = le_number buf (32 * i + 28) 4"
    by (simp add: entry_at_def dirent_of_def unat_get32 mult.commute [of i] num)
  show "de_attributes (entry_at buf i) = buf ! (32 * i + 11)"
    using off by (simp add: entry_at_def dirent_of_def nth_slice mult.commute [of i])
qed

section \<open>Opening\<close>

text \<open>The first block of the directory or file with a first cluster, where 1 is the fixed root directory.\<close>

definition first_block :: "fat_info \<Rightarrow> u32 \<Rightarrow> blockno" where
  "first_block v c = (if c = 1 then root_start v else cluster_sector v c)"

definition select_file :: "fat_info \<Rightarrow> (blockno \<Rightarrow> sector) \<Rightarrow> u32 \<Rightarrow> FileS \<Rightarrow> FileS" where
  "select_file v blocks c f =
    f\<lparr>f_sector := first_block v c,
      f_sectors_left := (if c = 1 then ucast (root_len v) else sectors_per_cluster v - 1),
      f_cluster := c, f_cursor := 0, f_buffer := blocks (first_block v c)\<rparr>"

lemma split_slash_none: "SLASH \<notin> set e \<Longrightarrow> split_slash e = [e]"
  by (induction e) auto

lemma path_of_root_file: "e \<noteq> [] \<Longrightarrow> SLASH \<notin> set e \<Longrightarrow> path_elements (SLASH # e) = [e]"
  by (simp add: path_elements_def tokens_def split_slash_none)

lemma find_free:
  "\<not> is_open s fd \<Longrightarrow> \<forall>j<fd. is_open s j \<Longrightarrow> fd < n \<Longrightarrow>
    find (\<lambda>j. \<not> has (f_flags (the_file s j)) FAT_FLAG_OPEN) [0..<n] = Some fd"
  by (simp add: find_Some_iff is_open_def) (intro exI [of _ fd], simp)

text \<open>The eleven bytes of the entry of a plain name.\<close>

definition stored_name :: "byte list \<Rightarrow> byte list \<Rightarrow> byte list" where
  "stored_name base ext =
    map upcase base @ replicate (8 - length base) SPACE @ map upcase ext @ replicate (3 - length ext) SPACE"

lemma stored_name_props:
  assumes "length base \<le> 8" "\<forall>c\<in>set base. plain_char c" "length ext \<le> 3" "\<forall>c\<in>set ext. plain_char c"
  shows "length (stored_name base ext) = 11" and "\<forall>c\<in>set (stored_name base ext). c \<noteq> 0"
  using assms plain_char_upcase(1) by (auto simp: stored_name_def)

lemma name83_props:
  assumes "base \<noteq> []" "\<forall>c\<in>set base. plain_char c" "\<forall>c\<in>set ext. plain_char c"
  shows "name83 base ext \<noteq> []" and "SLASH \<notin> set (name83 base ext)"
    and "length (name83 base ext) \<le> length base + length ext + 1"
proof -
  have "\<not> plain_char SLASH" by (simp add: plain_char_unat)
  then show "name83 base ext \<noteq> []" and "SLASH \<notin> set (name83 base ext)"
    and "length (name83 base ext) \<le> length base + length ext + 1"
    using assms by (auto simp: name83_def)
qed

context block_device
begin

lemma select_ok:
  assumes "fd < length (file_num s)" and "ok (dev s) (first_block (fatfs s) c)"
  shows "snd (fat_select_cluster P fd c s) = upd_file fd (select_file (fatfs s) (view (dev s)) c) s"
  using assms
  by (auto simp: fat_select_cluster_def Let_def file_read_ok first_block_def select_file_def [abs_def] comp_def)

text \<open>The lookup of a plain name in the first block of the root directory.\<close>

lemma lookup_root_file:
  assumes "base \<noteq> []" "length base \<le> 8" "\<forall>c\<in>set base. plain_char c"
    and "length ext \<le> 3" "\<forall>c\<in>set ext. plain_char c" and "2 \<le> length base \<or> ext = []"
    and fd: "fd < length (file_num s)"
    and R: "R = first_block (fatfs s) (root_cluster (fatfs s))" "ok (dev s) R"
    and hit: "first_entry (view (dev s) R) (stored_name base ext) i"
    and de: "de = entry_at (view (dev s) R) i"
    and c: "dirent_cluster (fatfs s) de \<noteq> 0" "ok (dev s) (first_block (fatfs s) (dirent_cluster (fatfs s) de))"
  shows "\<exists>g. fat_lookup_path P (Suc n) fd (SLASH # name83 base ext) e s = Some ((0, e), upd_file fd g s) \<and>
    (\<forall>f. \<exists>f0. f_sector f0 = R \<and>
      g f = select_file (fatfs s) (view (dev s)) (dirent_cluster (fatfs s) de) (open_entry (fatfs s) i de f0))"
proof -
  let ?v = "fatfs s" and ?b = "view (dev s)"
  let ?root = "\<lambda>f. (select_file ?v ?b (root_cluster ?v) f)\<lparr>f_parent_cluster := root_cluster ?v\<rparr>"
  let ?g = "\<lambda>f. select_file ?v ?b (dirent_cluster ?v de) (open_entry ?v i de (?root f))"
  define d1 d2 where junk: "d1 = map (plat_junk P) [12..<24]" "d2 = map (plat_junk P) [24..<37]"
  then have "length d1 = 12" "length d2 = 13" by simp_all
  from element_name83 [OF assms(1-5) this] obtain d2' where
    dn: "element_dos_name (name83 base ext) d1 d2 = Some (stored_name base ext @ [0], d2')"
    using assms(6)
    by (auto simp: base_field_def stored_name_def)
  note names = stored_name_props [OF assms(2-5)] and path = name83_props [OF assms(1,3,5)]
  have scan: "scan_block (stored_name base ext @ [0]) (?b R) [0..<16] = Scan_hit i"
    using scan_block_first [OF hit _ names, of 0] by simp
  have elements: "path_elements (SLASH # name83 base ext) = [name83 base ext]"
    using path by (intro path_of_root_file)
  let ?s2 = "upd_file fd ?root s"
  have buf: "f_buffer (the_file ?s2 fd) = ?b R" using fd R(1) by (simp add: select_file_def)
  have scanned: "lookup_scan P (Suc n) (Suc n) fd (stored_name base ext @ [0]) ?s2 = Some (Some i, ?s2)"
    unfolding lookup_scan.simps buf scan by simp
  have de': "entry_at (f_buffer (select_file ?v ?b (root_cluster ?v) (the_file s fd))) i = de"
    using de R(1) by (simp add: select_file_def)
  have "fat_lookup_path P (Suc n) fd (SLASH # name83 base ext) e s =
      lookup_elements P (Suc n) fd [name83 base ext] d1 d2 e ?s2"
    using path(3) assms(2,4) R fd
    by (simp add: fat_lookup_path_def elements select_ok Let_def comp_def flip: junk
        del: lookup_elements.simps upt_rec_numeral)
  also have "\<dots> = Some ((0, e), upd_file fd ?g s)"
    using fd c
    by (simp add: dn scanned Let_def buf de' open_entry_def or_root_def select_ok comp_def del: lookup_scan.simps)
  finally show ?thesis
    by (intro exI [of _ ?g] conjI allI exI [of _ "?root _"]) (simp_all add: select_file_def R(1))
qed

lemma open_root_file:
  assumes "base \<noteq> []" "length base \<le> 8" "\<forall>c\<in>set base. plain_char c"
    and "length ext \<le> 3" "\<forall>c\<in>set ext. plain_char c" and "2 \<le> length base \<or> ext = []"
    and len: "length (file_num s) = MAX_OPEN_FILES"
    and free: "fd < MAX_OPEN_FILES" "\<not> is_open s fd" "\<forall>j<fd. is_open s j"
    and R: "R = first_block (fatfs s) (root_cluster (fatfs s))" "ok (dev s) R"
    and hit: "first_entry (view (dev s) R) (stored_name base ext) i"
    and de: "de = entry_at (view (dev s) R) i"
    and c: "dirent_cluster (fatfs s) de \<noteq> 0" "ok (dev s) (first_block (fatfs s) (dirent_cluster (fatfs s) de))"
  shows "\<exists>f. fat_open P (Suc n) (SLASH # name83 base ext) O_RDONLY mode e s = Some ((int fd, e), upd_file fd (\<lambda>_. f) s) \<and>
    f_flags f = FAT_FLAG_OPEN OR FAT_FLAG_READ \<and> f_file_sector f = 0 \<and> f_cursor f = 0 \<and>
    f_cluster f = dirent_cluster (fatfs s) de \<and> f_sector f = first_block (fatfs s) (f_cluster f) \<and>
    f_buffer f = view (dev s) (f_sector f) \<and> f_size f = de_size de \<and> f_attributes f = de_attributes de \<and>
    (f_cluster f \<noteq> 1 \<longrightarrow> f_sectors_left f = sectors_per_cluster (fatfs s) - 1)"
proof -
  let ?s0 = "upd_file fd (\<lambda>f. f\<lparr>f_flags := FAT_FLAG_OPEN\<rparr>) s"
  have next_file: "fat_get_next_file s = (int fd, ?s0)"
    using find_free [OF free(2,3,1)] by (simp add: fat_get_next_file_def)
  obtain g where g: "fat_lookup_path P (Suc n) fd (SLASH # name83 base ext) e ?s0 = Some ((0, e), upd_file fd g ?s0)"
    "\<forall>f. \<exists>f0. f_sector f0 = R \<and>
      g f = select_file (fatfs s) (view (dev s)) (dirent_cluster (fatfs s) de) (open_entry (fatfs s) i de f0)"
    using lookup_root_file [OF assms(1-6), of fd ?s0 R i de n e] len free(1) R hit de c by auto
  let ?f = "(g ((the_file s fd)\<lparr>f_flags := FAT_FLAG_OPEN\<rparr>))\<lparr>f_flags := FAT_FLAG_OPEN OR FAT_FLAG_READ, f_file_sector := 0\<rparr>"
  obtain f0 where f: "g ((the_file s fd)\<lparr>f_flags := FAT_FLAG_OPEN\<rparr>) =
      select_file (fatfs s) (view (dev s)) (dirent_cluster (fatfs s) de) (open_entry (fatfs s) i de f0)"
    using g(2) by blast
  have "fat_open P (Suc n) (SLASH # name83 base ext) O_RDONLY mode e s = Some ((int fd, e),
      upd_file fd (\<lambda>f. f\<lparr>f_file_sector := 0\<rparr>)
        (upd_file fd (\<lambda>f. f\<lparr>f_flags := open_flags O_RDONLY (f_flags f)\<rparr>) (upd_file fd g ?s0)))"
    by (simp add: fat_open_def next_file g(1) open_existing_def has_def del: upd_file_twice)
  also have "upd_file fd (\<lambda>f. f\<lparr>f_file_sector := 0\<rparr>)
        (upd_file fd (\<lambda>f. f\<lparr>f_flags := open_flags O_RDONLY (f_flags f)\<rparr>) (upd_file fd g ?s0)) = upd_file fd (\<lambda>_. ?f) s"
    using len free(1)
    by (simp, intro upd_file_cong) (simp add: f select_file_def open_entry_def open_flags_def has_def)
  finally show ?thesis
    by (intro exI [of _ ?f]) (simp add: f select_file_def open_entry_def)
qed

end

section \<open>Opening and reading\<close>

text \<open>
  C37: Opening a file of the root directory by its plain 8.3 name, for reading, and reading it delivers the
  file: the bytes of the cluster chain that its directory entry names, up to the size in the entry, as
  many as were asked for. The call takes the first free descriptor and leaves the disk and the other
  descriptors as they are. (The entry is the first with this name, in the first block of the directory,
  and the name is not one letter with an extension, for which the driver searches with a byte nobody
  wrote.)
\<close>

theorem open_read_delivers:
  assumes "wf_state s" and "fd < MAX_OPEN_FILES" "\<not> is_open s fd" "\<forall>j<fd. is_open s j"
    and "base \<noteq> []" "length base \<le> 8" "\<forall>c\<in>set base. plain_char c"
    and "length ext \<le> 3" "\<forall>c\<in>set ext. plain_char c" and "2 \<le> length base \<or> ext = []"
    and "R = first_block (fatfs s) (root_cluster (fatfs s))" and "pc_ok (dev s) R" and "buf = pc_view (dev s) R"
    and "first_entry buf (stored_name base ext) i" and "\<not> has (buf ! (32 * i + 11)) FAT_ATT_SUBDIR"
    and "chain_on_disk pc_ok pc_view s cs" and "entry_cluster (fs_type (fatfs s)) buf (32 * i) = hd cs"
    and "le_number buf (32 * i + 28) 4 \<le> 512 * chain_sectors (fatfs s) cs"
    and "512 * chain_sectors (fatfs s) cs < 2 ^ 32" and "unat count < 2 ^ 31"
  shows "let bytes = take (unat count)
      (take (le_number buf (32 * i + 28) 4) (chain_bytes (fatfs s) (pc_view (dev s)) cs)) in
    \<exists>s1 s2. fat_open (pc_platform clk junk) (Suc n) (SLASH # name83 base ext) O_RDONLY mode e s = Some ((int fd, e), s1) \<and>
      dev s1 = dev s \<and> (\<forall>fd'. fd' \<noteq> fd \<longrightarrow> the_file s1 fd' = the_file s fd') \<and>
      fat_read (pc_platform clk junk) m fd count s1 = Some ((int (length bytes), 0, bytes), s2) \<and> dev s2 = dev s"
proof -
  let ?P = "pc_platform clk junk" and ?v = "fatfs s" and ?de = "entry_at buf i"
  have i: "i < 16" and buf: "length buf = 512"
    using assms(13,14) by (simp_all add: first_entry_def pc.length_view)
  note num = entry_at_numbers [OF buf i]
  have cs: "cs \<noteq> []" "2 \<le> hd cs" and reg: "regular_fat ?v"
    using assms(16) by (cases cs; auto simp: chain_on_disk_def)+
  have spc: "0 < sectors_in_cluster ?v" using reg sectors_in_cluster_pos by (auto simp: regular_fat_def)
  have first: "0 < chain_sectors ?v cs" "chain_sector ?v cs 0 = cluster_sector ?v (of_nat (hd cs))"
    using cs spc by (simp_all add: chain_sectors_def chain_sector_def hd_conv_nth)
  have unat: "unat (dirent_cluster ?v ?de) = hd cs" using num(1) assms(17) by simp
  then have cluster: "dirent_cluster ?v ?de = of_nat (hd cs)" by (simp flip: unat)
  have "dirent_cluster ?v ?de \<noteq> 0 \<and> dirent_cluster ?v ?de \<noteq> 1" using unat cs(2) by auto
  moreover from this have block: "first_block ?v (dirent_cluster ?v ?de) = chain_sector ?v cs 0"
    by (simp add: first_block_def first(2) cluster)
  moreover have "pc_ok (dev s) (chain_sector ?v cs 0)" using assms(16) first(1) by (simp add: chain_on_disk_def)
  ultimately obtain f where f: "fat_open ?P (Suc n) (SLASH # name83 base ext) O_RDONLY mode e s = Some ((int fd, e), upd_file fd (\<lambda>_. f) s)"
    "f_flags f = FAT_FLAG_OPEN OR FAT_FLAG_READ" "f_file_sector f = 0" "f_cursor f = 0"
    "f_cluster f = dirent_cluster ?v ?de" "f_sector f = chain_sector ?v cs 0"
    "f_buffer f = pc_view (dev s) (f_sector f)" "f_size f = de_size ?de" "f_attributes f = de_attributes ?de"
    "f_sectors_left f = sectors_per_cluster ?v - 1"
    using pc.open_root_file [OF assms(5-10) wf_state_files [OF assms(1)] assms(2-4,11,12), of i ?de clk junk n mode e]
      assms(13,14) by auto
  let ?s1 = "upd_file fd (\<lambda>_. f) s"
  have len: "fd < length (file_num s)" using assms(1,2) by (simp add: wf_state_files)
  have "unat (sectors_per_cluster ?v - 1) = sectors_in_cluster ?v - 1"
    using spc by (simp add: sectors_in_cluster_def unat_sub word_le_nat_alt)
  then have "on_sector ?v (pc_view (dev s)) cs 0 f"
    using f first(1) cluster cs(1) by (simp add: on_sector_def hd_conv_nth has_def)
  then have reading: "reading_at ?v (pc_view (dev s)) cs 0 f"
    using f(4) by (auto simp: reading_at_def intro!: exI [of _ 0])
  have regular: "regular_file ?v cs f"
    using assms(15,18,19) num f(8,9) by (simp add: regular_file_def)
  have wf: "wf_state ?s1"
    using pc.fat_open_keeps [OF assms(1) f(1)] assms(1) by (auto simp: keeps_def)
  have bytes: "file_bytes pc_view ?s1 cs f = take (le_number buf (32 * i + 28) 4) (chain_bytes ?v (pc_view (dev s)) cs)"
    by (simp add: file_bytes_def f(8) num(2))
  obtain s2 where "fat_read ?P m fd count ?s1 = (let bytes = take (unat count) (file_bytes pc_view ?s1 cs f) in
      Some ((int (length bytes), 0, bytes), s2))" "dev s2 = dev s"
    using read_delivers [OF _ wf assms(2), of cs 0 count clk junk m] assms(16,20) reading regular len
    by (auto simp: Let_def f(2) has_def)
  then show ?thesis using f(1) by (auto simp: Let_def bytes)
qed

text \<open>The demonstration file, opened as \<open>/a1.txt\<close>.\<close>

lemma demo_root_entry:
  "slice 0 11 (pc_view demo_dev 2) = take 11 demo_entry" "k < 32 \<Longrightarrow> pc_view demo_dev 2 ! k = demo_entry ! k"
proof -
  show byte: "k < 32 \<Longrightarrow> pc_view demo_dev 2 ! k = demo_entry ! k" for k
    by (simp add: demo_view demo_memory_def)
  show "slice 0 11 (pc_view demo_dev 2) = take 11 demo_entry"
    by (rule nth_equalityI) (simp_all add: nth_slice byte pc.length_view, simp add: demo_entry_def)
qed

lemma demo_chain_closed: "chain_on_disk pc_ok pc_view demo_state [2, 3]"
  using demo_chain by (simp add: chain_on_disk_def demo_open_def fat_of_def)

lemma open_read_delivers_witness:
  "\<exists>s1 s2. fat_open (pc_platform (\<lambda>_. 0) (\<lambda>_. 0)) 1 [0x2F, 0x61, 0x31, 0x2E, 0x74, 0x78, 0x74] O_RDONLY 0 0 demo_state =
      Some ((0, 0), s1) \<and>
    fat_read (pc_platform (\<lambda>_. 0) (\<lambda>_. 0)) 1 0 1000 s1 = Some ((600, 0, replicate 600 0x61), s2)"
proof -
  have state: "dev demo_state = demo_dev" "fatfs demo_state = demo_volume" by (simp_all add: demo_state_def)
  have closed: "\<not> is_open demo_state 0" by (simp add: is_open_def demo_state_def the_file_def closed_file_def)
  have plain: "plain_char 0x31" "upcase 0x31 = 0x31" by (simp_all add: plain_char_def upcase_def)
  have root: "first_block demo_volume (root_cluster demo_volume) = 2" by (simp add: first_block_def demo_volume_def)
  have entry: "first_entry (pc_view demo_dev 2) (stored_name [0x61, 0x31] [0x74, 0x78, 0x74]) 0"
    by (simp add: first_entry_def demo_root_entry stored_name_def plain six_spaces demo_entry_def)
  have numbers: "le_number (pc_view demo_dev 2) 28 4 = 600" "entry_cluster (fs_type demo_volume) (pc_view demo_dev 2) 0 = 2"
    by (simp_all add: le_number_simps demo_root_entry entry_cluster_def) (simp_all add: demo_entry_def demo_volume_def)
  have "take 600 (chain_bytes demo_volume (pc_view demo_dev) [2, 3]) = replicate 600 0x61"
    using demo_bytes by (simp add: file_bytes_def demo_open_def state) (simp add: demo_file_def)
  moreover have "\<not> has (pc_view demo_dev 2 ! 11) FAT_ATT_SUBDIR"
    by (simp add: demo_root_entry demo_entry_def has_def)
  ultimately show ?thesis
    using open_read_delivers [OF demo_wf(1) _ closed _ _ _ _ _ _ _ refl _ refl, of "[0x61, 0x31]" "[0x74, 0x78, 0x74]" 0 "[2, 3]" 1000
        "\<lambda>_. 0" "\<lambda>_. 0" 0 0 0 1] demo_chain_closed entry
    by (auto simp: state root demo_ok plain numbers demo_blocks name83_def Let_def)
qed

end
