(* ===== verification/Ext_Types.thy ===== *)
theory Ext_Types
  imports Block_Device Fat_Types
begin

text \<open>
  The data of the ext2 driver (embext.h): the superblock, the block group descriptor and the inode
  with their packed layouts, the context of a mounted volume (\<open>struct ext2context\<close>), the open file
  (\<open>struct file_ent\<close>) and the state the operations of embext.c work on. Shifts and divisions are
  those of \<open>uint32_t\<close>; a division by zero, and an access outside a buffer, is \<open>None\<close>: C gives the
  program no meaning there.
\<close>

section \<open>Model\<close>

abbreviation (input) EXT2_ROOT_INO :: u32 where "EXT2_ROOT_INO \<equiv> 2"

abbreviation (input) EXT2_FLAG_READ :: u32 where "EXT2_FLAG_READ \<equiv> 2"
abbreviation (input) EXT2_FLAG_WRITE :: u32 where "EXT2_FLAG_WRITE \<equiv> 4"
abbreviation (input) EXT2_FLAG_APPEND :: u32 where "EXT2_FLAG_APPEND \<equiv> 8"
abbreviation (input) EXT2_FLAG_DIRTY :: u32 where "EXT2_FLAG_DIRTY \<equiv> 16"
abbreviation (input) EXT2_FLAG_FS_DIRTY :: u32 where "EXT2_FLAG_FS_DIRTY \<equiv> 32"

abbreviation (input) EXT2_S_IFDIR :: u16 where "EXT2_S_IFDIR \<equiv> 0x4000"
abbreviation (input) SPARSE_SUPER :: u32 where "SPARSE_SUPER \<equiv> 1"

abbreviation (input) ENOMEM :: int where "ENOMEM \<equiv> 12"
abbreviation (input) ENOTTY :: int where "ENOTTY \<equiv> 25"

record superblock =
  s_inodes_count :: u32
  s_blocks_count :: u32
  s_r_blocks_count :: u32
  s_free_blocks_count :: u32
  s_free_inodes_count :: u32
  s_first_data_block :: u32
  s_log_block_size :: u32
  s_log_frag_size :: u32
  s_blocks_per_group :: u32
  s_frags_per_group :: u32
  s_inodes_per_group :: u32
  s_mtime :: u32
  s_wtime :: u32
  s_mnt_count :: u16
  s_max_mnt_count :: u16
  s_magic :: u16
  s_state :: u16
  s_errors :: u16
  s_minor_rev_level :: u16
  s_lastcheck :: u32
  s_checkinterval :: u32
  s_creator_os :: u32
  s_rev_level :: u32
  s_def_resuid :: u16
  s_def_resgid :: u16
  s_first_ino :: u32
  s_inode_size :: u16
  s_block_group_nr :: u16
  s_feature_compat :: u32
  s_feature_incompat :: u32
  s_feature_ro_compat :: u32
  s_uuid :: "byte list"
  s_volume_name :: "byte list"
  s_last_mounted :: "byte list"
  s_algo_bitmap :: u32
  s_prealloc_blocks :: byte
  s_prealloc_dir_blocks :: byte
  s_alignment1 :: "byte list"
  s_journal_uuid :: "byte list"
  s_journal_inum :: u32
  s_journal_dev :: u32
  s_last_orphan :: u32
  s_hash_seed :: "u32 list"
  s_def_hash_version :: byte
  s_alignment2 :: "byte list"
  s_default_mount_options :: u32
  s_first_meta_bg :: u32

record block_group_descriptor =
  bg_block_bitmap :: u32
  bg_inode_bitmap :: u32
  bg_inode_table :: u32
  bg_free_blocks_count :: u16
  bg_free_inodes_count :: u16
  bg_used_dirs_count :: u16
  bg_pad :: u16

record inode =
  i_mode :: u16
  i_uid :: u16
  i_size :: u32
  i_atime :: u32
  i_ctime :: u32
  i_mtime :: u32
  i_dtime :: u32
  i_gid :: u16
  i_links_count :: u16
  i_blocks :: u32
  i_flags :: u32
  i_osd1 :: u32
  i_block :: "u32 list"
  i_generation :: u32
  i_file_acl :: u32
  i_dir_acl :: u32
  i_faddr :: u32
  i_osd2 :: "byte list"

text \<open>The packed layouts: 264, 20 and 128 bytes.\<close>

definition bytes32s :: "u32 list \<Rightarrow> byte list" where
  "bytes32s ws = concat (map bytes32 ws)"

definition get32s :: "byte list \<Rightarrow> nat \<Rightarrow> nat \<Rightarrow> u32 list" where
  "get32s b off n = map (\<lambda>k. get32 b (off + 4 * k)) [0..<n]"

definition superblock_bytes :: "superblock \<Rightarrow> byte list" where
  "superblock_bytes s =
    bytes32 (s_inodes_count s) @ bytes32 (s_blocks_count s) @ bytes32 (s_r_blocks_count s) @
    bytes32 (s_free_blocks_count s) @ bytes32 (s_free_inodes_count s) @
    bytes32 (s_first_data_block s) @ bytes32 (s_log_block_size s) @
    bytes32 (s_log_frag_size s) @ bytes32 (s_blocks_per_group s) @
    bytes32 (s_frags_per_group s) @ bytes32 (s_inodes_per_group s) @ bytes32 (s_mtime s) @
    bytes32 (s_wtime s) @ bytes16 (s_mnt_count s) @ bytes16 (s_max_mnt_count s) @
    bytes16 (s_magic s) @ bytes16 (s_state s) @ bytes16 (s_errors s) @
    bytes16 (s_minor_rev_level s) @ bytes32 (s_lastcheck s) @ bytes32 (s_checkinterval s) @
    bytes32 (s_creator_os s) @ bytes32 (s_rev_level s) @ bytes16 (s_def_resuid s) @
    bytes16 (s_def_resgid s) @ bytes32 (s_first_ino s) @ bytes16 (s_inode_size s) @
    bytes16 (s_block_group_nr s) @ bytes32 (s_feature_compat s) @
    bytes32 (s_feature_incompat s) @ bytes32 (s_feature_ro_compat s) @ s_uuid s @
    s_volume_name s @ s_last_mounted s @ bytes32 (s_algo_bitmap s) @ [s_prealloc_blocks s] @
    [s_prealloc_dir_blocks s] @ s_alignment1 s @ s_journal_uuid s @
    bytes32 (s_journal_inum s) @ bytes32 (s_journal_dev s) @ bytes32 (s_last_orphan s) @
    bytes32s (s_hash_seed s) @ [s_def_hash_version s] @ s_alignment2 s @
    bytes32 (s_default_mount_options s) @ bytes32 (s_first_meta_bg s)"

definition superblock_of :: "byte list \<Rightarrow> superblock" where
  "superblock_of b =
    \<lparr>s_inodes_count = get32 b 0, s_blocks_count = get32 b 4, s_r_blocks_count = get32 b 8,
     s_free_blocks_count = get32 b 12, s_free_inodes_count = get32 b 16,
     s_first_data_block = get32 b 20, s_log_block_size = get32 b 24,
     s_log_frag_size = get32 b 28, s_blocks_per_group = get32 b 32,
     s_frags_per_group = get32 b 36, s_inodes_per_group = get32 b 40, s_mtime = get32 b 44,
     s_wtime = get32 b 48, s_mnt_count = get16 b 52, s_max_mnt_count = get16 b 54,
     s_magic = get16 b 56, s_state = get16 b 58, s_errors = get16 b 60,
     s_minor_rev_level = get16 b 62, s_lastcheck = get32 b 64, s_checkinterval = get32 b 68,
     s_creator_os = get32 b 72, s_rev_level = get32 b 76, s_def_resuid = get16 b 80,
     s_def_resgid = get16 b 82, s_first_ino = get32 b 84, s_inode_size = get16 b 88,
     s_block_group_nr = get16 b 90, s_feature_compat = get32 b 92,
     s_feature_incompat = get32 b 96, s_feature_ro_compat = get32 b 100,
     s_uuid = slice 104 16 b, s_volume_name = slice 120 16 b, s_last_mounted = slice 136 64 b,
     s_algo_bitmap = get32 b 200, s_prealloc_blocks = b ! 204, s_prealloc_dir_blocks = b ! 205,
     s_alignment1 = slice 206 2 b, s_journal_uuid = slice 208 16 b,
     s_journal_inum = get32 b 224, s_journal_dev = get32 b 228, s_last_orphan = get32 b 232,
     s_hash_seed = get32s b 236 4, s_def_hash_version = b ! 252, s_alignment2 = slice 253 3 b,
     s_default_mount_options = get32 b 256, s_first_meta_bg = get32 b 260\<rparr>"

definition bg_bytes :: "block_group_descriptor \<Rightarrow> byte list" where
  "bg_bytes g =
    bytes32 (bg_block_bitmap g) @ bytes32 (bg_inode_bitmap g) @ bytes32 (bg_inode_table g) @
    bytes16 (bg_free_blocks_count g) @ bytes16 (bg_free_inodes_count g) @
    bytes16 (bg_used_dirs_count g) @ bytes16 (bg_pad g)"

definition bg_of :: "byte list \<Rightarrow> block_group_descriptor" where
  "bg_of b =
    \<lparr>bg_block_bitmap = get32 b 0, bg_inode_bitmap = get32 b 4, bg_inode_table = get32 b 8,
     bg_free_blocks_count = get16 b 12, bg_free_inodes_count = get16 b 14,
     bg_used_dirs_count = get16 b 16, bg_pad = get16 b 18\<rparr>"

definition inode_bytes :: "inode \<Rightarrow> byte list" where
  "inode_bytes i =
    bytes16 (i_mode i) @ bytes16 (i_uid i) @ bytes32 (i_size i) @ bytes32 (i_atime i) @
    bytes32 (i_ctime i) @ bytes32 (i_mtime i) @ bytes32 (i_dtime i) @ bytes16 (i_gid i) @
    bytes16 (i_links_count i) @ bytes32 (i_blocks i) @ bytes32 (i_flags i) @
    bytes32 (i_osd1 i) @ bytes32s (i_block i) @ bytes32 (i_generation i) @
    bytes32 (i_file_acl i) @ bytes32 (i_dir_acl i) @ bytes32 (i_faddr i) @ i_osd2 i"

definition inode_of :: "byte list \<Rightarrow> inode" where
  "inode_of b =
    \<lparr>i_mode = get16 b 0, i_uid = get16 b 2, i_size = get32 b 4, i_atime = get32 b 8,
     i_ctime = get32 b 12, i_mtime = get32 b 16, i_dtime = get32 b 20, i_gid = get16 b 24,
     i_links_count = get16 b 26, i_blocks = get32 b 28, i_flags = get32 b 32,
     i_osd1 = get32 b 36, i_block = get32s b 40 15, i_generation = get32 b 100,
     i_file_acl = get32 b 104, i_dir_acl = get32 b 108, i_faddr = get32 b 112,
     i_osd2 = slice 116 12 b\<rparr>"

text \<open>A mounted volume, an open file, and what \<open>ext2_readdir\<close> returns (\<open>struct dirent\<close> of dirent.h).\<close>

record ext2context =
  x_part_start :: blockno
  x_superblock :: superblock
  x_sparse :: u32
  x_sysbuf :: sector
  x_superblock_block :: u32
  x_read_only :: u32
  x_num_blockgroups :: u32
  x_num_superblocks :: u32
  x_superblock_blocks :: "u32 list"

record file_ent =
  e_flags :: u32
  e_cursor :: u32
  e_inode_number :: u32
  e_sector :: u32
  e_file_sector :: u32
  e_sectors_left :: u32
  e_block_index :: "u32 list"
  e_buffer :: sector
  e_inode :: inode

record dirent =
  d_ino :: "byte list"
  d_name :: "byte list"

text \<open>
  The state of the driver: the device, the context every \<open>struct file_ent\<close> points to, the static
  \<open>struct dirent\<close> of \<open>ext2_readdir\<close> and how often the clock has been read. An open file is a value
  the operations take and return; \<open>None\<close> in its place is a \<open>NULL\<close> pointer.
\<close>

record 'd estate =
  x_dev :: 'd
  x_context :: ext2context
  x_dirent :: dirent
  x_ticks :: nat

definition shl32 :: "u32 \<Rightarrow> u32 \<Rightarrow> u32" where
  "shl32 x n = push_bit (unat n) x"

definition div32 :: "u32 \<Rightarrow> u32 \<Rightarrow> u32 option" where
  "div32 x y = (if y = 0 then None else Some (x div y))"

definition mod32 :: "u32 \<Rightarrow> u32 \<Rightarrow> u32 option" where
  "mod32 x y = (if y = 0 then None else Some (x mod y))"

text \<open>\<open>memcpy(dst, &buf[off], n)\<close> and \<open>memcpy(&buf[off], src, n)\<close> on a buffer, checked.\<close>

definition copy_from :: "byte list \<Rightarrow> nat \<Rightarrow> nat \<Rightarrow> byte list option" where
  "copy_from buf off n = (if off + n \<le> length buf then Some (slice off n buf) else None)"

definition copy_to :: "byte list \<Rightarrow> nat \<Rightarrow> byte list \<Rightarrow> byte list option" where
  "copy_to buf off src = (if off + length src \<le> length buf then Some (splice buf off src) else None)"

text \<open>\<open>x << (s_log_block_size + 1)\<close>: the disk block a file system block starts at.\<close>

definition to_lba :: "superblock \<Rightarrow> u32 \<Rightarrow> u32" where
  "to_lba sb b = shl32 b (s_log_block_size sb + 1)"

definition upd_ctx :: "(ext2context \<Rightarrow> ext2context) \<Rightarrow> 'd estate \<Rightarrow> 'd estate" where
  "upd_ctx g s = s\<lparr>x_context := g (x_context s)\<rparr>"

abbreviation sb_of :: "'d estate \<Rightarrow> superblock" where
  "sb_of s \<equiv> x_superblock (x_context s)"

abbreviation part_of :: "'d estate \<Rightarrow> blockno" where
  "part_of s \<equiv> x_part_start (x_context s)"

text \<open>
  \<open>block_read(b, context->sysbuf)\<close> and \<open>block_write(b, context->sysbuf)\<close>, whose results the driver
  never looks at, and the same with the buffer of an open file.
\<close>

definition ctx_read :: "'d platform \<Rightarrow> blockno \<Rightarrow> 'd estate \<Rightarrow> 'd estate" where
  "ctx_read P b s =
    (case blk_read P (x_dev s) b (x_sysbuf (x_context s)) of
       (d, buf, rc) \<Rightarrow> upd_ctx (\<lambda>c. c\<lparr>x_sysbuf := buf\<rparr>) (s\<lparr>x_dev := d\<rparr>))"

definition ctx_write :: "'d platform \<Rightarrow> blockno \<Rightarrow> 'd estate \<Rightarrow> 'd estate" where
  "ctx_write P b s =
    (case blk_write P (x_dev s) b (x_sysbuf (x_context s)) of (d, rc) \<Rightarrow> s\<lparr>x_dev := d\<rparr>)"

definition ent_read ::
  "'d platform \<Rightarrow> blockno \<Rightarrow> file_ent \<Rightarrow> 'd estate \<Rightarrow> int \<times> file_ent \<times> 'd estate" where
  "ent_read P b fe s =
    (case blk_read P (x_dev s) b (e_buffer fe) of
       (d, buf, rc) \<Rightarrow> (rc, fe\<lparr>e_buffer := buf\<rparr>, s\<lparr>x_dev := d\<rparr>))"

definition ent_write :: "'d platform \<Rightarrow> blockno \<Rightarrow> file_ent \<Rightarrow> 'd estate \<Rightarrow> int \<times> 'd estate" where
  "ent_write P b fe s =
    (case blk_write P (x_dev s) b (e_buffer fe) of (d, rc) \<Rightarrow> (rc, s\<lparr>x_dev := d\<rparr>))"

text \<open>\<open>time(NULL)\<close>, stored in a \<open>uint32_t\<close>.\<close>

definition ext_now :: "'d platform \<Rightarrow> 'd estate \<Rightarrow> u32 \<times> 'd estate" where
  "ext_now P s = (word_of_int (plat_time P (x_ticks s)), s\<lparr>x_ticks := Suc (x_ticks s)\<rparr>)"

section \<open>The codecs\<close>

text \<open>Reading a field skips the fields before it.\<close>

lemma get32_skip: "length xs \<le> k \<Longrightarrow> get32 (xs @ ys) k = get32 ys (k - length xs)"
  by (simp add: get32_def nth_append Suc_diff_le)

lemma get16_skip: "length xs \<le> k \<Longrightarrow> get16 (xs @ ys) k = get16 ys (k - length xs)"
  by (simp add: get16_def nth_append Suc_diff_le)

lemma get32_here: "get32 (bytes32 w @ ys) 0 = w"
  by (simp add: get32_def bytes32_def le32_bytes32 numeral_2_eq_2 numeral_3_eq_3)

lemma get16_here: "get16 (bytes16 w @ ys) 0 = w"
  by (simp add: get16_def bytes16_def le16_bytes16)

lemma slice_skip: "length xs \<le> k \<Longrightarrow> slice k n (xs @ ys) = slice (k - length xs) n ys"
  by (simp add: slice_def)

lemma slice_here: "length xs = n \<Longrightarrow> slice 0 n (xs @ ys) = xs"
  by (simp add: slice_def)

lemma nth_skip: "length xs \<le> k \<Longrightarrow> (xs @ ys) ! k = ys ! (k - length xs)"
  by (simp add: nth_append)

lemma length_bytes32s [simp]: "length (bytes32s ws) = 4 * length ws"
  by (induction ws) (simp_all add: bytes32s_def)

lemma get32s_skip: "length xs \<le> k \<Longrightarrow> get32s (xs @ ys) k n = get32s ys (k - length xs) n"
  by (simp add: get32s_def get32_skip)

lemma get32s_Suc: "get32s b off (Suc n) = get32 b off # get32s b (off + 4) n"
  by (simp add: get32s_def map_upt_Suc ac_simps del: upt_Suc)

lemma get32s_here: "length ws = n \<Longrightarrow> get32s (bytes32s ws @ ys) 0 n = ws"
proof (induction ws arbitrary: n)
  case Nil
  then show ?case by (simp add: get32s_def)
next
  case (Cons w ws)
  have "bytes32s (w # ws) @ ys = bytes32 w @ bytes32s ws @ ys" by (simp add: bytes32s_def)
  then show ?case
    using Cons.prems Cons.IH [of "length ws"] by (auto simp: get32s_Suc get32_here get32s_skip)
qed

lemma skip_Cons:
  "0 < k \<Longrightarrow> slice k n (x # ys) = slice (k - 1) n ys"
  "0 < k \<Longrightarrow> get32 (x # ys) k = get32 ys (k - 1)"
  "0 < k \<Longrightarrow> get32s (x # ys) k n = get32s ys (k - 1) n"
  using slice_skip [of "[x]" k n ys] get32_skip [of "[x]" k ys] get32s_skip [of "[x]" k ys n]
  by simp_all

lemmas codec_simps = get32_skip get32_here get16_skip get16_here slice_skip slice_here nth_skip
  get32s_skip get32s_here skip_Cons

definition wf_superblock :: "superblock \<Rightarrow> bool" where
  "wf_superblock s \<longleftrightarrow>
    length (s_uuid s) = 16 \<and> length (s_volume_name s) = 16 \<and>
    length (s_last_mounted s) = 64 \<and> length (s_alignment1 s) = 2 \<and>
    length (s_journal_uuid s) = 16 \<and> length (s_hash_seed s) = 4 \<and>
    length (s_alignment2 s) = 3"

definition wf_inode :: "inode \<Rightarrow> bool" where
  "wf_inode i \<longleftrightarrow>
    length (i_block i) = 15 \<and> length (i_osd2 i) = 12"

lemma superblock_of_bytes: "wf_superblock s \<Longrightarrow> superblock_of (superblock_bytes s @ ys) = s"
  by (simp add: superblock_of_def superblock_bytes_def wf_superblock_def codec_simps)

lemma bg_of_bytes: "bg_of (bg_bytes g @ ys) = g"
  by (simp add: bg_of_def bg_bytes_def codec_simps)

lemma inode_of_bytes: "wf_inode i \<Longrightarrow> inode_of (inode_bytes i @ ys) = i"
  by (simp add: inode_of_def inode_bytes_def wf_inode_def codec_simps)

end
