(* ===== verification/Ext_Mount.thy ===== *)
theory Ext_Mount
  imports Ext_Types "HOL-Library.Signed_Division"
begin

text \<open>
  Mounting and unmounting an ext2 volume (\<open>ext2_mount\<close>, \<open>ext2_umount\<close> and what they call in
  embext.c). A mount keeps the superblock in memory together with the list of the file system
  blocks that hold a copy of it; unmounting writes all the copies.
\<close>

section \<open>Model\<close>

text \<open>
  \<open>is_power\<close>, in \<open>int\<close> arithmetic: the loop \<open>while((x % ofy) == 0) x /= ofy\<close> need not end (for
  \<open>x = 0\<close>, or \<open>ofy = 1\<close>).
\<close>

partial_function (option) is_power :: "int \<Rightarrow> int \<Rightarrow> bool option" where
  "is_power x ofy =
    (if ofy = 0 then None
     else if x smod ofy = 0 then is_power (x sdiv ofy) ofy
     else Some (x = 1))"

text \<open>The test for a block group with a copy of the superblock, as \<open>ext2_mount\<close> has it twice.\<close>

definition has_superblock :: "int \<Rightarrow> bool option" where
  "has_superblock i =
    (if i = 0 \<or> i = 1 then Some True
     else do {
       p3 \<leftarrow> is_power 3 i;
       if p3 then Some True
       else do {
         p5 \<leftarrow> is_power 5 i;
         if p5 then Some True else is_power 7 i } })"

primrec sparse_groups :: "nat list \<Rightarrow> nat list option" where
  "sparse_groups [] = Some []"
| "sparse_groups (i # is) =
    do {
      b \<leftarrow> has_superblock (int i);
      gs \<leftarrow> sparse_groups is;
      Some (if b then i # gs else gs) }"

definition mount_sparse :: "superblock \<Rightarrow> bool" where
  "mount_sparse sb \<longleftrightarrow> s_rev_level sb = 1 \<and> has (s_feature_ro_compat sb) SPARSE_SUPER"

definition num_groups :: "superblock \<Rightarrow> u32 option" where
  "num_groups sb =
    do {
      n \<leftarrow> div32 (s_blocks_count sb) (s_blocks_per_group sb);
      r \<leftarrow> mod32 (s_blocks_count sb) (s_blocks_per_group sb);
      Some (if r \<noteq> 0 then n + 1 else n) }"

text \<open>
  \<open>ext2_mount\<close>: the context is \<open>malloc\<close>ed, so its buffer holds whatever was there when the read
  fails. The size of the volume and the type hint are not looked at.
\<close>

definition ext2_mount ::
  "'d platform \<Rightarrow> blockno \<Rightarrow> blockno \<Rightarrow> byte \<Rightarrow> 'd \<Rightarrow> dirent \<Rightarrow> nat \<Rightarrow> (int \<times> 'd estate) option" where
  "ext2_mount P start volume_size filesystem_hint d de t =
    (case blk_read P d (start + 2) (map (plat_junk P) [0..<512]) of
       (d1, buf, rc) \<Rightarrow>
         let sb = superblock_of buf;
             first = (if s_log_block_size sb = 0 then 1 else 0) in
         do {
           n \<leftarrow> num_groups sb;
           groups \<leftarrow> (if mount_sparse sb then sparse_groups [0..<unat n] else Some [0..<unat n]);
           Some (0, \<lparr>x_dev = d1,
             x_context =
               \<lparr>x_part_start = start,
                x_superblock = sb\<lparr>s_mtime := word_of_int (plat_time P t),
                                  s_mnt_count := s_mnt_count sb + 1\<rparr>,
                x_sparse = (if mount_sparse sb then 1 else 0), x_sysbuf = buf,
                x_superblock_block = first, x_read_only = word_of_int (blk_read_only P d1),
                x_num_blockgroups = n, x_num_superblocks = of_nat (length groups),
                x_superblock_blocks =
                  map (\<lambda>i. of_nat i * s_blocks_per_group sb + first) groups\<rparr>,
             x_dirent = de, x_ticks = Suc t\<rparr>) })"

text \<open>One copy of the superblock, and all of them.\<close>

definition write_superblock :: "'d platform \<Rightarrow> u32 \<Rightarrow> 'd estate \<Rightarrow> 'd estate" where
  "write_superblock P b s =
    (let s1 = upd_ctx (\<lambda>c. c\<lparr>x_superblock := (x_superblock c)\<lparr>s_block_group_nr := ucast b\<rparr>\<rparr>) s;
         s2 = upd_ctx (\<lambda>c. c\<lparr>x_sysbuf :=
                splice (x_sysbuf c) 0 (superblock_bytes (x_superblock c))\<rparr>) s1 in
     ctx_write P (to_lba (sb_of s2) b + part_of s2) s2)"

definition ext2_flush_superblock :: "'d platform \<Rightarrow> 'd estate \<Rightarrow> 'd estate" where
  "ext2_flush_superblock P s =
    fold (write_superblock P) (x_superblock_blocks (x_context s))
      (upd_ctx (\<lambda>c. c\<lparr>x_sysbuf := replicate 512 0\<rparr>) s)"

text \<open>\<open>ext2_umount\<close>: what is left is the device; the context is freed.\<close>

definition ext2_umount :: "'d platform \<Rightarrow> 'd estate \<Rightarrow> int \<times> 'd" where
  "ext2_umount P s = (0, x_dev (ext2_flush_superblock P s))"

section \<open>Which groups have a copy of the superblock\<close>

lemma is_power_step:
  "0 < x \<Longrightarrow> 1 < k \<Longrightarrow> is_power x k = (if x mod k = 0 then is_power (x div k) k else Some (x = 1))"
  by (subst is_power.simps) (simp add: signed_modulo_int_def signed_divide_int_def abs_of_pos sgn_pos)

text \<open>With positive arguments and a base of at least 2 the loop ends, and decides what its name says.\<close>

lemma is_power_total:
  assumes "0 < x" and "1 < k"
  shows "is_power x k = Some (\<exists>n. x = k ^ n)"
  using assms(1)
proof (induction "nat x" arbitrary: x rule: less_induct)
  case less
  show ?case
  proof (cases "x mod k = 0")
    case True
    then have x: "x = k * (x div k)" by auto
    have pos: "0 < x div k" using less.prems x assms(2)
      by (metis True dvd_eq_mod_eq_0 pos_imp_zdiv_pos_iff zdvd_imp_le order.strict_trans zero_less_one)
    have "x div k < x" using less.prems assms(2) by (rule int_div_less_self)
    then have "is_power (x div k) k = Some (\<exists>n. x div k = k ^ n)"
      using less.hyps pos by simp
    moreover have "(\<exists>n. x div k = k ^ n) \<longleftrightarrow> (\<exists>n. x = k ^ n)"
    proof
      assume "\<exists>n. x div k = k ^ n"
      then obtain n where "x div k = k ^ n" by blast
      then have "x = k ^ Suc n" using x by simp
      then show "\<exists>n. x = k ^ n" by blast
    next
      assume "\<exists>n. x = k ^ n"
      then obtain n where n: "x = k ^ n" by blast
      have "n \<noteq> 0" using n True assms(2) by (cases n) auto
      then obtain m where "n = Suc m" using not0_implies_Suc by blast
      then have "x div k = k ^ m" using n assms(2) by simp
      then show "\<exists>n. x div k = k ^ n" by blast
    qed
    ultimately show ?thesis using True less.prems assms(2) by (simp add: is_power_step)
  next
    case False
    have "x = k ^ n \<longleftrightarrow> x = 1 \<and> n = 0" for n
    proof (cases n)
      case (Suc m)
      then show ?thesis using False by auto
    qed simp
    then show ?thesis using False less.prems assms(2) by (auto simp: is_power_step)
  qed
qed

lemma prime_power_iff:
  fixes k :: int
  assumes "1 < k" and "p \<in> {3, 5, 7}"
  shows "(\<exists>n. p = k ^ n) \<longleftrightarrow> k = p"
proof
  assume "\<exists>n. p = k ^ n"
  then obtain n where n: "p = k ^ n" by blast
  consider "n = 0" | "n = 1" | m where "n = Suc (Suc m)" by (metis One_nat_def nat.exhaust)
  then show "k = p"
  proof cases
    case 3
    have "k dvd p" using n 3 by simp
    then have "k \<le> 7" using assms(2) zdvd_imp_le by fastforce
    then have "k \<in> {2, 3, 4, 5, 6, 7}" using assms(1) by auto
    moreover have "k * k dvd p" using n 3 by simp
    ultimately show ?thesis using assms(2) by auto
  qed (use n assms in auto)
next
  assume "k = p"
  then show "\<exists>n. p = k ^ n" by (intro exI [of _ 1]) simp
qed

text \<open>
  C26: The loop of \<open>is_power\<close> ends for every block group, and the groups taken to have a copy of the
  superblock are exactly 0, 1, 3, 5 and 7. (The sparse layout of ext2 has copies in the groups 0 and
  1 and in all powers of 3, 5 and 7; the arguments of \<open>is_power\<close> are the wrong way round.)
\<close>

theorem has_superblock_exact: "has_superblock (int i) = Some (i \<in> {0, 1, 3, 5, 7})"
proof (cases "i = 0 \<or> i = 1")
  case True
  then show ?thesis by (auto simp: has_superblock_def)
next
  case False
  then have k: "1 < int i" by auto
  have p: "is_power 3 (int i) = Some (i = 3)" "is_power 5 (int i) = Some (i = 5)"
    "is_power 7 (int i) = Some (i = 7)"
    using is_power_total [OF _ k] prime_power_iff [OF k, of 3] prime_power_iff [OF k, of 5]
      prime_power_iff [OF k, of 7] by simp_all
  show ?thesis using False by (simp add: has_superblock_def p)
qed

lemma sparse_groups_filter: "sparse_groups is = Some (filter (\<lambda>i. i \<in> {0, 1, 3, 5, 7}) is)"
  by (induction "is") (simp_all add: has_superblock_exact del: of_nat_eq_iff)

section \<open>Writing the copies\<close>

text \<open>The disk block of a copy, and what it holds afterwards.\<close>

definition copy_block :: "'d estate \<Rightarrow> u32 \<Rightarrow> blockno" where
  "copy_block s b = to_lba (sb_of s) b + part_of s"

definition copy_bytes :: "superblock \<Rightarrow> u32 \<Rightarrow> sector" where
  "copy_bytes sb b = superblock_bytes (sb\<lparr>s_block_group_nr := ucast b\<rparr>) @ replicate 248 0"

lemma length_superblock_bytes: "wf_superblock sb \<Longrightarrow> length (superblock_bytes sb) = 264"
  by (simp add: wf_superblock_def superblock_bytes_def)

lemma length_copy_bytes: "wf_superblock sb \<Longrightarrow> length (copy_bytes sb b) = 512"
  by (simp add: copy_bytes_def length_superblock_bytes wf_superblock_def superblock_bytes_def)

lemma upd_ctx_simps [simp]:
  "x_dev (upd_ctx g s) = x_dev s" "x_context (upd_ctx g s) = g (x_context s)"
  "x_ticks (upd_ctx g s) = x_ticks s" "x_dirent (upd_ctx g s) = x_dirent s"
  by (simp_all add: upd_ctx_def)

lemma to_lba_group_nr [simp]: "to_lba (sb\<lparr>s_block_group_nr := n\<rparr>) b = to_lba sb b"
  by (simp add: to_lba_def)

lemma splice_superblock:
  assumes "wf_superblock sb" and "length buf = 512" and "drop 264 buf = replicate 248 0"
  shows "splice buf 0 (superblock_bytes (sb\<lparr>s_block_group_nr := ucast b\<rparr>)) = copy_bytes sb b"
  using assms by (simp add: splice_def copy_bytes_def wf_superblock_def length_superblock_bytes)

context block_device
begin

lemma write_superblock_ok:
  assumes "wf_superblock (sb_of s)" and "ok (x_dev s) (copy_block s b)"
    and "length (x_sysbuf (x_context s)) = 512"
    and "drop 264 (x_sysbuf (x_context s)) = replicate 248 0"
  shows "write_superblock P b s =
    (upd_ctx (\<lambda>c. c\<lparr>x_superblock := (x_superblock c)\<lparr>s_block_group_nr := ucast b\<rparr>,
                    x_sysbuf := copy_bytes (sb_of s) b\<rparr>) s)
      \<lparr>x_dev := fst (blk_write P (x_dev s) (copy_block s b) (copy_bytes (sb_of s) b))\<rparr>"
  using assms
  by (simp add: write_superblock_def ctx_write_def copy_block_def splice_superblock case_prod_beta
      Let_def upd_ctx_def)

lemma fold_write_superblock:
  assumes "wf_superblock (sb_of s)" and "\<forall>b\<in>set bs. ok (x_dev s) (copy_block s b)"
    and "length (x_sysbuf (x_context s)) = 512"
    and "drop 264 (x_sysbuf (x_context s)) = replicate 248 0" and "inj_on (copy_block s) (set bs)"
  shows "(\<forall>b\<in>set bs. view (x_dev (fold (write_superblock P) bs s)) (copy_block s b) =
      copy_bytes (sb_of s) b) \<and>
    (\<forall>c. ok (x_dev (fold (write_superblock P) bs s)) c = ok (x_dev s) c) \<and>
    (\<forall>c. ok (x_dev s) c \<longrightarrow> c \<notin> copy_block s ` set bs \<longrightarrow>
      view (x_dev (fold (write_superblock P) bs s)) c = view (x_dev s) c)"
  using assms
proof (induction bs arbitrary: s)
  case Nil
  then show ?case by simp
next
  case (Cons b bs)
  let ?s = "write_superblock P b s"
  have okb: "ok (x_dev s) (copy_block s b)" using Cons.prems(2) by simp
  note len = length_copy_bytes [OF Cons.prems(1), of b]
  note eq = write_superblock_ok [OF Cons.prems(1) okb Cons.prems(3,4)]
  have block: "copy_block ?s = copy_block s" and bytes: "copy_bytes (sb_of ?s) = copy_bytes (sb_of s)"
    by (simp_all add: eq copy_block_def copy_bytes_def fun_eq_iff)
  have wf: "wf_superblock (sb_of ?s)" using Cons.prems(1) by (simp add: eq wf_superblock_def)
  have drop: "drop 264 (copy_bytes (sb_of s) b) = replicate 248 0"
    using Cons.prems(1) by (simp add: copy_bytes_def length_superblock_bytes wf_superblock_def)
  have oks: "ok (x_dev ?s) c = ok (x_dev s) c" for c using okb len by (simp add: eq)
  have view: "ok (x_dev s) c \<Longrightarrow> view (x_dev ?s) c =
      (if c = copy_block s b then copy_bytes (sb_of s) b else view (x_dev s) c)" for c
    using write_view [OF okb len, of c] by (simp add: eq)
  have inj: "inj_on (copy_block s) (set bs)" using Cons.prems(5) by simp
  have "\<forall>c\<in>set bs. ok (x_dev ?s) (copy_block ?s c)" using Cons.prems(2) oks block by simp
  note IH = Cons.IH [OF wf this, unfolded block bytes oks]
  have IH: "(\<forall>c\<in>set bs. view (x_dev (fold (write_superblock P) bs ?s)) (copy_block s c) =
      copy_bytes (sb_of s) c) \<and>
    (\<forall>c. ok (x_dev (fold (write_superblock P) bs ?s)) c = ok (x_dev s) c) \<and>
    (\<forall>c. ok (x_dev s) c \<longrightarrow> c \<notin> copy_block s ` set bs \<longrightarrow>
      view (x_dev (fold (write_superblock P) bs ?s)) c = view (x_dev ?s) c)"
    by (rule IH) (use drop len inj in \<open>simp_all add: eq\<close>)
  have "b \<in> set bs \<or> copy_block s b \<notin> copy_block s ` set bs"
    using Cons.prems(5) by auto
  then show ?case using IH view okb by auto
qed

end

lemma umount_copies:
  assumes "wf_superblock (sb_of s)"
    and "\<forall>b\<in>set (x_superblock_blocks (x_context s)). pc_ok (x_dev s) (copy_block s b)"
    and "inj_on (copy_block s) (set (x_superblock_blocks (x_context s)))"
    and "ext2_umount (pc_platform clk junk) s = (rc, d)"
  shows "rc = 0"
    "b \<in> set (x_superblock_blocks (x_context s)) \<Longrightarrow> pc_view d (copy_block s b) = copy_bytes (sb_of s) b"
    "pc_ok d c = pc_ok (x_dev s) c"
    "pc_ok (x_dev s) c \<Longrightarrow> c \<notin> copy_block s ` set (x_superblock_blocks (x_context s)) \<Longrightarrow>
      pc_view d c = pc_view (x_dev s) c"
proof -
  let ?s = "upd_ctx (\<lambda>c. c\<lparr>x_sysbuf := replicate 512 0\<rparr>) s"
  have "copy_block ?s = copy_block s" by (simp add: copy_block_def fun_eq_iff)
  then show "rc = 0"
    "b \<in> set (x_superblock_blocks (x_context s)) \<Longrightarrow> pc_view d (copy_block s b) = copy_bytes (sb_of s) b"
    "pc_ok d c = pc_ok (x_dev s) c"
    "pc_ok (x_dev s) c \<Longrightarrow> c \<notin> copy_block s ` set (x_superblock_blocks (x_context s)) \<Longrightarrow>
      pc_view d c = pc_view (x_dev s) c"
    using pc.fold_write_superblock [of ?s "x_superblock_blocks (x_context s)" clk junk] assms
    by (auto simp: ext2_umount_def ext2_flush_superblock_def)
qed

text \<open>
  C24: Unmounting puts the superblock, padded with zeros, into the disk block of each of the numbers in
  \<open>superblock_blocks\<close>, which mounting recorded, and changes no other block of the disk. These are not all
  the copies the volume has: mounting does not record those of the groups 9, 25, 27 and so on, and with
  blocks of more than one kilobyte the number for the first copy leads to block 0 of the partition, not
  to the place of the superblock.
\<close>

theorem umount_writes_copies:
  assumes "wf_superblock (sb_of s)"
    and "\<forall>b\<in>set (x_superblock_blocks (x_context s)). pc_ok (x_dev s) (copy_block s b)"
    and "inj_on (copy_block s) (set (x_superblock_blocks (x_context s)))"
    and "ext2_umount (pc_platform clk junk) s = (rc, d)"
  shows "rc = 0 \<and>
    (\<forall>b\<in>set (x_superblock_blocks (x_context s)). pc_view d (copy_block s b) = copy_bytes (sb_of s) b) \<and>
    (\<forall>c. pc_ok (x_dev s) c \<longrightarrow> c \<notin> copy_block s ` set (x_superblock_blocks (x_context s)) \<longrightarrow>
      pc_view d c = pc_view (x_dev s) c)"
  using umount_copies [OF assms] by blast

lemma wf_superblock_of: "length buf = 512 \<Longrightarrow> wf_superblock (superblock_of buf)"
  by (simp add: wf_superblock_def superblock_of_def get32s_def)

lemma wf_superblock_updates [simp]:
  "wf_superblock (sb\<lparr>s_block_group_nr := n\<rparr>) = wf_superblock sb"
  "wf_superblock (sb\<lparr>s_mtime := a, s_mnt_count := m\<rparr>) = wf_superblock sb"
  by (simp_all add: wf_superblock_def)

text \<open>The groups with a copy, as a function of the superblock.\<close>

definition copy_groups :: "superblock \<Rightarrow> nat list option" where
  "copy_groups sb = do {
     n \<leftarrow> num_groups sb;
     if mount_sparse sb then sparse_groups [0..<unat n] else Some [0..<unat n] }"

lemma copy_groups_updates [simp]:
  "copy_groups (sb\<lparr>s_block_group_nr := n\<rparr>) = copy_groups sb"
  "copy_groups (sb\<lparr>s_mtime := a, s_mnt_count := m\<rparr>) = copy_groups sb"
  "num_groups (sb\<lparr>s_block_group_nr := n\<rparr>) = num_groups sb"
  "num_groups (sb\<lparr>s_mtime := a, s_mnt_count := m\<rparr>) = num_groups sb"
  by (simp_all add: copy_groups_def num_groups_def mount_sparse_def cong: if_cong)

lemma copy_groups_first:
  assumes "copy_groups sb = Some gs" and "gs \<noteq> []"
  shows "0 \<in> set gs"
proof -
  obtain n where n: "(if mount_sparse sb then sparse_groups [0..<n] else Some [0..<n]) = Some gs"
    using assms(1) by (auto simp: copy_groups_def split: bind_splits)
  then have "n \<noteq> 0" using assms(2) by (cases n) (auto split: if_splits)
  then show ?thesis using n by (auto simp: sparse_groups_filter split: if_splits)
qed

text \<open>What a mount of a device whose superblock can be read yields.\<close>

definition remembered :: "superblock \<Rightarrow> int \<Rightarrow> superblock" where
  "remembered sb t = sb\<lparr>s_mtime := word_of_int t, s_mnt_count := s_mnt_count sb + 1\<rparr>"

definition first_block :: "superblock \<Rightarrow> u32" where
  "first_block sb = (if s_log_block_size sb = 0 then 1 else 0)"

lemma remembered_simps [simp]:
  "copy_groups (remembered sb t) = copy_groups sb" "num_groups (remembered sb t) = num_groups sb"
  "first_block (remembered sb t) = first_block sb" "first_block (sb\<lparr>s_block_group_nr := k\<rparr>) = first_block sb"
  "s_blocks_per_group (remembered sb t) = s_blocks_per_group sb"
  by (simp_all add: remembered_def first_block_def)

context block_device
begin

lemma mount_result:
  assumes "ok d (start + 2)"
  shows "ext2_mount P start vol hint d de t = Some (0, s) \<longleftrightarrow>
    (\<exists>gs n. copy_groups (superblock_of (view d (start + 2))) = Some gs \<and>
      num_groups (superblock_of (view d (start + 2))) = Some n \<and>
      s = \<lparr>x_dev = d,
        x_context =
          \<lparr>x_part_start = start,
           x_superblock = remembered (superblock_of (view d (start + 2))) (plat_time P t),
           x_sparse = (if mount_sparse (superblock_of (view d (start + 2))) then 1 else 0),
           x_sysbuf = view d (start + 2),
           x_superblock_block = first_block (superblock_of (view d (start + 2))),
           x_read_only = word_of_int (blk_read_only P d), x_num_blockgroups = n,
           x_num_superblocks = of_nat (length gs),
           x_superblock_blocks =
             map (\<lambda>i. of_nat i * s_blocks_per_group (superblock_of (view d (start + 2))) +
               first_block (superblock_of (view d (start + 2)))) gs\<rparr>,
        x_dirent = de, x_ticks = Suc t\<rparr>)"
  using assms
  by (auto simp: ext2_mount_def Let_def copy_groups_def remembered_def first_block_def
      split: bind_splits)

end

text \<open>
  C25: On a volume with blocks of one kilobyte, mounting after unmounting gives the superblock that
  was in memory back, with the mount count and the time of the new mount: the primary copy is where
  a mount looks for it. (The driver stores the number of the block, 1, as the number of the group.)
\<close>

theorem remount_sees_unmount:
  assumes "ext2_mount (pc_platform clk junk) start vol hint d de t = Some (0, s)"
    and "pc_ok d (start + 2)" and "s_log_block_size (sb_of s) = 0"
    and "x_superblock_blocks (x_context s) \<noteq> []"
    and "\<forall>b\<in>set (x_superblock_blocks (x_context s)). pc_ok d (copy_block s b)"
    and "inj_on (copy_block s) (set (x_superblock_blocks (x_context s)))"
    and "ext2_umount (pc_platform clk junk) s = (0, d')"
  shows "\<exists>s'. ext2_mount (pc_platform clk junk) start vol hint d' de t' = Some (0, s') \<and>
    sb_of s' = remembered (sb_of s\<lparr>s_block_group_nr := 1\<rparr>) (clk t') \<and>
    x_superblock_blocks (x_context s') = x_superblock_blocks (x_context s) \<and>
    x_num_blockgroups (x_context s') = x_num_blockgroups (x_context s)"
proof -
  let ?P = "pc_platform clk junk" and ?sb = "superblock_of (pc_view d (start + 2))"
  obtain gs n where s: "copy_groups ?sb = Some gs" "num_groups ?sb = Some n"
    "sb_of s = remembered ?sb (clk t)" "part_of s = start" "x_dev s = d"
    "x_superblock_blocks (x_context s) =
      map (\<lambda>i. of_nat i * s_blocks_per_group ?sb + first_block ?sb) gs"
    "x_num_blockgroups (x_context s) = n"
    using assms(1) pc.mount_result [OF assms(2)] by (auto simp: pc_platform_def)
  have wf: "wf_superblock (sb_of s)"
    using wf_superblock_of [of "pc_view d (start + 2)"] by (simp add: s(3) remembered_def)
  have log: "s_log_block_size ?sb = 0" using assms(3) s(3) by (simp add: remembered_def)
  then have first: "first_block ?sb = 1" by (simp add: first_block_def)
  have "0 \<in> set gs" using copy_groups_first [OF s(1)] assms(4) s(6) by simp
  then have one: "1 \<in> set (x_superblock_blocks (x_context s))"
    by (force simp: s(6) first)
  have at: "copy_block s 1 = start + 2"
    by (simp add: copy_block_def to_lba_def shl32_def s(4) assms(3))
  have okb: "\<forall>b\<in>set (x_superblock_blocks (x_context s)). pc_ok (x_dev s) (copy_block s b)"
    using assms(5) s(5) by simp
  note w = umount_copies [OF wf okb assms(6,7)]
  have "pc_view d' (start + 2) = copy_bytes (sb_of s) 1" using w(2) [OF one] at by simp
  then have sb': "superblock_of (pc_view d' (start + 2)) = sb_of s\<lparr>s_block_group_nr := 1\<rparr>"
    using wf by (simp add: copy_bytes_def superblock_of_bytes)
  have ok': "pc_ok d' (start + 2)" using assms(2) w(3) s(5) by simp
  show ?thesis
    using pc.mount_result [OF ok', of clk junk vol hint de t'] s by (simp add: sb' pc_platform_def)
qed

end
