(* ===== verification/Ext_Alloc.thy ===== *)
theory Ext_Alloc
  imports Ext_Mount
begin

text \<open>
  The block bitmaps of ext2: \<open>ext2_get_bg_descriptor\<close>, \<open>ext2_write_bg_descriptor\<close>,
  \<open>ext2_change_allocated\<close> and \<open>ext2_allocate_block\<close> of embext.c. The abstract view of a bitmap block
  is the predicate \<open>bitmap_bit\<close> on the bits of a sector. \<open>ext2_change_allocated\<close> works on another
  disk block than the volume's bitmap; the properties are about the block it works on.
\<close>

section \<open>Model\<close>

abbreviation (input) EXT2_ALLOCATED :: int where "EXT2_ALLOCATED \<equiv> 1"
abbreviation (input) EXT2_DEALLOCATED :: int where "EXT2_DEALLOCATED \<equiv> 0"

text \<open>The disk block with the descriptor of a group, in the table behind the superblock in block \<open>b\<close>.\<close>

definition bg_block :: "superblock \<Rightarrow> u32 \<Rightarrow> u32 \<Rightarrow> blockno" where
  "bg_block sb b block_group = to_lba sb (b + 1) + block_group div 16"

definition bg_offset :: "u32 \<Rightarrow> nat" where
  "bg_offset block_group = 32 * unat (block_group mod 16)"

text \<open>\<open>bg\<close> is the caller's structure, which stays as it is when the group does not exist.\<close>

definition ext2_get_bg_descriptor ::
  "'d platform \<Rightarrow> block_group_descriptor \<Rightarrow> u32 \<Rightarrow> 'd estate \<Rightarrow>
    int \<times> block_group_descriptor \<times> 'd estate" where
  "ext2_get_bg_descriptor P bg block_group s =
    (let c = x_context s in
     if block_group \<ge> x_num_blockgroups c then (- 1, bg, s)
     else
       let s1 = ctx_read P (bg_block (x_superblock c) (x_superblock_block c) block_group + x_part_start c) s in
       (0, bg_of (slice (bg_offset block_group) 20 (x_sysbuf (x_context s1))), s1))"

text \<open>The body of the loop over the copies; the changed block stays in memory.\<close>

definition put_bg_descriptor ::
  "'d platform \<Rightarrow> block_group_descriptor \<Rightarrow> u32 \<Rightarrow> u32 \<Rightarrow> 'd estate \<Rightarrow> 'd estate" where
  "put_bg_descriptor P bg block_group b s =
    (let s1 = ctx_read P (bg_block (sb_of s) b block_group + part_of s) s in
     upd_ctx (\<lambda>c. c\<lparr>x_sysbuf := splice (x_sysbuf c) (bg_offset block_group) (bg_bytes bg)\<rparr>) s1)"

definition ext2_write_bg_descriptor ::
  "'d platform \<Rightarrow> block_group_descriptor \<Rightarrow> u32 \<Rightarrow> 'd estate \<Rightarrow> int \<times> 'd estate" where
  "ext2_write_bg_descriptor P bg block_group s =
    (if block_group \<ge> x_num_blockgroups (x_context s) then (- 1, s)
     else (0, fold (put_bg_descriptor P bg block_group) (x_superblock_blocks (x_context s)) s))"

text \<open>The byte of the bitmap block and the mask of its bit, for an offset in the group.\<close>

definition bitmap_byte :: "u32 \<Rightarrow> nat" where
  "bitmap_byte off = unat ((off div 8) mod 512)"

definition bitmap_mask :: "u32 \<Rightarrow> byte" where
  "bitmap_mask off = push_bit (unat (off mod 8)) 1"

definition count_change :: "int \<Rightarrow> int \<Rightarrow> block_group_descriptor \<Rightarrow> block_group_descriptor" where
  "count_change allocated for_directory bg =
    (if allocated = EXT2_ALLOCATED then
       bg\<lparr>bg_free_blocks_count := bg_free_blocks_count bg - 1,
          bg_used_dirs_count :=
            (if for_directory \<noteq> 0 then bg_used_dirs_count bg + 1 else bg_used_dirs_count bg)\<rparr>
     else
       bg\<lparr>bg_free_blocks_count := bg_free_blocks_count bg + 1,
          bg_used_dirs_count :=
            (if for_directory \<noteq> 0 then bg_used_dirs_count bg - 1 else bg_used_dirs_count bg)\<rparr>)"

text \<open>The descriptor on the stack before it is fetched.\<close>

definition stack_bg :: "'d platform \<Rightarrow> block_group_descriptor" where
  "stack_bg P = bg_of (map (plat_junk P) [0..<20])"

text \<open>Step 1: the bit; \<open>None\<close> when the block is in the wanted state already.\<close>

definition toggle_bit :: "int \<Rightarrow> u32 \<Rightarrow> sector \<Rightarrow> sector option" where
  "toggle_bit allocated off buf =
    (let i = bitmap_byte off; m = bitmap_mask off in
     if has (buf ! i) m then
       (if allocated = EXT2_ALLOCATED then None else Some (buf[i := buf ! i AND NOT m]))
     else
       (if allocated = EXT2_DEALLOCATED then None else Some (buf[i := buf ! i OR m])))"

definition ext2_change_allocated ::
  "'d platform \<Rightarrow> u32 \<Rightarrow> int \<Rightarrow> int \<Rightarrow> 'd estate \<Rightarrow> (int \<times> 'd estate) option" where
  "ext2_change_allocated P block allocated for_directory s =
    do {
      grp \<leftarrow> div32 block (s_blocks_per_group (sb_of s));
      off \<leftarrow> mod32 block (s_blocks_per_group (sb_of s));
      (case ext2_get_bg_descriptor P (stack_bg P) grp s of (_, bg, s1) \<Rightarrow>
         let lba = bg_block_bitmap bg + off div 8 div 512;
             s2 = ctx_read P (lba + part_of s1) s1 in
         (case toggle_bit allocated off (x_sysbuf (x_context s2)) of
            None \<Rightarrow> Some (- 1, s2)
          | Some buf \<Rightarrow>
              let s3 = ctx_write P (lba + part_of s2) (upd_ctx (\<lambda>c. c\<lparr>x_sysbuf := buf\<rparr>) s2);
                  s4 = snd (ext2_write_bg_descriptor P (count_change allocated for_directory bg) grp s3) in
              Some (0, upd_ctx (\<lambda>c. c\<lparr>x_superblock := (x_superblock c)\<lparr>s_free_blocks_count :=
                (if allocated = EXT2_ALLOCATED then s_free_blocks_count (x_superblock c) - 1
                 else s_free_blocks_count (x_superblock c) + 1)\<rparr>\<rparr>) s4))) }"

text \<open>Only the block right after \<open>previous_block\<close> is tried; 0 means that none was allocated.\<close>

definition ext2_allocate_block ::
  "'d platform \<Rightarrow> u32 \<Rightarrow> int \<Rightarrow> 'd estate \<Rightarrow> (u32 \<times> 'd estate) option" where
  "ext2_allocate_block P previous_block for_directory s =
    (if previous_block = 0 then Some (0, s)
     else do {
       r \<leftarrow> mod32 (previous_block + 1) (s_blocks_per_group (sb_of s));
       if r = 0 then Some (0, s)
       else do {
         grp \<leftarrow> div32 previous_block (s_blocks_per_group (sb_of s));
         (case ext2_get_bg_descriptor P (stack_bg P) grp s of (_, bg, s1) \<Rightarrow>
            if bg_free_blocks_count bg > 0 then
              let lba = to_lba (sb_of s1) (bg_block_bitmap bg) + r div 8 div 512;
                  s2 = ctx_read P (lba + part_of s1) s1 in
              if \<not> has (x_sysbuf (x_context s2) ! bitmap_byte r) (bitmap_mask r) then
                do {
                  (rc, s3) \<leftarrow> ext2_change_allocated P (previous_block + 1) EXT2_ALLOCATED for_directory s2;
                  Some (if rc \<noteq> 0 then 0 else previous_block + 1, s3) }
              else Some (0, s2)
            else Some (0, s1)) } })"

section \<open>Bitmaps\<close>

text \<open>Bit \<open>n\<close> of a sector of a bitmap is set: the block it stands for is taken.\<close>

definition bitmap_bit :: "sector \<Rightarrow> nat \<Rightarrow> bool" where
  "bitmap_bit buf n \<longleftrightarrow> bit (buf ! (n div 8)) (n mod 8)"

lemma bitmap_position:
  "bitmap_byte off = unat off mod 4096 div 8" "bitmap_mask off = push_bit (unat off mod 4096 mod 8) 1"
  "bitmap_byte off < 512"
proof -
  have "unat off mod (8 * 512) = 8 * (unat off div 8 mod 512) + unat off mod 8" by (rule mod_mult2_eq)
  then show "bitmap_byte off = unat off mod 4096 div 8"
    by (simp add: bitmap_byte_def unat_div unat_mod)
  show "bitmap_mask off = push_bit (unat off mod 4096 mod 8) 1"
    by (simp add: bitmap_mask_def unat_mod mod_mod_cancel)
  show "bitmap_byte off < 512" by (simp add: bitmap_byte_def unat_mod)
qed

lemma has_push_bit: "k < 8 \<Longrightarrow> has b (push_bit k 1 :: byte) \<longleftrightarrow> bit b k"
proof -
  assume k: "k < 8"
  have "b AND push_bit k 1 = (if bit b k then push_bit k 1 else 0)"
    using k by (intro bit_word_eqI) (auto simp: bit_simps)
  moreover have "(push_bit k 1 :: byte) \<noteq> 0"
    using k by (auto simp: bit_eq_iff bit_simps)
  ultimately show ?thesis by (simp add: has_def)
qed

lemma bit_update:
  fixes b :: byte
  assumes "k < 8" and "n < 8"
  shows "bit (b OR push_bit k 1) n \<longleftrightarrow> n = k \<or> bit b n"
    and "bit (b AND NOT (push_bit k 1)) n \<longleftrightarrow> n \<noteq> k \<and> bit b n"
  using assms by (auto simp: bit_simps)

lemma same_position: "(m :: nat) div 8 = n div 8 \<Longrightarrow> m mod 8 = n mod 8 \<Longrightarrow> m = n"
  by (metis div_mult_mod_eq)

lemma toggle_bit_update:
  assumes "length buf = 512" and "allocated = (if now_taken then 1 else 0)"
  shows "toggle_bit allocated off buf = None \<longleftrightarrow> bitmap_bit buf (unat off mod 4096) = now_taken"
    and "toggle_bit allocated off buf = Some buf' \<Longrightarrow> length buf' = 512 \<and>
      (\<forall>n<4096. bitmap_bit buf' n = (if n = unat off mod 4096 then now_taken else bitmap_bit buf n))"
proof -
  let ?o = "unat off mod 4096"
  note pos = bitmap_position [of off]
  have here: "has (buf ! bitmap_byte off) (bitmap_mask off) \<longleftrightarrow> bitmap_bit buf ?o"
    unfolding pos bitmap_bit_def by (rule has_push_bit) simp
  show "toggle_bit allocated off buf = None \<longleftrightarrow> bitmap_bit buf ?o = now_taken"
    using assms(2) here by (simp add: toggle_bit_def Let_def)
  assume t: "toggle_bit allocated off buf = Some buf'"
  let ?b = "buf ! (?o div 8)" and ?m = "push_bit (?o mod 8) 1"
  have buf': "buf' = buf[?o div 8 := if now_taken then ?b OR ?m else ?b AND NOT ?m]"
    using t assms(2) here pos by (auto simp: toggle_bit_def Let_def split: if_splits)
  have "bitmap_bit buf' n = (if n = ?o then now_taken else bitmap_bit buf n)" for n
  proof (cases "n div 8 = ?o div 8")
    case True
    then have "n = ?o \<longleftrightarrow> n mod 8 = ?o mod 8" using same_position by blast
    moreover have "?o div 8 < length buf" using pos assms(1) by simp
    ultimately show ?thesis
      using True bit_update [of "?o mod 8" "n mod 8" ?b]
        bit_update [of "?o mod 8" "?o mod 8" ?b] by (simp add: buf' bitmap_bit_def)
  next
    case False
    then have "n \<noteq> ?o" by auto
    then show ?thesis using False by (simp add: buf' bitmap_bit_def)
  qed
  then show "length buf' = 512 \<and>
      (\<forall>n<4096. bitmap_bit buf' n = (if n = ?o then now_taken else bitmap_bit buf n))"
    using assms(1) buf' by simp
qed

section \<open>Changing the state of a block\<close>

lemma sysbuf_overwritten [simp]:
  "upd_ctx (\<lambda>c. c\<lparr>x_sysbuf := a\<rparr>) (upd_ctx (\<lambda>c. c\<lparr>x_sysbuf := b\<rparr>) s) = upd_ctx (\<lambda>c. c\<lparr>x_sysbuf := a\<rparr>) s"
  by (simp add: upd_ctx_def)

lemma length_bg_bytes [simp]: "length (bg_bytes g) = 20"
  by (simp add: bg_bytes_def)

lemma bg_offset_bound: "bg_offset g + 20 \<le> 512"
proof -
  have "unat (g mod 16) < 16" by (simp add: unat_mod)
  then show ?thesis by (simp add: bg_offset_def)
qed

text \<open>The blocks of the descriptor tables, as the driver finds them, that hold the group's entry.\<close>

definition table_blocks :: "'d estate \<Rightarrow> u32 \<Rightarrow> blockno set" where
  "table_blocks s grp =
    (\<lambda>b. bg_block (sb_of s) b grp + part_of s) `
      insert (x_superblock_block (x_context s)) (set (x_superblock_blocks (x_context s)))"

definition group_descriptor :: "('d \<Rightarrow> blockno \<Rightarrow> sector) \<Rightarrow> 'd estate \<Rightarrow> u32 \<Rightarrow> block_group_descriptor" where
  "group_descriptor view s grp =
    bg_of (slice (bg_offset grp) 20
      (view (x_dev s) (bg_block (sb_of s) (x_superblock_block (x_context s)) grp + part_of s)))"

text \<open>
  The disk block \<open>ext2_change_allocated\<close> takes for the bitmap of the group: \<open>bg_block_bitmap\<close>, the number
  of a block of the volume, used as the number of a disk block. The volume has its bitmap in
  \<open>volume_bitmap_block\<close>, where \<open>ext2_allocate_block\<close> looks.
\<close>

definition unshifted_bitmap_block :: "('d \<Rightarrow> blockno \<Rightarrow> sector) \<Rightarrow> 'd estate \<Rightarrow> u32 \<Rightarrow> u32 \<Rightarrow> blockno" where
  "unshifted_bitmap_block view s grp off =
    bg_block_bitmap (group_descriptor view s grp) + off div 8 div 512 + part_of s"

definition volume_bitmap_block :: "('d \<Rightarrow> blockno \<Rightarrow> sector) \<Rightarrow> 'd estate \<Rightarrow> u32 \<Rightarrow> u32 \<Rightarrow> blockno" where
  "volume_bitmap_block view s grp off =
    to_lba (sb_of s) (bg_block_bitmap (group_descriptor view s grp)) + off div 8 div 512 + part_of s"

context block_device
begin

lemma ctx_read_ok:
  "ok (x_dev s) b \<Longrightarrow> ctx_read P b s = upd_ctx (\<lambda>c. c\<lparr>x_sysbuf := view (x_dev s) b\<rparr>) s"
  by (simp add: ctx_read_def upd_ctx_def)

lemma get_bg_ok:
  assumes "grp < x_num_blockgroups (x_context s)" and "\<forall>b\<in>table_blocks s grp. ok (x_dev s) b"
  shows "\<exists>buf. length buf = 512 \<and> ext2_get_bg_descriptor P bg grp s =
    (0, group_descriptor view s grp, upd_ctx (\<lambda>c. c\<lparr>x_sysbuf := buf\<rparr>) s)"
  using assms
  by (intro exI [of _ "view (x_dev s) (bg_block (sb_of s) (x_superblock_block (x_context s)) grp + part_of s)"])
    (simp add: ext2_get_bg_descriptor_def Let_def ctx_read_ok group_descriptor_def table_blocks_def not_le)

text \<open>Writing a descriptor back changes memory only.\<close>

lemma put_bg_memory:
  assumes "\<forall>b\<in>set bs. ok (x_dev s) (bg_block (sb_of s) b grp + part_of s)"
    and "length (x_sysbuf (x_context s)) = 512"
  shows "\<exists>buf. length buf = 512 \<and>
    fold (put_bg_descriptor P bg grp) bs s = upd_ctx (\<lambda>c. c\<lparr>x_sysbuf := buf\<rparr>) s"
  using assms
proof (induction bs arbitrary: s)
  case Nil
  then show ?case by (intro exI [of _ "x_sysbuf (x_context s)"]) (simp add: upd_ctx_def)
next
  case (Cons b bs)
  let ?buf = "splice (view (x_dev s) (bg_block (sb_of s) b grp + part_of s)) (bg_offset grp) (bg_bytes bg)"
  have step: "put_bg_descriptor P bg grp b s = upd_ctx (\<lambda>c. c\<lparr>x_sysbuf := ?buf\<rparr>) s"
    using Cons.prems(1) by (simp add: put_bg_descriptor_def ctx_read_ok Let_def upd_ctx_def)
  have "length ?buf = 512" using bg_offset_bound [of grp] by simp
  then obtain buf where "length buf = 512" "fold (put_bg_descriptor P bg grp) bs
      (upd_ctx (\<lambda>c. c\<lparr>x_sysbuf := ?buf\<rparr>) s) = upd_ctx (\<lambda>c. c\<lparr>x_sysbuf := buf\<rparr>)
      (upd_ctx (\<lambda>c. c\<lparr>x_sysbuf := ?buf\<rparr>) s)"
    using Cons.IH [of "upd_ctx (\<lambda>c. c\<lparr>x_sysbuf := ?buf\<rparr>) s"] Cons.prems(1) by auto
  then show ?case using step by (intro exI [of _ buf]) (simp add: upd_ctx_def)
qed

text \<open>
  A change of the state of a block: the bit flips, nothing else on the disk changes (the
  descriptor, too, stays in memory), and the superblock's count of free blocks follows.
\<close>

lemma change_allocated_ok:
  assumes "grp = block div s_blocks_per_group (sb_of s)" and "off = block mod s_blocks_per_group (sb_of s)"
    and "s_blocks_per_group (sb_of s) \<noteq> 0" and "grp < x_num_blockgroups (x_context s)"
    and tables: "\<forall>b\<in>table_blocks s grp. ok (x_dev s) b"
    and okb: "ok (x_dev s) (unshifted_bitmap_block view s grp off)"
    and "allocated = (if taken then 1 else 0)"
  shows "bitmap_bit (view (x_dev s) (unshifted_bitmap_block view s grp off)) (unat off mod 4096) = taken \<Longrightarrow>
      \<exists>buf. ext2_change_allocated P block allocated for_directory s =
        Some (- 1, upd_ctx (\<lambda>c. c\<lparr>x_sysbuf := buf\<rparr>) s)"
    and "bitmap_bit (view (x_dev s) (unshifted_bitmap_block view s grp off)) (unat off mod 4096) \<noteq> taken \<Longrightarrow>
      \<exists>s' new. ext2_change_allocated P block allocated for_directory s = Some (0, s') \<and>
        length new = 512 \<and>
        x_dev s' = fst (blk_write P (x_dev s) (unshifted_bitmap_block view s grp off) new) \<and>
        (\<forall>n<4096. bitmap_bit new n =
          (if n = unat off mod 4096 then taken
           else bitmap_bit (view (x_dev s) (unshifted_bitmap_block view s grp off)) n)) \<and>
        sb_of s' = sb_of s\<lparr>s_free_blocks_count :=
          s_free_blocks_count (sb_of s) + (if taken then - 1 else 1)\<rparr>"
proof -
  let ?bg = "group_descriptor view s grp" and ?lba = "unshifted_bitmap_block view s grp off"
  let ?old = "view (x_dev s) ?lba"
  obtain buf where buf: "ext2_get_bg_descriptor P (stack_bg P) grp s =
      (0, ?bg, upd_ctx (\<lambda>c. c\<lparr>x_sysbuf := buf\<rparr>) s)"
    using get_bg_ok [OF assms(4) tables] by blast
  have read: "ctx_read P ?lba (upd_ctx (\<lambda>c. c\<lparr>x_sysbuf := buf\<rparr>) s) = upd_ctx (\<lambda>c. c\<lparr>x_sysbuf := ?old\<rparr>) s"
    using okb by (simp add: ctx_read_ok upd_ctx_def)
  have div: "div32 block (s_blocks_per_group (sb_of s)) = Some grp"
    "mod32 block (s_blocks_per_group (sb_of s)) = Some off"
    using assms(1-3) by (simp_all add: div32_def mod32_def)
  note toggle = toggle_bit_update [OF length_view [of "x_dev s" ?lba] assms(7), where off = off]
  show "\<exists>buf. ext2_change_allocated P block allocated for_directory s =
      Some (- 1, upd_ctx (\<lambda>c. c\<lparr>x_sysbuf := buf\<rparr>) s)" if "bitmap_bit ?old (unat off mod 4096) = taken"
    using toggle(1) that
    by (intro exI [of _ ?old])
      (simp add: ext2_change_allocated_def div buf read unshifted_bitmap_block_def [symmetric] Let_def)
  assume "bitmap_bit ?old (unat off mod 4096) \<noteq> taken"
  then obtain new where new: "toggle_bit allocated off ?old = Some new"
    using toggle(1) by (metis option.exhaust)
  note bits = toggle(2) [OF new]
  let ?s3 = "ctx_write P ?lba (upd_ctx (\<lambda>c. c\<lparr>x_sysbuf := new\<rparr>) s)"
  have s3: "?s3 = (upd_ctx (\<lambda>c. c\<lparr>x_sysbuf := new\<rparr>) s)\<lparr>x_dev := fst (blk_write P (x_dev s) ?lba new)\<rparr>"
    by (simp add: ctx_write_def case_prod_beta)
  have len3: "length (x_sysbuf (x_context ?s3)) = 512" using bits by (simp add: s3)
  have same: "x_superblock_blocks (x_context ?s3) = x_superblock_blocks (x_context s)"
    "sb_of ?s3 = sb_of s" "part_of ?s3 = part_of s"
    "x_num_blockgroups (x_context ?s3) = x_num_blockgroups (x_context s)"
    by (simp_all add: s3)
  have "\<forall>b\<in>set (x_superblock_blocks (x_context s)). ok (x_dev ?s3) (bg_block (sb_of ?s3) b grp + part_of ?s3)"
    using tables okb bits by (simp add: s3 table_blocks_def)
  from put_bg_memory [OF this len3] obtain buf4 where
    "fold (put_bg_descriptor P (count_change allocated for_directory ?bg) grp)
      (x_superblock_blocks (x_context s)) ?s3 = upd_ctx (\<lambda>c. c\<lparr>x_sysbuf := buf4\<rparr>) ?s3" by blast
  then have buf4:
    "snd (ext2_write_bg_descriptor P (count_change allocated for_directory ?bg) grp ?s3) =
      upd_ctx (\<lambda>c. c\<lparr>x_sysbuf := buf4\<rparr>) ?s3"
    using assms(4) by (simp add: ext2_write_bg_descriptor_def same not_le [symmetric])
  have "ext2_change_allocated P block allocated for_directory s =
      Some (0, upd_ctx (\<lambda>c. c\<lparr>x_superblock := (x_superblock c)\<lparr>s_free_blocks_count :=
          (if allocated = 1 then s_free_blocks_count (x_superblock c) - 1
           else s_free_blocks_count (x_superblock c) + 1)\<rparr>\<rparr>) (upd_ctx (\<lambda>c. c\<lparr>x_sysbuf := buf4\<rparr>) ?s3))"
    by (simp add: ext2_change_allocated_def div buf read new buf4 unshifted_bitmap_block_def [symmetric] Let_def)
  then obtain s' where "ext2_change_allocated P block allocated for_directory s = Some (0, s') \<and>
      x_dev s' = fst (blk_write P (x_dev s) ?lba new) \<and>
      sb_of s' = sb_of s\<lparr>s_free_blocks_count := s_free_blocks_count (sb_of s) + (if taken then - 1 else 1)\<rparr>"
    using assms(7) by (simp add: s3)
  then show "\<exists>s' new. ext2_change_allocated P block allocated for_directory s = Some (0, s') \<and>
        length new = 512 \<and> x_dev s' = fst (blk_write P (x_dev s) ?lba new) \<and>
        (\<forall>n<4096. bitmap_bit new n = (if n = unat off mod 4096 then taken else bitmap_bit ?old n)) \<and>
        sb_of s' = sb_of s\<lparr>s_free_blocks_count :=
          s_free_blocks_count (sb_of s) + (if taken then - 1 else 1)\<rparr>"
    using bits by (intro exI [of _ s'] exI [of _ new]) blast
qed

end

section \<open>Properties\<close>

text \<open>The block and its place, on a volume where the driver's tables can be read.\<close>

definition ext_ready :: "pc_dev estate \<Rightarrow> u32 \<Rightarrow> u32 \<Rightarrow> u32 \<Rightarrow> bool" where
  "ext_ready s block grp off \<longleftrightarrow>
    s_blocks_per_group (sb_of s) \<noteq> 0 \<and> grp = block div s_blocks_per_group (sb_of s) \<and>
    off = block mod s_blocks_per_group (sb_of s) \<and>
    grp < x_num_blockgroups (x_context s) \<and> (\<forall>b\<in>table_blocks s grp. pc_ok (x_dev s) b) \<and>
    pc_ok (x_dev s) (unshifted_bitmap_block pc_view s grp off)"

text \<open>
  C22: Allocating or freeing a block flips the bit its offset in the group selects, in the disk block whose number is the descriptor's
  \<open>bg_block_bitmap\<close>, without the shift from blocks of the volume to disk blocks, so in general not in
  the volume's bitmap. Every other bit of that block and every other block of the disk keep what they
  hold: the volume's bitmap, when it is elsewhere, and all copies of the group's descriptor, against
  the comment that has them stored. The superblock's count of free blocks follows, in memory.
\<close>

theorem change_allocated_flips_bit:
  assumes "ext_ready s block grp off"
    and "bitmap_bit (pc_view (x_dev s) (unshifted_bitmap_block pc_view s grp off)) (unat off mod 4096) \<noteq> taken"
  shows "\<exists>s'. ext2_change_allocated (pc_platform clk junk) block (if taken then 1 else 0) dir s = Some (0, s') \<and>
    (\<forall>n<4096. bitmap_bit (pc_view (x_dev s') (unshifted_bitmap_block pc_view s grp off)) n =
      (if n = unat off mod 4096 then taken else bitmap_bit (pc_view (x_dev s) (unshifted_bitmap_block pc_view s grp off)) n)) \<and>
    (\<forall>b. pc_ok (x_dev s) b \<longrightarrow> b \<noteq> unshifted_bitmap_block pc_view s grp off \<longrightarrow>
      pc_view (x_dev s') b = pc_view (x_dev s) b) \<and>
    (pc_ok (x_dev s) (volume_bitmap_block pc_view s grp off) \<longrightarrow>
      volume_bitmap_block pc_view s grp off \<noteq> unshifted_bitmap_block pc_view s grp off \<longrightarrow>
      pc_view (x_dev s') (volume_bitmap_block pc_view s grp off) =
        pc_view (x_dev s) (volume_bitmap_block pc_view s grp off)) \<and>
    s_free_blocks_count (sb_of s') = s_free_blocks_count (sb_of s) + (if taken then - 1 else 1)"
proof -
  let ?lba = "unshifted_bitmap_block pc_view s grp off"
  have ok: "pc_ok (x_dev s) ?lba" using assms(1) unfolding ext_ready_def by blast
  obtain s' new where s': "ext2_change_allocated (pc_platform clk junk) block (if taken then 1 else 0) dir s = Some (0, s')"
    "length new = 512" "x_dev s' = fst (blk_write (pc_platform clk junk) (x_dev s) ?lba new)"
    "\<forall>n<4096. bitmap_bit new n = (if n = unat off mod 4096 then taken else bitmap_bit (pc_view (x_dev s) ?lba) n)"
    "sb_of s' = sb_of s\<lparr>s_free_blocks_count := s_free_blocks_count (sb_of s) + (if taken then - 1 else 1)\<rparr>"
    using pc.change_allocated_ok(2) [OF _ _ _ _ _ ok refl assms(2), of block clk junk dir] assms(1)
    unfolding ext_ready_def by blast
  have "pc_ok (x_dev s) b \<Longrightarrow> pc_view (x_dev s') b = (if b = ?lba then new else pc_view (x_dev s) b)" for b
    unfolding s'(3) using pc.write_view [OF ok s'(2)] by simp
  then show ?thesis using s' ok by auto
qed

text \<open>
  C23: When the bit of a block in the disk block with the number \<open>bg_block_bitmap\<close>, the one the driver
  reads in place of the volume's bitmap, has the wanted value already, the call fails and leaves the
  disk and the superblock in memory as they are.
\<close>

theorem change_allocated_refused:
  assumes "ext_ready s block grp off"
    and "bitmap_bit (pc_view (x_dev s) (unshifted_bitmap_block pc_view s grp off)) (unat off mod 4096) = taken"
  shows "\<exists>s'. ext2_change_allocated (pc_platform clk junk) block (if taken then 1 else 0) dir s = Some (- 1, s') \<and>
    x_dev s' = x_dev s \<and> sb_of s' = sb_of s"
proof -
  have ok: "pc_ok (x_dev s) (unshifted_bitmap_block pc_view s grp off)" using assms(1) unfolding ext_ready_def by blast
  obtain buf where "ext2_change_allocated (pc_platform clk junk) block (if taken then 1 else 0) dir s =
      Some (- 1, upd_ctx (\<lambda>c. c\<lparr>x_sysbuf := buf\<rparr>) s)"
    using pc.change_allocated_ok(1) [OF _ _ _ _ _ ok refl assms(2), of block clk junk dir] assms(1)
    unfolding ext_ready_def by blast
  then show ?thesis by simp
qed

end
