(* ===== verification/Ext_File.thy ===== *)
theory Ext_File
  imports Ext_Alloc
begin

text \<open>
  The file operations of embext.c: the inode of a file (\<open>ext2_open_inode\<close>, \<open>ext2_flush_inode\<close>), the
  cursor (\<open>ext2_flush\<close>, \<open>ext2_next_block\<close>, \<open>ext2_next_sector\<close>), \<open>ext2_read\<close>, \<open>ext2_write\<close>,
  \<open>ext2_lseek\<close>, \<open>ext2_fstat\<close>, \<open>ext2_isatty\<close>, \<open>ext2_readdir\<close>, \<open>ext2_lookup_path\<close>, \<open>ext2_open\<close> and
  \<open>ext2_close\<close>. A result is the return code with the value of \<open>rerrno\<close>, the file and the state;
  the operations a client calls take the pointer to the file as an option.
\<close>

section \<open>Model\<close>

subsection \<open>Flushing and inodes\<close>

definition ext2_flush :: "'d platform \<Rightarrow> file_ent \<Rightarrow> 'd estate \<Rightarrow> int \<times> file_ent \<times> 'd estate" where
  "ext2_flush P fe s =
    (if has (e_flags fe) EXT2_FLAG_DIRTY then
       if e_sector fe = 0 then (0, fe, s)
       else
         (case ent_write P (e_sector fe) fe s of (rc, s1) \<Rightarrow>
            if rc \<noteq> 0 then (- 1, fe, s1)
            else (0, fe\<lparr>e_flags := e_flags fe AND NOT EXT2_FLAG_DIRTY\<rparr>, s1))
     else (0, fe, s))"

text \<open>
  The sector of an inode and its offset there, as \<open>ext2_open_inode\<close> and \<open>ext2_flush_inode\<close> compute
  them; the descriptor of the group goes through the system buffer.
\<close>

definition locate_inode :: "'d platform \<Rightarrow> u32 \<Rightarrow> 'd estate \<Rightarrow> ((blockno \<times> nat) \<times> 'd estate) option" where
  "locate_inode P ino s =
    do {
      block_group \<leftarrow> div32 (ino - 1) (s_inodes_per_group (sb_of s));
      inode_index \<leftarrow> mod32 (ino - 1) (s_inodes_per_group (sb_of s));
      let c = x_context s;
          s1 = ctx_read P (to_lba (x_superblock c) (x_superblock_block c + 1) + block_group * 32 div 512 +
                 x_part_start c) s;
          bg = bg_of (slice (unat (block_group * 32 mod 512)) 20 (x_sysbuf (x_context s1)));
          size = ucast (s_inode_size (x_superblock c)) in
      do {
        per_sector \<leftarrow> div32 512 size;
        sector \<leftarrow> div32 inode_index per_sector;
        slot \<leftarrow> mod32 inode_index per_sector;
        Some ((to_lba (x_superblock c) (bg_inode_table bg) + sector + x_part_start c,
               unat (slot * size)), s1) } }"

definition ext2_flush_inode ::
  "'d platform \<Rightarrow> file_ent \<Rightarrow> 'd estate \<Rightarrow> (int \<times> file_ent \<times> 'd estate) option" where
  "ext2_flush_inode P fe s =
    do {
      _ \<leftarrow> div32 (e_inode_number fe - 1) (s_inodes_per_group (sb_of s));
      if has (e_flags fe) EXT2_FLAG_FS_DIRTY then
        (case ext2_flush P fe s of (_, fe1, s1) \<Rightarrow>
           do {
             ((lba, off), s2) \<leftarrow> locate_inode P (e_inode_number fe1) s1;
             let s3 = ctx_read P lba s2 in
             do {
               buf \<leftarrow> copy_to (x_sysbuf (x_context s3)) off (inode_bytes (e_inode fe1));
               let s4 = ctx_write P lba (upd_ctx (\<lambda>c. c\<lparr>x_sysbuf := buf\<rparr>) s3) in
               Some (0, fe1\<lparr>e_flags := e_flags fe1 AND NOT EXT2_FLAG_FS_DIRTY\<rparr>, s4) } })
      else Some (0, fe, s) }"

text \<open>The first sector of the file and the structure that stands on it.\<close>

definition first_sector :: "'d estate \<Rightarrow> inode \<Rightarrow> blockno" where
  "first_sector s i = to_lba (sb_of s) (i_block i ! 0) + part_of s"

definition enter_inode :: "'d estate \<Rightarrow> u32 \<Rightarrow> file_ent \<Rightarrow> file_ent" where
  "enter_inode s ino fe =
    fe\<lparr>e_inode_number := ino, e_flags := EXT2_FLAG_READ, e_cursor := 0,
       e_sector := first_sector s (e_inode fe), e_file_sector := 0,
       e_sectors_left := shl32 1 (s_log_block_size (sb_of s) + 1) - 1, e_block_index := [0, 0, 0]\<rparr>"

definition ext2_open_inode ::
  "'d platform \<Rightarrow> u32 \<Rightarrow> file_ent \<Rightarrow> 'd estate \<Rightarrow> (file_ent \<times> 'd estate) option" where
  "ext2_open_inode P ino fe s =
    do {
      ((lba, off), s1) \<leftarrow> locate_inode P ino s;
      let s2 = ctx_read P lba s1 in
      do {
        bytes \<leftarrow> copy_from (x_sysbuf (x_context s2)) off 128;
        let fe1 = fe\<lparr>e_inode := inode_of bytes\<rparr> in
        (case ent_read P (first_sector s2 (e_inode fe1)) fe1 s2 of (_, fe2, s3) \<Rightarrow>
           Some (enter_inode s3 ino fe2, s3)) } }"

subsection \<open>The cursor\<close>

text \<open>\<open>ext2_next_block\<close>: the twelve direct blocks only.\<close>

definition enter_block :: "'d estate \<Rightarrow> file_ent \<Rightarrow> file_ent" where
  "enter_block s fe =
    fe\<lparr>e_sectors_left := shl32 1 (10 + s_log_block_size (sb_of s)) div 512 - 1,
       e_sector := to_lba (sb_of s) (i_block (e_inode fe) ! unat (e_block_index fe ! 0)) + part_of s,
       e_cursor := 0, e_file_sector := e_file_sector fe + 1\<rparr>"

definition ext2_next_block ::
  "'d platform \<Rightarrow> file_ent \<Rightarrow> 'd estate \<Rightarrow> int \<times> file_ent \<times> 'd estate" where
  "ext2_next_block P fe s =
    (if e_block_index fe ! 0 < 11 then
       let fe1 = fe\<lparr>e_block_index := (e_block_index fe)[0 := e_block_index fe ! 0 + 1]\<rparr> in
       if i_block (e_inode fe1) ! unat (e_block_index fe1 ! 0) > 0 then
         let fe2 = enter_block s fe1 in ent_read P (e_sector fe2) fe2 s
       else (1, fe1, s)
     else (1, fe, s))"

definition ext2_next_sector ::
  "'d platform \<Rightarrow> file_ent \<Rightarrow> 'd estate \<Rightarrow> int \<times> file_ent \<times> 'd estate" where
  "ext2_next_sector P fe s =
    (if e_sectors_left fe > 0 then
       (case ent_read P (e_sector fe + 1) (fe\<lparr>e_sector := e_sector fe + 1\<rparr>) s of (_, fe1, s1) \<Rightarrow>
          (0, fe1\<lparr>e_sectors_left := e_sectors_left fe1 - 1, e_cursor := 0,
                  e_file_sector := e_file_sector fe1 + 1\<rparr>, s1))
     else ext2_next_block P fe s)"

definition ext2_update_atime :: "'d platform \<Rightarrow> file_ent \<Rightarrow> 'd estate \<Rightarrow> file_ent \<times> 'd estate" where
  "ext2_update_atime P fe s =
    (case ext_now P s of (t, s1) \<Rightarrow>
       (fe\<lparr>e_inode := (e_inode fe)\<lparr>i_atime := t\<rparr>, e_flags := e_flags fe OR EXT2_FLAG_FS_DIRTY\<rparr>, s1))"

definition ext2_update_mtime :: "'d platform \<Rightarrow> file_ent \<Rightarrow> 'd estate \<Rightarrow> file_ent \<times> 'd estate" where
  "ext2_update_mtime P fe s =
    (case ext_now P s of (t, s1) \<Rightarrow>
       (fe\<lparr>e_inode := (e_inode fe)\<lparr>i_mtime := t\<rparr>, e_flags := e_flags fe OR EXT2_FLAG_FS_DIRTY\<rparr>, s1))"

text \<open>The position of the cursor in the file.\<close>

definition ext_pos :: "file_ent \<Rightarrow> u32" where
  "ext_pos fe = e_cursor fe + e_file_sector fe * 512"

subsection \<open>Reading\<close>

text \<open>
  The loop of \<open>ext2_read\<close>: \<open>k\<close> bytes are still wanted. The result of \<open>ext2_next_sector\<close> is not
  looked at; after a failure the cursor stays behind the buffer, and the next byte is read from
  outside it (\<open>None\<close>).
\<close>

primrec ext_read_loop ::
  "'d platform \<Rightarrow> nat \<Rightarrow> file_ent \<Rightarrow> 'd estate \<Rightarrow> (byte list \<times> file_ent \<times> 'd estate) option" where
  "ext_read_loop P 0 fe s = Some ([], fe, s)"
| "ext_read_loop P (Suc k) fe s =
    (if ext_pos fe \<ge> i_size (e_inode fe) then Some ([], fe, s)
     else if unat (e_cursor fe) \<ge> 512 then None
     else
       let b = e_buffer fe ! unat (e_cursor fe);
           fe1 = fe\<lparr>e_cursor := e_cursor fe + 1\<rparr> in
       (case (if e_cursor fe1 = 512 then snd (ext2_next_sector P fe1 s) else (fe1, s)) of (fe2, s2) \<Rightarrow>
          do { (bs, fe3, s3) \<leftarrow> ext_read_loop P k fe2 s2; Some (b # bs, fe3, s3) }))"

text \<open>\<open>ext2_read\<close> of an open file: the number of bytes as an \<open>int\<close>, and the bytes.\<close>

definition ext_read_file ::
  "'d platform \<Rightarrow> nat \<Rightarrow> file_ent \<Rightarrow> 'd estate \<Rightarrow> ((int \<times> byte list) \<times> file_ent \<times> 'd estate) option" where
  "ext_read_file P count fe s =
    do {
      (bs, fe1, s1) \<leftarrow> ext_read_loop P count fe s;
      (case (if bs \<noteq> [] then ext2_update_atime P fe1 s1 else (fe1, s1)) of (fe2, s2) \<Rightarrow>
         Some ((sint (of_nat (length bs) :: u32), bs), fe2, s2)) }"

definition ext2_read ::
  "'d platform \<Rightarrow> file_ent option \<Rightarrow> u32 \<Rightarrow> int \<Rightarrow> 'd estate \<Rightarrow>
    ((int \<times> int \<times> byte list) \<times> file_ent option \<times> 'd estate) option" where
  "ext2_read P fo count e s =
    (case fo of
       None \<Rightarrow> Some ((- 1, EBADF, []), None, s)
     | Some fe \<Rightarrow> do {
         ((n, bs), fe1, s1) \<leftarrow> ext_read_file P (unat count) fe s;
         Some ((n, e, bs), Some fe1, s1) })"

subsection \<open>Seeking\<close>

definition ext_lseek_target :: "file_ent \<Rightarrow> int \<Rightarrow> int \<Rightarrow> u32" where
  "ext_lseek_target fe ptr dir =
    (if dir = SEEK_SET then word_of_int ptr
     else if dir = SEEK_CUR then e_file_sector fe * 512 + e_cursor fe + word_of_int ptr
     else i_size (e_inode fe) + word_of_int ptr)"

text \<open>Case 2: another sector of the same block.\<close>

definition seek_in_block :: "u32 \<Rightarrow> u32 \<Rightarrow> file_ent \<Rightarrow> file_ent" where
  "seek_in_block new_pos old_pos fe =
    fe\<lparr>e_file_sector := new_pos div 512,
       e_sector := e_sector fe + new_pos div 512 - old_pos div 512,
       e_sectors_left := e_sectors_left fe + new_pos div 512 - old_pos div 512,
       e_cursor := new_pos mod 512\<rparr>"

text \<open>Otherwise the block is looked up; \<open>block\<close> is at most 11.\<close>

definition seek_block :: "'d estate \<Rightarrow> u32 \<Rightarrow> u32 \<Rightarrow> file_ent \<Rightarrow> file_ent" where
  "seek_block s new_pos block fe =
    (let new_sec = (new_pos - block * shl32 1 (s_log_block_size (sb_of s) + 10)) div 512 in
     fe\<lparr>e_block_index := (e_block_index fe)[0 := block],
        e_file_sector := new_pos div 512, e_cursor := new_pos mod 512,
        e_sector := i_block (e_inode fe) ! unat block * shl32 1 (s_log_block_size (sb_of s) + 1) +
          part_of s + new_sec,
        e_sectors_left := shl32 1 (s_log_block_size (sb_of s) + 1) - new_sec - 1\<rparr>)"

definition ext_lseek_file ::
  "'d platform \<Rightarrow> file_ent \<Rightarrow> int \<Rightarrow> int \<Rightarrow> 'd estate \<Rightarrow> (int \<times> file_ent \<times> 'd estate) option" where
  "ext_lseek_file P fe ptr dir s =
    (let old_pos = e_file_sector fe * 512 + e_cursor fe; new_pos = ext_lseek_target fe ptr dir;
         block_size = shl32 1 (s_log_block_size (sb_of s) + 10) in
     if old_pos = new_pos then Some (sint old_pos, fe, s)
     else if new_pos > i_size (e_inode fe) then Some (ptr - 1, fe, s)
     else if old_pos div 512 = new_pos div 512 then
       Some (sint new_pos, fe\<lparr>e_cursor := new_pos mod 512\<rparr>, s)
     else do {
       new_block \<leftarrow> div32 new_pos block_size;
       old_block \<leftarrow> div32 old_pos block_size;
       (case ext2_flush P fe s of (_, fe1, s1) \<Rightarrow>
          if new_block = old_block then
            let fe2 = seek_in_block new_pos old_pos fe1 in
            (case ent_read P (e_sector fe2) fe2 s1 of (rc, fe3, s2) \<Rightarrow>
               if rc \<noteq> 0 then Some (ptr - 1, fe3, s2) else Some (sint new_pos, fe3, s2))
          else if new_block > 11 then Some (ptr - 1, fe1, s1)
          else
            let fe2 = seek_block s1 new_pos new_block fe1 in
            (case ent_read P (e_sector fe2) fe2 s1 of (rc, fe3, s2) \<Rightarrow>
               if rc \<noteq> 0 then Some (ptr - 1, fe3, s2) else Some (sint new_pos, fe3, s2))) })"

definition ext2_lseek ::
  "'d platform \<Rightarrow> file_ent option \<Rightarrow> int \<Rightarrow> int \<Rightarrow> 'd estate \<Rightarrow>
    ((int \<times> int) \<times> file_ent option \<times> 'd estate) option" where
  "ext2_lseek P fo ptr dir s =
    (case fo of
       None \<Rightarrow> Some ((ptr - 1, EBADF), None, s)
     | Some fe \<Rightarrow> do {
         (r, fe1, s1) \<leftarrow> ext_lseek_file P fe ptr dir s;
         Some ((r, 0), Some fe1, s1) })"

subsection \<open>Writing\<close>

definition ext_put_byte :: "byte \<Rightarrow> file_ent \<Rightarrow> file_ent" where
  "ext_put_byte b fe =
    (let fe1 = (if ext_pos fe = i_size (e_inode fe)
                then fe\<lparr>e_inode := (e_inode fe)\<lparr>i_size := i_size (e_inode fe) + 1\<rparr>,
                        e_flags := e_flags fe OR EXT2_FLAG_DIRTY\<rparr>
                else fe) in
     fe1\<lparr>e_buffer := (e_buffer fe1)[unat (e_cursor fe1) := b], e_cursor := e_cursor fe1 + 1\<rparr>)"

text \<open>The loop of \<open>ext2_write\<close>; the flag says whether all bytes were taken.\<close>

primrec ext_write_loop ::
  "'d platform \<Rightarrow> byte list \<Rightarrow> file_ent \<Rightarrow> 'd estate \<Rightarrow> (bool \<times> file_ent \<times> 'd estate) option" where
  "ext_write_loop P [] fe s = Some (True, fe, s)"
| "ext_write_loop P (b # bs) fe s =
    (if unat (e_cursor fe) \<ge> 512 then None
     else
       let fe1 = ext_put_byte b fe in
       (case (if e_cursor fe1 = 512 then ext2_next_sector P fe1 s else (0, fe1, s)) of (rc, fe2, s2) \<Rightarrow>
          if rc \<noteq> 0 then Some (False, fe2, s2) else ext_write_loop P bs fe2 s2))"

definition ext2_write ::
  "'d platform \<Rightarrow> file_ent option \<Rightarrow> byte list \<Rightarrow> int \<Rightarrow> 'd estate \<Rightarrow>
    ((int \<times> int) \<times> file_ent option \<times> 'd estate) option" where
  "ext2_write P fo data e s =
    (case fo of
       None \<Rightarrow> Some ((- 1, EBADF), None, s)
     | Some fe \<Rightarrow>
         if \<not> has (e_flags fe) EXT2_FLAG_WRITE then Some ((- 1, EBADF), Some fe, s)
         else do {
           (r, e1, fe1, s1) \<leftarrow>
             (if has (e_flags fe) EXT2_FLAG_APPEND then do {
                (r, fe1, s1) \<leftarrow> ext_lseek_file P fe 0 SEEK_END s;
                Some (r, 0, fe1, s1) }
              else Some (0, e, fe, s));
           if has (e_flags fe) EXT2_FLAG_APPEND \<and> r = - 1 then Some ((- 1, e1), Some fe1, s1)
           else do {
             (all_taken, fe2, s2) \<leftarrow> ext_write_loop P data fe1 s1;
             if \<not> all_taken then Some ((- 1, EIO), Some fe2, s2)
             else
               (case (if data \<noteq> [] then ext2_update_mtime P fe2 s2 else (fe2, s2)) of (fe3, s3) \<Rightarrow>
                  Some ((sint (of_nat (length data) :: u32), e1), Some fe3, s3)) } })"

subsection \<open>Status\<close>

definition ext_stat_of :: "superblock \<Rightarrow> file_ent \<Rightarrow> stat option" where
  "ext_stat_of sb fe =
    (let i = e_inode fe; block_size = shl32 1 (s_log_block_size sb + 10) in
     do {
       n \<leftarrow> div32 (i_size i) block_size;
       r \<leftarrow> mod32 (i_size i) block_size;
       Some \<lparr>st_dev = 0, st_ino = unat (e_inode_number fe), st_mode = ucast (i_mode i),
         st_nlink = unat (i_links_count i), st_uid = unat (i_uid i), st_gid = unat (i_gid i),
         st_rdev = 0, st_size = i_size i, st_atime = uint (i_atime i), st_mtime = uint (i_mtime i),
         st_ctime = uint (i_ctime i), st_blksize = unat block_size,
         st_blocks = unat n + (if r \<noteq> 0 then 1 else 0)\<rparr> })"

definition ext2_fstat :: "file_ent option \<Rightarrow> 'd estate \<Rightarrow> (int \<times> int \<times> stat option) option" where
  "ext2_fstat fo s =
    (case fo of
       None \<Rightarrow> Some (- 1, EBADF, None)
     | Some fe \<Rightarrow> do { st \<leftarrow> ext_stat_of (sb_of s) fe; Some (0, 0, Some st) })"

definition ext2_isatty :: "file_ent option \<Rightarrow> int \<times> int" where
  "ext2_isatty fo = (0, if fo = None then EBADF else ENOTTY)"

subsection \<open>Directories\<close>

text \<open>
  \<open>ext2_readdir\<close> fills the static \<open>struct dirent\<close> by four short reads, reads the name and seeks to
  the next entry. An entry whose inode is 0 ends the listing.
\<close>

definition put_ino :: "byte list \<Rightarrow> dirent \<Rightarrow> dirent" where
  "put_ino bs de = de\<lparr>d_ino := splice (d_ino de) 0 bs\<rparr>"

definition put_name :: "byte list \<Rightarrow> nat \<Rightarrow> dirent \<Rightarrow> dirent" where
  "put_name bs name_len de = de\<lparr>d_name := (splice (d_name de) 0 bs)[name_len := 0]\<rparr>"

definition upd_dirent :: "(dirent \<Rightarrow> dirent) \<Rightarrow> 'd estate \<Rightarrow> 'd estate" where
  "upd_dirent g s = s\<lparr>x_dirent := g (x_dirent s)\<rparr>"

definition dirent_ino :: "dirent \<Rightarrow> u32" where
  "dirent_ino de = get32 (d_ino de) 0"

definition ext_readdir_file ::
  "'d platform \<Rightarrow> int \<Rightarrow> file_ent \<Rightarrow> 'd estate \<Rightarrow>
    ((dirent option \<times> int) \<times> file_ent \<times> 'd estate) option" where
  "ext_readdir_file P e fe s =
    do {
      ((_, ino), fe1, s1) \<leftarrow> ext_read_file P 4 fe s;
      let s1 = upd_dirent (put_ino ino) s1 in
      if length ino < 4 then Some ((None, e), fe1, s1)
      else do {
        ((_, rec), fe2, s2) \<leftarrow> ext_read_file P 2 fe1 s1;
        if length rec < 2 then Some ((None, e), fe2, s2)
        else do {
          ((_, len), fe3, s3) \<leftarrow> ext_read_file P 1 fe2 s2;
          if length len < 1 then Some ((None, e), fe3, s3)
          else do {
            ((_, type), fe4, s4) \<leftarrow> ext_read_file P 1 fe3 s3;
            if length type < 1 then Some ((None, e), fe4, s4)
            else if sint (dirent_ino (x_dirent s4)) > 0 then
              let name_len = unat (hd len) in
              do {
                ((_, name), fe5, s5) \<leftarrow> ext_read_file P name_len fe4 s4;
                let s5 = upd_dirent (put_name name name_len) s5 in
                do {
                  (_, fe6, s6) \<leftarrow> ext_lseek_file P fe5
                    (uint (get16 rec 0) - 8 - int name_len) SEEK_CUR s5;
                  Some ((Some (x_dirent s6), 0), fe6, s6) } }
            else Some ((None, e), fe4, s4) } } } }"

definition ext2_readdir ::
  "'d platform \<Rightarrow> file_ent option \<Rightarrow> int \<Rightarrow> 'd estate \<Rightarrow>
    ((dirent option \<times> int) \<times> file_ent option \<times> 'd estate) option" where
  "ext2_readdir P fo e s =
    (case fo of
       None \<Rightarrow> Some ((None, EBADF), None, s)
     | Some fe \<Rightarrow> do {
         (r, fe1, s1) \<leftarrow> ext_readdir_file P e fe s;
         Some (r, Some fe1, s1) })"

text \<open>The search for a name, which need not end: a record length may lead back to an earlier entry.\<close>

partial_function (option) find_name ::
  "'d platform \<Rightarrow> byte list \<Rightarrow> int \<Rightarrow> file_ent \<Rightarrow> 'd estate \<Rightarrow>
    ((u32 option \<times> int) \<times> file_ent \<times> 'd estate) option" where
  "find_name P name e fe s =
    do {
      ((de, e1), fe1, s1) \<leftarrow> ext_readdir_file P e fe s;
      (case de of
         None \<Rightarrow> Some ((None, e1), fe1, s1)
       | Some de \<Rightarrow>
           if cstr (d_name de) = name then Some ((Some (dirent_ino de), e1), fe1, s1)
           else find_name P name e1 fe1 s1) }"

primrec ext_walk ::
  "'d platform \<Rightarrow> byte list list \<Rightarrow> u32 \<Rightarrow> int \<Rightarrow> file_ent \<Rightarrow> 'd estate \<Rightarrow>
    ((int \<times> int) \<times> file_ent \<times> 'd estate) option" where
  "ext_walk P [] ino e fe s =
    do { (fe1, s1) \<leftarrow> ext2_open_inode P ino fe s; Some ((0, e), fe1, s1) }"
| "ext_walk P (name # names) ino e fe s =
    do {
      (fe1, s1) \<leftarrow> ext2_open_inode P ino fe s;
      ((found, e2), fe2, s2) \<leftarrow> find_name P name e fe1 s1;
      (case found of
         None \<Rightarrow> Some ((- 1, ENOENT), fe2, s2)
       | Some ino' \<Rightarrow> ext_walk P names ino' e2 fe2 s2) }"

text \<open>\<open>char local_path[MAX_PATH_LEN]\<close> and \<open>char *elements[MAX_PATH_LEVELS]\<close>.\<close>

definition ext2_lookup_path ::
  "'d platform \<Rightarrow> byte list \<Rightarrow> int \<Rightarrow> file_ent \<Rightarrow> 'd estate \<Rightarrow>
    ((int \<times> int) \<times> file_ent \<times> 'd estate) option" where
  "ext2_lookup_path P path e fe s = ext_walk P (take 100 (tokens (take 1023 path))) EXT2_ROOT_INO e fe s"

subsection \<open>Opening and closing\<close>

text \<open>\<open>memset(fe, 0, sizeof(struct file_ent))\<close>.\<close>

definition zero_ent :: file_ent where
  "zero_ent =
    \<lparr>e_flags = 0, e_cursor = 0, e_inode_number = 0, e_sector = 0, e_file_sector = 0,
     e_sectors_left = 0, e_block_index = [0, 0, 0], e_buffer = replicate 512 0,
     e_inode = inode_of (replicate 128 0)\<rparr>"

definition ext_open_flags :: "u32 \<Rightarrow> u32 \<Rightarrow> u32" where
  "ext_open_flags flags g =
    (let g1 = (if has flags O_RDWR then g OR (EXT2_FLAG_READ OR EXT2_FLAG_WRITE)
               else if flags AND O_WRONLY = 0 then g OR EXT2_FLAG_READ
               else g OR EXT2_FLAG_WRITE) in
     if has flags O_APPEND then g1 OR EXT2_FLAG_APPEND else g1)"

text \<open>\<open>malloc_ok\<close> says whether there is memory for the structure; \<open>mode\<close> is not looked at.\<close>

definition ext2_open ::
  "'d platform \<Rightarrow> bool \<Rightarrow> byte list \<Rightarrow> u32 \<Rightarrow> int \<Rightarrow> int \<Rightarrow> 'd estate \<Rightarrow>
    ((file_ent option \<times> int) \<times> 'd estate) option" where
  "ext2_open P malloc_ok name flags mode e s =
    (if \<not> malloc_ok then Some ((None, ENOMEM), s)
     else do {
       ((i, e1), fe1, s1) \<leftarrow> ext2_lookup_path P name e zero_ent s;
       let fe2 = fe1\<lparr>e_flags := ext_open_flags flags (e_flags fe1)\<rparr> in
       if i = - 1 \<and> e1 = ENOENT then
         if flags AND O_CREAT = 0 then Some ((None, ENOENT), s1)
         else if x_read_only (x_context s1) \<noteq> 0 then Some ((None, EROFS), s1)
         else Some ((None, e1), s1)
       else if i = 0 then
         if has flags (O_CREAT OR O_EXCL) then Some ((None, EEXIST), s1)
         else if flags AND (O_WRONLY OR O_RDWR) = 0 then
           Some ((Some (fe2\<lparr>e_file_sector := 0\<rparr>), e1), s1)
         else if x_read_only (x_context s1) \<noteq> 0 then Some ((None, EROFS), s1)
         else if has (i_mode (e_inode fe2)) EXT2_S_IFDIR then Some ((None, EISDIR), s1)
         else if has flags O_TRUNC then Some ((None, e1), s1)
         else Some ((Some (fe2\<lparr>e_file_sector := 0\<rparr>), e1), s1)
       else Some ((None, e1), s1) })"

definition ext2_close ::
  "'d platform \<Rightarrow> file_ent option \<Rightarrow> int \<Rightarrow> 'd estate \<Rightarrow> ((int \<times> int) \<times> 'd estate) option" where
  "ext2_close P fo e s =
    (case fo of
       None \<Rightarrow> Some ((- 1, EBADF), s)
     | Some fe \<Rightarrow>
         (case (if has (e_flags fe) EXT2_FLAG_DIRTY then ext2_flush P fe s else (0, fe, s)) of
            (rc, fe1, s1) \<Rightarrow>
              if rc \<noteq> 0 then Some ((- 1, EIO), s1)
              else do {
                (rc', _, s2) \<leftarrow> (if has (e_flags fe1) EXT2_FLAG_FS_DIRTY then ext2_flush_inode P fe1 s1
                               else Some (0, fe1, s1));
                if rc' \<noteq> 0 then Some ((- 1, EIO), s2) else Some ((0, e), s2) }))"

end
