(* ===== verification/Ext_Read.thy ===== *)
theory Ext_Read
  imports Ext_File Fat_Read
begin

text \<open>
  What reading an ext2 file delivers: the bytes of its direct blocks, in order, up to the size in
  the inode. The theorems follow the cursor through \<open>ext2_next_sector\<close>, the loop of \<open>ext2_read\<close>,
  \<open>ext2_lseek\<close> and \<open>ext2_readdir\<close>.
\<close>

section \<open>The bytes of a file\<close>

text \<open>Sectors in a block, and the disk block of the \<open>q\<close>-th sector of a file.\<close>

definition spb :: "'d estate \<Rightarrow> nat" where
  "spb s = 2 ^ (unat (s_log_block_size (sb_of s)) + 1)"

definition ext_lba :: "'d estate \<Rightarrow> inode \<Rightarrow> nat \<Rightarrow> blockno" where
  "ext_lba s i q = to_lba (sb_of s) (i_block i ! (q div spb s)) + part_of s + of_nat (q mod spb s)"

text \<open>
  A file in its first \<open>nb\<close> direct blocks: they are mapped and exist on the disk, and the next one is
  not mapped.
\<close>

definition direct_file :: "('d \<Rightarrow> blockno \<Rightarrow> bool) \<Rightarrow> 'd estate \<Rightarrow> inode \<Rightarrow> nat \<Rightarrow> bool" where
  "direct_file ok s i nb \<longleftrightarrow>
    unat (s_log_block_size (sb_of s)) \<le> 16 \<and> nb \<le> 12 \<and> (nb = 12 \<or> i_block i ! nb = 0) \<and>
    (\<forall>b<nb. i_block i ! b \<noteq> 0) \<and> (\<forall>q<nb * spb s. ok (x_dev s) (ext_lba s i q)) \<and>
    unat (i_size i) \<le> 512 * (nb * spb s)"

definition ext_bytes :: "('d \<Rightarrow> blockno \<Rightarrow> sector) \<Rightarrow> 'd estate \<Rightarrow> inode \<Rightarrow> nat \<Rightarrow> byte list" where
  "ext_bytes view s i nb =
    take (unat (i_size i)) (concat (map (\<lambda>q. view (x_dev s) (ext_lba s i q)) [0..<nb * spb s]))"

text \<open>The file structure stands on sector \<open>q\<close>, and its countdown is right.\<close>

definition ext_on :: "('d \<Rightarrow> blockno \<Rightarrow> sector) \<Rightarrow> 'd estate \<Rightarrow> nat \<Rightarrow> nat \<Rightarrow> file_ent \<Rightarrow> bool" where
  "ext_on view s nb q fe \<longleftrightarrow>
    q < nb * spb s \<and> length (e_block_index fe) = 3 \<and> e_block_index fe ! 0 = of_nat (q div spb s) \<and>
    e_file_sector fe = of_nat q \<and> e_sector fe = ext_lba s (e_inode fe) q \<and>
    e_buffer fe = view (x_dev s) (ext_lba s (e_inode fe) q)"

definition left_ok :: "'d estate \<Rightarrow> nat \<Rightarrow> file_ent \<Rightarrow> bool" where
  "left_ok s q fe \<longleftrightarrow> unat (e_sectors_left fe) = spb s - 1 - q mod spb s"

text \<open>What moving the cursor leaves alone.\<close>

definition same_ent :: "file_ent \<Rightarrow> file_ent \<Rightarrow> bool" where
  "same_ent fe fe' \<longleftrightarrow> e_inode fe' = e_inode fe \<and> e_flags fe' = e_flags fe \<and>
    e_inode_number fe' = e_inode_number fe"

lemma spb_bounds:
  assumes "direct_file ok s i nb"
  shows "2 \<le> spb s" "spb s \<le> 2 ^ 17" "nb * spb s \<le> 12 * 2 ^ 17"
proof -
  have log: "unat (s_log_block_size (sb_of s)) \<le> 16" and nb: "nb \<le> 12"
    using assms by (simp_all add: direct_file_def)
  have "(2 :: nat) ^ 1 \<le> spb s" unfolding spb_def by (rule power_increasing) simp_all
  then show "2 \<le> spb s" by simp
  show le: "spb s \<le> 2 ^ 17" unfolding spb_def by (rule power_increasing) (use log in simp_all)
  show "nb * spb s \<le> 12 * 2 ^ 17" using nb le by (rule mult_le_mono)
qed

lemma unat_shl32:
  assumes "unat n < 32"
  shows "unat (shl32 1 n) = 2 ^ unat n"
proof -
  have "shl32 1 n = of_nat (2 ^ unat n)" by (simp add: shl32_def)
  moreover have "(2 :: nat) ^ unat n < 2 ^ 32" using assms by (rule power_strict_increasing) simp
  ultimately show ?thesis by (simp only: unat_of_nat32)
qed

lemma shl32_spb:
  assumes "direct_file ok s i nb"
  shows "unat (shl32 1 (s_log_block_size (sb_of s) + 1)) = spb s"
    "unat (shl32 1 (10 + s_log_block_size (sb_of s)) div 512) = spb s"
    "unat (shl32 1 (s_log_block_size (sb_of s) + 10)) = 512 * spb s"
proof -
  let ?log = "s_log_block_size (sb_of s)"
  have log: "unat ?log \<le> 16" using assms by (simp add: direct_file_def)
  have "unat (?log + 1) = unat ?log + 1" "unat (10 + ?log) = unat ?log + 10"
    "unat (?log + 10) = unat ?log + 10"
    using log by (simp_all add: unat_word_ariths)
  then show "unat (shl32 1 (?log + 1)) = spb s" "unat (shl32 1 (10 + ?log) div 512) = spb s"
    "unat (shl32 1 (?log + 10)) = 512 * spb s"
    using log by (simp_all add: unat_shl32 spb_def unat_div power_add)
qed

section \<open>Stepping to the next sector\<close>

lemma next_in_group:
  fixes q n :: nat
  assumes "0 < n"
  shows "q mod n < n - 1 \<Longrightarrow> Suc q div n = q div n" "q mod n < n - 1 \<Longrightarrow> Suc q mod n = Suc (q mod n)"
    "\<not> q mod n < n - 1 \<Longrightarrow> Suc q div n = Suc (q div n)" "\<not> q mod n < n - 1 \<Longrightarrow> Suc q mod n = 0"
    "\<not> q mod n < n - 1 \<Longrightarrow> q mod n = n - 1"
proof -
  have "q mod n < n" using assms by simp
  then have "\<not> q mod n < n - 1 \<Longrightarrow> Suc (q mod n) = n" using assms by linarith
  then show "q mod n < n - 1 \<Longrightarrow> Suc q div n = q div n" "q mod n < n - 1 \<Longrightarrow> Suc q mod n = Suc (q mod n)"
    "\<not> q mod n < n - 1 \<Longrightarrow> Suc q div n = Suc (q div n)" "\<not> q mod n < n - 1 \<Longrightarrow> Suc q mod n = 0"
    "\<not> q mod n < n - 1 \<Longrightarrow> q mod n = n - 1"
    by (auto simp: div_Suc mod_Suc)
qed

context block_device
begin

lemma ent_read_ok:
  "ok (x_dev s) b \<Longrightarrow> ent_read P b fe s = (0, fe\<lparr>e_buffer := view (x_dev s) b\<rparr>, s)"
  by (simp add: ent_read_def)

lemma ext_next_in_block:
  assumes direct: "direct_file ok s (e_inode fe) nb" and on: "ext_on view s nb q fe" and left: "left_ok s q fe"
    and q: "Suc q < nb * spb s" and inside: "q mod spb s < spb s - 1"
  shows "\<exists>fe'. ext2_next_sector P fe s = (0, fe', s) \<and> ext_on view s nb (Suc q) fe' \<and>
    left_ok s (Suc q) fe' \<and> e_cursor fe' = 0 \<and> same_ent fe fe'"
proof -
  have n: "0 < spb s" by (simp add: spb_def)
  note step = next_in_group(1,2) [OF n inside]
  have pos: "0 < e_sectors_left fe" and one: "1 \<le> e_sectors_left fe"
    using left inside by (simp_all add: left_ok_def word_less_nat_alt word_le_nat_alt)
  have sec: "e_sector fe + 1 = ext_lba s (e_inode fe) (Suc q)"
    using on step by (simp add: ext_on_def ext_lba_def add.assoc add.commute)
  have "ok (x_dev s) (ext_lba s (e_inode fe) (Suc q))" using direct q by (simp add: direct_file_def)
  then have eq: "ext2_next_sector P fe s = (0, fe\<lparr>e_sector := ext_lba s (e_inode fe) (Suc q),
      e_buffer := view (x_dev s) (ext_lba s (e_inode fe) (Suc q)),
      e_sectors_left := e_sectors_left fe - 1, e_cursor := 0,
      e_file_sector := e_file_sector fe + 1\<rparr>, s)"
    using pos by (simp add: ext2_next_sector_def sec ent_read_ok)
  have "unat (e_sectors_left fe - 1) = spb s - 1 - Suc q mod spb s"
    using left one step(2) by (simp add: left_ok_def unat_sub)
  then show ?thesis
    using on q step unfolding eq by (simp add: ext_on_def left_ok_def same_ent_def)
qed

lemma small_word_less: "n < 2 ^ 32 \<Longrightarrow> m < 2 ^ 32 \<Longrightarrow> (of_nat n :: u32) < of_nat m \<longleftrightarrow> n < m"
  by (simp add: word_less_nat_alt unat_of_nat32)

lemma ext_next_block:
  assumes direct: "direct_file ok s (e_inode fe) nb" and on: "ext_on view s nb q fe" and left: "left_ok s q fe"
    and q: "Suc q < nb * spb s" and last: "\<not> q mod spb s < spb s - 1"
  shows "\<exists>fe'. ext2_next_sector P fe s = (0, fe', s) \<and> ext_on view s nb (Suc q) fe' \<and>
    left_ok s (Suc q) fe' \<and> e_cursor fe' = 0 \<and> same_ent fe fe'"
proof -
  have n: "0 < spb s" by (simp add: spb_def)
  note step = next_in_group(3-5) [OF n last]
  let ?b = "q div spb s" and ?i = "e_inode fe"
  have b: "Suc ?b < nb" using q step(1) by (metis less_mult_imp_div_less)
  moreover have "nb \<le> 12" using direct by (simp add: direct_file_def)
  ultimately have b11: "?b < 11" by simp
  have "e_sectors_left fe = 0" using left step(3) by (simp add: left_ok_def unat_eq_0)
  moreover have idx: "e_block_index fe ! 0 = of_nat ?b" "length (e_block_index fe) = 3"
    using on by (simp_all add: ext_on_def)
  moreover have "(of_nat ?b :: u32) < 11" using b11 small_word_less [of ?b 11] by simp
  moreover have nat: "unat (of_nat ?b + 1 :: u32) = Suc ?b"
    using b11 unat_of_nat32 [of "Suc ?b"] by (simp add: add.commute)
  moreover have "i_block ?i ! Suc ?b > 0" using direct b by (simp add: direct_file_def word_greater_zero_iff)
  moreover have sec: "to_lba (sb_of s) (i_block ?i ! Suc ?b) + part_of s = ext_lba s ?i (Suc q)"
    using step by (simp add: ext_lba_def)
  moreover have "ok (x_dev s) (ext_lba s ?i (Suc q))" using direct q by (simp add: direct_file_def)
  ultimately have eq: "ext2_next_sector P fe s = (0, fe\<lparr>e_block_index := (e_block_index fe)[0 := of_nat ?b + 1],
      e_sectors_left := shl32 1 (10 + s_log_block_size (sb_of s)) div 512 - 1,
      e_sector := ext_lba s ?i (Suc q), e_cursor := 0, e_file_sector := e_file_sector fe + 1,
      e_buffer := view (x_dev s) (ext_lba s ?i (Suc q))\<rparr>, s)"
    by (simp add: ext2_next_sector_def ext2_next_block_def enter_block_def Let_def ent_read_ok)
  have "unat (shl32 1 (10 + s_log_block_size (sb_of s)) div 512 - 1) = spb s - 1"
    using shl32_spb(2) [OF direct] n by (simp add: unat_sub word_le_nat_alt)
  then show ?thesis
    using on q step idx unfolding eq by (simp add: ext_on_def left_ok_def same_ent_def add.commute)
qed

lemma ext_next_sector:
  assumes "direct_file ok s (e_inode fe) nb" and "ext_on view s nb q fe" and "left_ok s q fe"
    and "Suc q < nb * spb s"
  shows "\<exists>fe'. ext2_next_sector P fe s = (0, fe', s) \<and> ext_on view s nb (Suc q) fe' \<and>
    left_ok s (Suc q) fe' \<and> e_cursor fe' = 0 \<and> same_ent fe fe'"
  using ext_next_in_block [OF assms] ext_next_block [OF assms] by blast

text \<open>Behind the last sector there is no next one: the cursor stays behind the buffer.\<close>

lemma ext_next_at_end:
  assumes direct: "direct_file ok s (e_inode fe) nb" and on: "ext_on view s nb q fe" and left: "left_ok s q fe"
    and q: "Suc q = nb * spb s"
  shows "\<exists>fe'. ext2_next_sector P fe s = (1, fe', s) \<and> e_cursor fe' = e_cursor fe \<and>
    e_file_sector fe' = e_file_sector fe \<and> same_ent fe fe'"
proof -
  have n: "0 < spb s" by (simp add: spb_def)
  have "Suc q mod spb s = 0" using q by simp
  then have last: "\<not> q mod spb s < spb s - 1" using next_in_group(2) [OF n, of q] by auto
  note step = next_in_group(3,5) [OF n last]
  have "Suc (q div spb s) = nb" using step(1) q n by simp
  then have nb: "q div spb s = nb - 1" "nb \<le> 12" "0 < nb" using direct by (auto simp: direct_file_def)
  have "e_sectors_left fe = 0" using left step(2) by (simp add: left_ok_def unat_eq_0)
  moreover have idx: "e_block_index fe ! 0 = of_nat (nb - 1)" "length (e_block_index fe) = 3"
    using on nb(1) by (simp_all add: ext_on_def)
  moreover have "(of_nat (nb - 1) :: u32) < 11 \<longleftrightarrow> nb < 12"
    using small_word_less [of "nb - 1" 11] nb by auto
  moreover have "unat (of_nat (nb - 1) + 1 :: u32) = nb"
    using nb unat_of_nat32 [of nb] by (simp add: of_nat_diff)
  moreover have "nb < 12 \<longrightarrow> i_block (e_inode fe) ! nb = 0" using direct by (auto simp: direct_file_def)
  ultimately show ?thesis
    by (auto simp: ext2_next_sector_def ext2_next_block_def Let_def same_ent_def)
qed

end

section \<open>Reading\<close>

text \<open>At byte \<open>p\<close>, inside a sector; and the same or behind the last sector.\<close>

definition ext_at :: "('d \<Rightarrow> blockno \<Rightarrow> sector) \<Rightarrow> 'd estate \<Rightarrow> nat \<Rightarrow> nat \<Rightarrow> file_ent \<Rightarrow> bool" where
  "ext_at view s nb p fe \<longleftrightarrow>
    (\<exists>q. ext_on view s nb q fe \<and> left_ok s q fe \<and> unat (e_cursor fe) < 512 \<and>
      p = 512 * q + unat (e_cursor fe))"

definition ext_reading :: "('d \<Rightarrow> blockno \<Rightarrow> sector) \<Rightarrow> 'd estate \<Rightarrow> nat \<Rightarrow> nat \<Rightarrow> file_ent \<Rightarrow> bool" where
  "ext_reading view s nb p fe \<longleftrightarrow>
    ext_at view s nb p fe \<or> p = 512 * (nb * spb s) \<and> unat (ext_pos fe) = p"

lemma ext_pos_on:
  assumes "direct_file ok s i nb" and "ext_on view s nb q fe" and "unat (e_cursor fe) \<le> 512"
  shows "unat (ext_pos fe) = 512 * q + unat (e_cursor fe)"
proof -
  have "q < 12 * 2 ^ 17" using assms(2) spb_bounds(3) [OF assms(1)] by (simp add: ext_on_def)
  then have "512 * q + unat (e_cursor fe) < 2 ^ 32" using assms(3) by simp
  moreover have "ext_pos fe = of_nat (512 * q + unat (e_cursor fe))"
    using assms(2) by (simp add: ext_pos_def ext_on_def ac_simps)
  ultimately show ?thesis by (simp only: unat_of_nat32)
qed

lemma ext_reading_pos:
  assumes "direct_file ok s i nb" and "ext_reading view s nb p fe"
  shows "unat (ext_pos fe) = p"
  using assms ext_pos_on by (fastforce simp: ext_reading_def ext_at_def)

context block_device
begin

lemma length_ext_bytes: "direct_file ok s i nb \<Longrightarrow> length (ext_bytes view s i nb) = unat (i_size i)"
  unfolding ext_bytes_def direct_file_def
  by (simp, subst length_concat_uniform [where m = 512]) simp_all

lemma ext_bytes_nth:
  assumes "q < nb * spb s" and "r < 512" and "512 * q + r < unat (i_size i)"
  shows "ext_bytes view s i nb ! (512 * q + r) = view (x_dev s) (ext_lba s i q) ! r"
  using assms unfolding ext_bytes_def
  by (simp, subst nth_concat_uniform [where m = 512]) auto

text \<open>One byte: afterwards the cursor is on the next byte, or behind the last sector.\<close>

lemma ext_advance:
  assumes direct: "direct_file ok s (e_inode fe) nb" and on: "ext_on view s nb q fe" and left: "left_ok s q fe"
    and c: "unat (e_cursor fe) < 512"
  shows "\<exists>fe'. (if e_cursor fe + 1 = 512 then snd (ext2_next_sector P (fe\<lparr>e_cursor := e_cursor fe + 1\<rparr>) s)
      else (fe\<lparr>e_cursor := e_cursor fe + 1\<rparr>, s)) = (fe', s) \<and> same_ent fe fe' \<and>
    ext_reading view s nb (Suc (512 * q + unat (e_cursor fe))) fe'"
proof -
  let ?fe = "fe\<lparr>e_cursor := e_cursor fe + 1\<rparr>"
  have c1: "unat (e_cursor fe + 1) = Suc (unat (e_cursor fe))" using c by (simp add: unat_word_ariths)
  have fe: "direct_file ok s (e_inode ?fe) nb" "ext_on view s nb q ?fe" "left_ok s q ?fe"
    using direct on left by (simp_all add: ext_on_def left_ok_def)
  show ?thesis
  proof (cases "e_cursor fe + 1 = 512")
    case False
    then have "Suc (unat (e_cursor fe)) < 512" using c c1 word_unat_eq_iff [of "e_cursor fe + 1" 512] by simp
    then show ?thesis
      using False fe c1 by (auto simp: ext_reading_def ext_at_def same_ent_def intro!: exI [of _ q])
  next
    case True
    then have p: "Suc (512 * q + unat (e_cursor fe)) = 512 * Suc q" using c1 by simp
    show ?thesis
    proof (cases "Suc q < nb * spb s")
      case more: True
      obtain fe' where "ext2_next_sector P ?fe s = (0, fe', s)" "ext_on view s nb (Suc q) fe'"
        "left_ok s (Suc q) fe'" "e_cursor fe' = 0" "same_ent ?fe fe'"
        using ext_next_sector [OF fe more] by blast
      then show ?thesis
        using True p by (auto simp: ext_reading_def ext_at_def same_ent_def intro!: exI [of _ "Suc q"])
    next
      case False
      then have q: "Suc q = nb * spb s" using on by (simp add: ext_on_def)
      obtain fe' where fe': "ext2_next_sector P ?fe s = (1, fe', s)" "e_cursor fe' = e_cursor ?fe"
        "e_file_sector fe' = e_file_sector fe" "same_ent ?fe fe'"
        using ext_next_at_end [OF fe q] by auto
      have "ext_pos fe' = ext_pos ?fe" using fe' by (simp add: ext_pos_def)
      then have "unat (ext_pos fe') = 512 * Suc q" using ext_pos_on [OF direct fe(2)] c1 p c by simp
      then show ?thesis
        using True fe' p q by (auto simp: ext_reading_def same_ent_def)
    qed
  qed
qed

lemma ext_read_loop_bytes:
  assumes "direct_file ok s (e_inode fe) nb" and "ext_reading view s nb p fe"
  shows "\<exists>fe'. ext_read_loop P k fe s = Some (take k (drop p (ext_bytes view s (e_inode fe) nb)), fe', s) \<and>
    same_ent fe fe' \<and>
    ext_reading view s nb (p + length (take k (drop p (ext_bytes view s (e_inode fe) nb)))) fe'"
  using assms
proof (induction k arbitrary: fe p)
  case 0
  then show ?case by (simp add: same_ent_def)
next
  case (Suc k)
  let ?bytes = "ext_bytes view s (e_inode fe) nb"
  note len = length_ext_bytes [OF Suc.prems(1)] and pos = ext_reading_pos [OF Suc.prems]
  show ?case
  proof (cases "i_size (e_inode fe) \<le> ext_pos fe")
    case True
    then have "length ?bytes \<le> p" using len pos by (simp add: word_le_nat_alt)
    then show ?thesis using True Suc.prems(2) by (simp add: same_ent_def)
  next
    case False
    then have p: "p < length ?bytes" using len pos by (simp add: word_le_nat_alt)
    then have "p \<noteq> 512 * (nb * spb s)" using len Suc.prems(1) by (simp add: direct_file_def)
    then obtain q where q: "ext_on view s nb q fe" "left_ok s q fe" "unat (e_cursor fe) < 512"
      "p = 512 * q + unat (e_cursor fe)"
      using Suc.prems(2) by (auto simp: ext_reading_def ext_at_def)
    obtain fe1 where fe1: "(if e_cursor fe + 1 = 512 then snd (ext2_next_sector P (fe\<lparr>e_cursor := e_cursor fe + 1\<rparr>) s)
        else (fe\<lparr>e_cursor := e_cursor fe + 1\<rparr>, s)) = (fe1, s)" "same_ent fe fe1"
      "ext_reading view s nb (Suc p) fe1"
      using ext_advance [OF Suc.prems(1) q(1-3)] q(4) by blast
    have byte: "e_buffer fe ! unat (e_cursor fe) = ?bytes ! p"
      using ext_bytes_nth [of q nb s "unat (e_cursor fe)" "e_inode fe"] q p len
      by (simp add: ext_on_def)
    have inode: "e_inode fe1 = e_inode fe" using fe1(2) by (simp add: same_ent_def)
    obtain fe' where fe': "ext_read_loop P k fe1 s = Some (take k (drop (Suc p) ?bytes), fe', s)"
      "same_ent fe1 fe'" "ext_reading view s nb (Suc p + length (take k (drop (Suc p) ?bytes))) fe'"
      using Suc.IH [of fe1 "Suc p"] Suc.prems(1) fe1(3) inode by auto
    have "ext_read_loop P (Suc k) fe s = Some (take (Suc k) (drop p ?bytes), fe', s)"
      using False q(3) fe1(1) fe'(1) byte take_drop_Suc [OF p, of k] by (simp add: Let_def)
    moreover have "Suc p + length (take k (drop (Suc p) ?bytes)) =
        p + length (take (Suc k) (drop p ?bytes))"
      using p by (simp add: min_def) linarith
    moreover have "same_ent fe fe'" using fe1(2) fe'(2) by (simp add: same_ent_def)
    ultimately show ?thesis
      using fe'(3) by (intro exI [of _ fe']) (simp only: simp_thms)
  qed
qed

end

section \<open>What the operations leave alone\<close>

text \<open>The same disk and the same volume; the clock and the static \<open>struct dirent\<close> may differ.\<close>

definition same_disk :: "'d estate \<Rightarrow> 'd estate \<Rightarrow> bool" where
  "same_disk s s' \<longleftrightarrow> x_dev s' = x_dev s \<and> x_context s' = x_context s"

definition keeps_ent :: "file_ent \<Rightarrow> file_ent \<Rightarrow> bool" where
  "keeps_ent fe fe' \<longleftrightarrow>
    i_block (e_inode fe') = i_block (e_inode fe) \<and> i_size (e_inode fe') = i_size (e_inode fe) \<and>
    has (e_flags fe') EXT2_FLAG_DIRTY = has (e_flags fe) EXT2_FLAG_DIRTY \<and>
    e_inode_number fe' = e_inode_number fe"

lemma same_disk_refl [simp]: "same_disk s s"
  by (simp add: same_disk_def)

lemma same_disk_trans: "same_disk s s' \<Longrightarrow> same_disk s' s'' \<Longrightarrow> same_disk s s''"
  by (simp add: same_disk_def)

lemma keeps_ent_refl [simp]: "keeps_ent fe fe"
  by (simp add: keeps_ent_def)

lemma keeps_ent_trans: "keeps_ent fe fe' \<Longrightarrow> keeps_ent fe' fe'' \<Longrightarrow> keeps_ent fe fe''"
  by (simp add: keeps_ent_def)

lemma same_ent_keeps: "same_ent fe fe' \<Longrightarrow> keeps_ent fe fe'"
  by (simp add: same_ent_def keeps_ent_def)

lemma same_disk_cong:
  assumes "same_disk s s'"
  shows "spb s' = spb s" "ext_lba s' i q = ext_lba s i q" "direct_file ok s' i nb = direct_file ok s i nb"
    "ext_bytes view s' i nb = ext_bytes view s i nb" "left_ok s' q fe = left_ok s q fe"
    "ext_on view s' nb q fe = ext_on view s nb q fe" "ext_at view s' nb p fe = ext_at view s nb p fe"
    "ext_reading view s' nb p fe = ext_reading view s nb p fe"
  using assms
  by (simp_all add: same_disk_def spb_def ext_lba_def direct_file_def ext_bytes_def left_ok_def
      ext_on_def ext_at_def ext_reading_def)

lemma keeps_ent_cong:
  assumes "keeps_ent fe fe'"
  shows "direct_file ok s (e_inode fe') nb = direct_file ok s (e_inode fe) nb"
    "ext_bytes view s (e_inode fe') nb = ext_bytes view s (e_inode fe) nb"
    "ext_lba s (e_inode fe') q = ext_lba s (e_inode fe) q"
  using assms by (simp_all add: keeps_ent_def direct_file_def ext_bytes_def ext_lba_def)

text \<open>Noting the time of the access moves neither the cursor nor the buffer.\<close>

lemma atime_reading:
  assumes "ext2_update_atime P fe s = (fe', s')"
  shows "same_disk s s'" "x_dirent s' = x_dirent s" "keeps_ent fe fe'"
    "ext_reading view s nb p fe' = ext_reading view s nb p fe"
proof -
  have "has (f OR EXT2_FLAG_FS_DIRTY) EXT2_FLAG_DIRTY = has f EXT2_FLAG_DIRTY" for f
    by (simp add: has_or) (simp add: has_def)
  moreover obtain t where "fe' = fe\<lparr>e_inode := (e_inode fe)\<lparr>i_atime := t\<rparr>,
      e_flags := e_flags fe OR EXT2_FLAG_FS_DIRTY\<rparr>" "s' = s\<lparr>x_ticks := Suc (x_ticks s)\<rparr>"
    using assms by (auto simp: ext2_update_atime_def ext_now_def)
  ultimately show "same_disk s s'" "x_dirent s' = x_dirent s" "keeps_ent fe fe'"
    "ext_reading view s nb p fe' = ext_reading view s nb p fe"
    by (simp_all add: same_disk_def keeps_ent_def ext_reading_def ext_at_def ext_on_def left_ok_def
        ext_pos_def ext_lba_def)
qed

context block_device
begin

lemma ext_read_file_bytes:
  assumes "direct_file ok s (e_inode fe) nb" and "ext_reading view s nb p fe" and "k < 2 ^ 31"
    and "bs = take k (drop p (ext_bytes view s (e_inode fe) nb))"
  shows "\<exists>fe' s'. ext_read_file P k fe s = Some ((int (length bs), bs), fe', s') \<and>
    same_disk s s' \<and> x_dirent s' = x_dirent s \<and> keeps_ent fe fe' \<and>
    ext_reading view s nb (p + length bs) fe'"
proof -
  obtain fe1 where fe1: "ext_read_loop P k fe s = Some (bs, fe1, s)" "same_ent fe fe1"
    "ext_reading view s nb (p + length bs) fe1"
    using ext_read_loop_bytes [OF assms(1,2)] assms(4) by blast
  obtain fe2 s2 where fe2: "ext2_update_atime P fe1 s = (fe2, s2)" by fastforce
  have "length bs < 2 ^ 31" using assms(3,4) by simp
  then have "sint (of_nat (length bs) :: u32) = int (length bs)" by (rule int_of_cluster)
  then have "ext_read_file P k fe s = Some ((int (length bs), bs),
      if bs \<noteq> [] then (fe2, s2) else (fe1, s))"
    using fe1(1) fe2 by (simp add: ext_read_file_def)
  then show ?thesis
    using fe1(2,3) atime_reading [OF fe2] same_ent_keeps [OF fe1(2)] keeps_ent_trans
    by (cases "bs = []") auto
qed

end

section \<open>Seeking\<close>

lemma shl32_mult: "shl32 b n = b * shl32 1 n"
  by (simp add: shl32_def push_bit_eq_mult)

lemma div_block: "(p :: nat) div (512 * n) = p div 512 div n"
  by (simp add: div_mult2_eq)

text \<open>The numbers of a seek to byte \<open>p'\<close>, below the end of a direct file.\<close>

lemma seek_numbers:
  assumes direct: "direct_file ok s i nb" and p: "p' < 512 * (nb * spb s)"
  defines "w \<equiv> of_nat p' :: u32"
  shows "unat w = p'" "unat (w div 512) = p' div 512" "unat (w mod 512) = p' mod 512"
    "unat (w div shl32 1 (s_log_block_size (sb_of s) + 10)) = p' div 512 div spb s"
    "p' div 512 < nb * spb s" "p' div 512 div spb s < nb"
    "unat ((w - w div shl32 1 (s_log_block_size (sb_of s) + 10) *
      shl32 1 (s_log_block_size (sb_of s) + 10)) div 512) = p' div 512 mod spb s"
proof -
  let ?bs = "shl32 1 (s_log_block_size (sb_of s) + 10)"
  have "p' < 512 * (12 * 2 ^ 17)" using p spb_bounds(3) [OF direct] by simp
  then show w: "unat w = p'" unfolding w_def by (intro unat_of_nat32) simp
  note bs = shl32_spb(3) [OF direct]
  show "unat (w div 512) = p' div 512" "unat (w mod 512) = p' mod 512"
    by (simp_all add: unat_div unat_mod w)
  show "unat (w div ?bs) = p' div 512 div spb s" by (simp add: unat_div w bs div_block)
  show q: "p' div 512 < nb * spb s" using p by (simp add: less_mult_imp_div_less mult.commute)
  then show "p' div 512 div spb s < nb" by (simp add: less_mult_imp_div_less)
  have "w - w div ?bs * ?bs = w mod ?bs" by (simp add: minus_div_mult_eq_mod)
  then have "unat (w - w div ?bs * ?bs) = p' mod (512 * spb s)" by (simp add: unat_mod w bs)
  then show "unat ((w - w div ?bs * ?bs) div 512) = p' div 512 mod spb s"
    by (simp add: unat_div mod_mult2_eq)
qed

lemma word_of_unat: "unat (w :: u32) = n \<Longrightarrow> w = of_nat n"
  by auto

lemma ext_flush_clean: "\<not> has (e_flags fe) EXT2_FLAG_DIRTY \<Longrightarrow> ext2_flush P fe s = (0, fe, s)"
  by (simp add: ext2_flush_def)

text \<open>The position, with the countdown out of the picture.\<close>

definition ext_place :: "('d \<Rightarrow> blockno \<Rightarrow> sector) \<Rightarrow> 'd estate \<Rightarrow> nat \<Rightarrow> nat \<Rightarrow> file_ent \<Rightarrow> bool" where
  "ext_place view s nb p fe \<longleftrightarrow> ext_on view s nb (p div 512) fe \<and> unat (e_cursor fe) = p mod 512"

lemma ext_at_place: "ext_at view s nb p fe \<longleftrightarrow> ext_place view s nb p fe \<and> left_ok s (p div 512) fe"
  by (auto simp: ext_at_def ext_place_def intro!: exI [of _ "p div 512"])

context block_device
begin

text \<open>Case 1: the same sector.\<close>

lemma seek_sector:
  assumes "ext_at view s nb p fe" and "p div 512 = p' div 512" and "unat c = p' mod 512"
  shows "ext_at view s nb p' (fe\<lparr>e_cursor := c\<rparr>)"
  using assms by (simp add: ext_at_place ext_place_def ext_on_def left_ok_def)

text \<open>Case 2: another sector of the block; the sector is the right one.\<close>

lemma seek_in_block_place:
  assumes direct: "direct_file ok s (e_inode fe) nb" and at: "ext_at view s nb p fe"
    and p': "p' < 512 * (nb * spb s)" and same: "p div 512 div spb s = p' div 512 div spb s"
    and old: "unat old = p"
  shows "e_sector (seek_in_block (of_nat p') old fe) = ext_lba s (e_inode fe) (p' div 512)"
    "ext_place view s nb p' (seek_in_block (of_nat p') old fe
      \<lparr>e_buffer := view (x_dev s) (ext_lba s (e_inode fe) (p' div 512))\<rparr>)"
proof -
  note num = seek_numbers [OF direct p']
  note words = word_of_unat [OF num(2)] word_of_unat [OF num(3)]
  have oldw: "old div 512 = of_nat (p div 512)" by (rule word_of_unat) (simp add: unat_div old)
  have split: "(of_nat n :: u32) = of_nat (n div spb s * spb s) + of_nat (n mod spb s)" for n
    by (simp only: of_nat_add [symmetric] div_mult_mod_eq)
  show sec: "e_sector (seek_in_block (of_nat p') old fe) = ext_lba s (e_inode fe) (p' div 512)"
    using at same split [of "p div 512"] split [of "p' div 512"]
    by (simp add: seek_in_block_def words oldw ext_at_place ext_place_def ext_on_def ext_lba_def)
  show "ext_place view s nb p' (seek_in_block (of_nat p') old fe
      \<lparr>e_buffer := view (x_dev s) (ext_lba s (e_inode fe) (p' div 512))\<rparr>)"
    using at same sec num(3,5)
    by (simp add: ext_place_def ext_on_def ext_at_place seek_in_block_def words ext_lba_def)
qed

text \<open>Case 3: a block is looked up.\<close>

lemma seek_block_at:
  assumes direct: "direct_file ok s (e_inode fe) nb" and p': "p' < 512 * (nb * spb s)"
    and len: "length (e_block_index fe) = 3"
  defines "fe' \<equiv> seek_block s (of_nat p') (of_nat p' div shl32 1 (s_log_block_size (sb_of s) + 10)) fe"
  shows "e_sector fe' = ext_lba s (e_inode fe) (p' div 512)"
    "ext_at view s nb p' (fe'\<lparr>e_buffer := view (x_dev s) (ext_lba s (e_inode fe) (p' div 512))\<rparr>)"
proof -
  note num = seek_numbers [OF direct p']
  note words = word_of_unat [OF num(2)] word_of_unat [OF num(7)]
  show sec: "e_sector fe' = ext_lba s (e_inode fe) (p' div 512)"
    using num(4) shl32_mult [of "i_block (e_inode fe) ! (p' div 512 div spb s)"]
    by (simp add: fe'_def seek_block_def Let_def words(2) ext_lba_def to_lba_def)
  have "unat (shl32 1 (s_log_block_size (sb_of s) + 1) - of_nat (p' div 512 mod spb s) - 1) =
      spb s - 1 - p' div 512 mod spb s"
  proof -
    let ?n = "shl32 1 (s_log_block_size (sb_of s) + 1)" and ?r = "p' div 512 mod spb s"
    have r: "?r < spb s" by (simp add: spb_def)
    have n: "unat ?n = spb s" by (rule shl32_spb(1) [OF direct])
    have "?n = of_nat (spb s)" using word_of_unat [OF n] .
    then have "?n - of_nat ?r - 1 = of_nat (spb s - 1 - ?r)" using r by (simp add: of_nat_diff)
    moreover have "spb s - 1 - ?r < 2 ^ 32" using spb_bounds(2) [OF direct] by simp
    ultimately show ?thesis by (simp only: unat_of_nat32)
  qed
  then have left: "left_ok s (p' div 512) fe'"
    by (simp add: left_ok_def fe'_def seek_block_def Let_def words(2))
  show "ext_at view s nb p' (fe'\<lparr>e_buffer := view (x_dev s) (ext_lba s (e_inode fe) (p' div 512))\<rparr>)"
    using left sec num(3-6) len words(1) word_of_unat [OF num(4)]
    by (simp add: ext_at_place ext_place_def ext_on_def left_ok_def)
      (simp add: fe'_def seek_block_def Let_def)
qed

text \<open>
  A seek inside the file arrives, whichever case it takes. The countdown is right as well, unless
  the seek crosses a sector inside a block.
\<close>

lemma ext_lseek_arrives:
  assumes direct: "direct_file ok s (e_inode fe) nb" and at: "ext_reading view s nb p fe"
    and len: "length (e_block_index fe) = 3" and clean: "\<not> has (e_flags fe) EXT2_FLAG_DIRTY"
    and target: "ext_lseek_target fe ptr dir = of_nat p'" and below: "p' < 512 * (nb * spb s)"
    and size: "p' \<le> unat (i_size (e_inode fe))"
  shows "\<exists>fe'. ext_lseek_file P fe ptr dir s = Some (int p', fe', s) \<and> same_ent fe fe' \<and>
    ext_place view s nb p' fe' \<and>
    (p div 512 = p' div 512 \<or> p div 512 div spb s \<noteq> p' div 512 div spb s \<longrightarrow> left_ok s (p' div 512) fe')"
proof -
  let ?old = "e_file_sector fe * 512 + e_cursor fe" and ?w = "of_nat p' :: u32"
  let ?bs = "shl32 1 (s_log_block_size (sb_of s) + 10)"
  note num = seek_numbers [OF direct below]
  have old: "unat ?old = p" using ext_reading_pos [OF direct at] by (simp add: ext_pos_def add.commute)
  have oldn: "unat (?old div 512) = p div 512" "unat (?old div ?bs) = p div 512 div spb s"
    using shl32_spb(3) [OF direct] by (simp_all add: unat_div old div_block)
  have bs: "?bs \<noteq> 0" using shl32_spb(3) [OF direct] by (auto simp: spb_def)
  have "p' < 2 ^ 31" using below spb_bounds(3) [OF direct] by simp
  then have ret: "sint ?w = int p'" by (rule int_of_cluster)
  have retold: "p = p' \<Longrightarrow> sint ?old = int p'" using ret word_of_unat [OF old] by simp
  have eq: "?old = ?w \<longleftrightarrow> p = p'" "?old div 512 = ?w div 512 \<longleftrightarrow> p div 512 = p' div 512"
    "?w div ?bs = ?old div ?bs \<longleftrightarrow> p' div 512 div spb s = p div 512 div spb s"
    using old oldn num(1,2,4) by (simp_all only: word_unat_eq_iff)
  have fits: "\<not> i_size (e_inode fe) < ?w" using size num(1) by (simp add: word_less_nat_alt)
  have "unat (?w div ?bs) \<le> 11" using num(4,6) direct by (simp add: direct_file_def)
  then have direct_block: "\<not> 11 < ?w div ?bs" by (simp add: word_less_nat_alt)
  have okp: "ok (x_dev s) (ext_lba s (e_inode fe) (p' div 512))"
    using direct num(5) by (simp add: direct_file_def)
  have run: "ext_lseek_file P fe ptr dir s =
      (if p = p' then Some (sint ?old, fe, s)
       else if p div 512 = p' div 512 then Some (sint ?w, fe\<lparr>e_cursor := ?w mod 512\<rparr>, s)
       else
         let fe2 = (if p' div 512 div spb s = p div 512 div spb s then seek_in_block ?w ?old fe
                    else seek_block s ?w (?w div ?bs) fe) in
         (case ent_read P (e_sector fe2) fe2 s of (rc, fe3, s2) \<Rightarrow>
            if rc \<noteq> 0 then Some (ptr - 1, fe3, s2) else Some (sint ?w, fe3, s2)))"
    using fits bs direct_block
    by (simp add: ext_lseek_file_def Let_def target eq div32_def ext_flush_clean [OF clean])
  consider "p = p'" | "p \<noteq> p'" "p div 512 = p' div 512"
    | "p div 512 \<noteq> p' div 512" "p' div 512 div spb s = p div 512 div spb s"
    | "p' div 512 div spb s \<noteq> p div 512 div spb s" by metis
  then show ?thesis
  proof cases
    case 1
    then have "ext_at view s nb p fe" using at below by (auto simp: ext_reading_def)
    then show ?thesis using 1 run retold by (simp add: ext_at_place same_ent_def)
  next
    case 2
    have "p < 512 * (nb * spb s)"
      using 2(2) num(5) by (metis div_less_iff_less_mult mult.commute zero_less_numeral)
    then have "ext_at view s nb p fe" using at by (auto simp: ext_reading_def)
    note arrived = seek_sector [OF this 2(2) num(3)]
    show ?thesis using 2 run ret arrived by (simp add: ext_at_place same_ent_def)
  next
    case 3
    have "p div 512 div spb s < nb" using 3(2) num(6) by simp
    then have "p < 512 * (nb * spb s)"
      by (metis div_less_iff_less_mult mult.commute spb_def zero_less_numeral zero_less_power)
    then have "ext_at view s nb p fe" using at by (auto simp: ext_reading_def)
    note place = seek_in_block_place [OF direct this below 3(2) [symmetric] old]
    have "same_ent fe (seek_in_block ?w ?old fe\<lparr>e_buffer := b\<rparr>)" for b
      by (simp add: same_ent_def seek_in_block_def)
    moreover have "ext_lseek_file P fe ptr dir s = Some (int p', seek_in_block ?w ?old fe
        \<lparr>e_buffer := view (x_dev s) (ext_lba s (e_inode fe) (p' div 512))\<rparr>, s)"
      using 3 run place(1) okp ret by (auto simp: Let_def ent_read_ok)
    ultimately show ?thesis using place(2) 3 by auto
  next
    case 4
    then have ne: "p \<noteq> p'" "p div 512 \<noteq> p' div 512" by auto
    note place = seek_block_at [OF direct below len]
    have "same_ent fe (seek_block s ?w (?w div ?bs) fe\<lparr>e_buffer := b\<rparr>)" for b
      by (simp add: same_ent_def seek_block_def Let_def)
    moreover have "ext_lseek_file P fe ptr dir s = Some (int p', seek_block s ?w (?w div ?bs) fe
        \<lparr>e_buffer := view (x_dev s) (ext_lba s (e_inode fe) (p' div 512))\<rparr>, s)"
      using 4 ne run place(1) okp ret by (simp add: Let_def ent_read_ok)
    ultimately show ?thesis using place(2) by (auto simp: ext_at_place)
  qed
qed

end

section \<open>Directory entries\<close>

text \<open>Where a series of reads that began with \<open>fe\<^sub>0\<close> in \<open>s\<^sub>0\<close> stands: at byte \<open>p\<close> of the same file.\<close>

definition reader ::
  "('d \<Rightarrow> blockno \<Rightarrow> bool) \<Rightarrow> ('d \<Rightarrow> blockno \<Rightarrow> sector) \<Rightarrow> nat \<Rightarrow> file_ent \<Rightarrow> 'd estate \<Rightarrow>
    nat \<Rightarrow> file_ent \<Rightarrow> 'd estate \<Rightarrow> bool" where
  "reader ok view nb fe0 s0 p fe s \<longleftrightarrow>
    direct_file ok s0 (e_inode fe0) nb \<and> same_disk s0 s \<and> keeps_ent fe0 fe \<and> ext_reading view s nb p fe"

lemma reader_dirent [simp]:
  "reader ok view nb fe0 s0 p fe (upd_dirent g s) = reader ok view nb fe0 s0 p fe s"
proof -
  have "same_disk s (upd_dirent g s)" by (simp add: same_disk_def upd_dirent_def)
  from same_disk_cong(8) [OF this] show ?thesis
    by (simp add: reader_def same_disk_def) (simp add: upd_dirent_def)
qed

lemma upd_dirent_simps [simp]: "x_dirent (upd_dirent g s) = g (x_dirent s)"
  by (simp add: upd_dirent_def)

lemma get_slice:
  "p + 4 \<le> length b \<Longrightarrow> get32 (slice p 4 b) 0 = get32 b p"
  "p + 2 \<le> length b \<Longrightarrow> get16 (slice p 2 b) 0 = get16 b p"
  by (simp_all add: get32_def get16_def nth_slice)

lemma slice_one: "p + 1 \<le> length b \<Longrightarrow> slice p (Suc 0) b = [b ! p]"
  by (simp add: slice_def take_Suc_conv_app_nth)

lemma cstr_put_name:
  assumes "length name = n" and "n < length buf"
  shows "cstr ((splice buf 0 name)[n := 0]) = cstr name"
proof -
  have "(splice buf 0 name)[n := 0] = name @ 0 # drop (Suc n) buf"
    using assms by (simp add: splice_def list_update_append) (metis Cons_nth_drop_Suc list_update_code(2))
  moreover have "takeWhile (\<lambda>c. c \<noteq> 0) (name @ 0 # ys) = takeWhile (\<lambda>c. c \<noteq> 0) name" for ys
    by (induction name) simp_all
  ultimately show ?thesis by (simp add: cstr_def)
qed

context block_device
begin

lemma reader_step:
  assumes "reader ok view nb fe0 s0 p fe s" and "p + k \<le> length (ext_bytes view s0 (e_inode fe0) nb)"
    and "k < 2 ^ 31" and "p' = p + k" and "i = int k"
  shows "\<exists>fe' s'. ext_read_file P k fe s = Some ((i, slice p k (ext_bytes view s0 (e_inode fe0) nb)), fe', s') \<and>
    x_dirent s' = x_dirent s \<and> reader ok view nb fe0 s0 p' fe' s'"
proof -
  let ?B = "ext_bytes view s0 (e_inode fe0) nb"
  have B: "ext_bytes view s (e_inode fe) nb = ?B" and direct: "direct_file ok s (e_inode fe) nb"
    using assms(1) by (auto simp: reader_def same_disk_cong keeps_ent_cong)
  have "length (slice p k ?B) = k" using assms(2) by simp
  then show ?thesis
    using ext_read_file_bytes [OF direct _ assms(3) refl, of p] assms(1)
    unfolding B slice_def [symmetric] reader_def assms(4,5)
    by (auto simp: same_disk_cong intro: same_disk_trans keeps_ent_trans)
qed

text \<open>
  \<open>ext2_readdir\<close> on a directory entry: the inode and the name of the entry, and the cursor moves by
  the record length.
\<close>

lemma readdir_entry:
  assumes direct: "direct_file ok s (e_inode fe) nb" and at: "ext_reading view s nb p fe"
    and clean: "\<not> has (e_flags fe) EXT2_FLAG_DIRTY"
  defines "B \<equiv> ext_bytes view s (e_inode fe) nb"
  defines "rec \<equiv> unat (get16 B (p + 4))" and "n \<equiv> unat (B ! (p + 6))"
  assumes entry: "8 + n \<le> rec" "p + rec \<le> length B" "p + rec < 512 * (nb * spb s)" "0 < sint (get32 B p)"
    and static: "length (d_ino (x_dirent s)) = 4" "length (d_name (x_dirent s)) = 256"
  shows "\<exists>de fe' s'. ext_readdir_file P e fe s = Some ((Some de, 0), fe', s') \<and>
    dirent_ino de = get32 B p \<and> cstr (d_name de) = cstr (slice (p + 8) n B) \<and>
    same_disk s s' \<and> keeps_ent fe fe' \<and> ext_place view s nb (p + rec) fe' \<and>
    ((p + 8 + n) div 512 = (p + rec) div 512 \<or>
       (p + 8 + n) div 512 div spb s \<noteq> (p + rec) div 512 div spb s \<longrightarrow> left_ok s ((p + rec) div 512) fe')"
proof -
  let ?R = "reader ok view nb fe s"
  have lenB: "length B = unat (i_size (e_inode fe))" unfolding B_def by (rule length_ext_bytes [OF direct])
  have n: "n < 256" unfolding n_def using unsigned_less [of "B ! (p + 6)"] by simp
  have bound: "p + 8 + n \<le> length B" using entry(1,2) by simp
  have "?R p fe s" using direct at by (simp add: reader_def)
  then obtain fe1 s1 where 1: "ext_read_file P 4 fe s = Some ((4, slice p 4 B), fe1, s1)"
    "x_dirent s1 = x_dirent s" "?R (p + 4) fe1 s1"
    using reader_step [of nb fe s p fe s 4 "p + 4" "4"] bound unfolding B_def by auto
  let ?s1 = "upd_dirent (put_ino (slice p 4 B)) s1"
  obtain fe2 s2 where 2: "ext_read_file P 2 fe1 ?s1 = Some ((2, slice (p + 4) 2 B), fe2, s2)"
    "x_dirent s2 = x_dirent ?s1" "?R (p + 6) fe2 s2"
    using reader_step [of nb fe s "p + 4" fe1 ?s1 2 "p + 6" "2"] 1(3) bound unfolding B_def by auto
  obtain fe3 s3 where 3: "ext_read_file P 1 fe2 s2 = Some ((1, slice (p + 6) 1 B), fe3, s3)"
    "x_dirent s3 = x_dirent s2" "?R (p + 7) fe3 s3"
    using reader_step [of nb fe s "p + 6" fe2 s2 1 "p + 7" "1"] 2(3) bound unfolding B_def by auto
  obtain fe4 s4 where 4: "ext_read_file P 1 fe3 s3 = Some ((1, slice (p + 7) 1 B), fe4, s4)"
    "x_dirent s4 = x_dirent s3" "?R (p + 8) fe4 s4"
    using reader_step [of nb fe s "p + 7" fe3 s3 1 "p + 8" "1"] 3(3) bound unfolding B_def by auto
  obtain fe5 s5 where 5: "ext_read_file P n fe4 s4 = Some ((int n, slice (p + 8) n B), fe5, s5)"
    "x_dirent s5 = x_dirent s4" "?R (p + 8 + n) fe5 s5"
    using reader_step [of nb fe s "p + 8" fe4 s4 n "p + 8 + n" "int n"] 4(3) bound n unfolding B_def by auto
  let ?s5 = "upd_dirent (put_name (slice (p + 8) n B) n) s5"
  let ?ptr = "uint (get16 (slice (p + 4) 2 B) 0) - 8 - int n"
  have R5: "?R (p + 8 + n) fe5 ?s5" using 5(3) by simp
  then have d: "same_disk s ?s5" "keeps_ent fe fe5" "ext_reading view ?s5 nb (p + 8 + n) fe5"
    by (simp_all add: reader_def)
  note same = same_disk_cong [OF d(1)]
  note d5 = d [unfolded same]
  have direct5: "direct_file ok ?s5 (e_inode fe5) nb"
    using direct by (simp add: same keeps_ent_cong(1) [OF d(2)])
  note at5 = d(3)
  have "p + 8 + n < 512 * (nb * spb s)" using entry(1,3) by simp
  then have len5: "length (e_block_index fe5) = 3"
    using d5(3) by (auto simp: ext_reading_def ext_at_def ext_on_def)
  have clean5: "\<not> has (e_flags fe5) EXT2_FLAG_DIRTY" using clean d5(2) by (simp add: keeps_ent_def)
  have "ext_pos fe5 = of_nat (p + 8 + n)" by (rule word_of_unat [OF ext_reading_pos [OF direct5 at5]])
  moreover have "get16 (slice (p + 4) 2 B) 0 = get16 B (p + 4)" using bound by (simp add: get_slice)
  then have ptr: "?ptr = int rec - 8 - int n" by (simp add: rec_def)
  ultimately have target: "ext_lseek_target fe5 ?ptr SEEK_CUR = of_nat (p + rec)"
    by (simp add: ext_lseek_target_def ext_pos_def ac_simps)
  have size5: "p + rec \<le> unat (i_size (e_inode fe5))"
    using entry(2) lenB d5(2) by (simp add: keeps_ent_def)
  note spb5 = same(1)
  obtain fe6 where 6: "ext_lseek_file P fe5 ?ptr SEEK_CUR ?s5 = Some (int (p + rec), fe6, ?s5)"
    "same_ent fe5 fe6" "ext_place view ?s5 nb (p + rec) fe6"
    "(p + 8 + n) div 512 = (p + rec) div 512 \<or>
       (p + 8 + n) div 512 div spb s \<noteq> (p + rec) div 512 div spb s \<longrightarrow> left_ok ?s5 ((p + rec) div 512) fe6"
    using ext_lseek_arrives [OF direct5 at5 len5 clean5 target _ size5] entry(3) unfolding spb5 by blast
  have ino: "dirent_ino (put_ino (slice p 4 B) (x_dirent s)) = get32 B p"
    using bound static(1) by (simp add: dirent_ino_def put_ino_def splice_def get_slice)
  have len_byte: "unat (B ! (p + 6)) = n" "uint (B ! (p + 6)) = int n" by (simp_all add: n_def)
  have "ext_readdir_file P e fe s = Some ((Some (x_dirent ?s5), 0), fe6, ?s5)"
    using 1 2 3 4 5 6(1) bound ino entry(4) len_byte by (simp add: ext_readdir_file_def slice_one)
  moreover have "x_dirent ?s5 = put_name (slice (p + 8) n B) n (put_ino (slice p 4 B) (x_dirent s))"
    using 1(2) 2(2) 3(2) 4(2) 5(2) by simp
  moreover have "cstr (d_name (put_name (slice (p + 8) n B) n (put_ino (slice p 4 B) (x_dirent s)))) =
      cstr (slice (p + 8) n B)"
    using cstr_put_name [of "slice (p + 8) n B" n] bound n static(2)
    by (simp add: put_name_def put_ino_def)
  moreover have "dirent_ino (put_name (slice (p + 8) n B) n (put_ino (slice p 4 B) (x_dirent s))) = get32 B p"
    using ino by (simp add: put_name_def dirent_ino_def)
  moreover have "keeps_ent fe fe6" using d5(2) same_ent_keeps [OF 6(2)] by (rule keeps_ent_trans)
  moreover have "ext_place view s nb (p + rec) fe6" "left_ok ?s5 q fe6 = left_ok s q fe6" for q
    using 6(3) by (simp_all add: ext_place_def same)
  ultimately show ?thesis using d5(1) 6(4) by metis
qed

end

section \<open>Saving an inode\<close>

text \<open>The block with the descriptor of the inode's group, and the place of the inode.\<close>

definition inode_group :: "'d estate \<Rightarrow> u32 \<Rightarrow> u32" where
  "inode_group s ino = (ino - 1) div s_inodes_per_group (sb_of s)"

definition inode_table_lba :: "'d estate \<Rightarrow> u32 \<Rightarrow> blockno" where
  "inode_table_lba s ino =
    to_lba (sb_of s) (x_superblock_block (x_context s) + 1) + inode_group s ino * 32 div 512 + part_of s"

definition inode_place :: "('d \<Rightarrow> blockno \<Rightarrow> sector) \<Rightarrow> 'd estate \<Rightarrow> u32 \<Rightarrow> blockno \<times> nat" where
  "inode_place view s ino =
    (let size = ucast (s_inode_size (sb_of s)); idx = (ino - 1) mod s_inodes_per_group (sb_of s);
         bg = bg_of (slice (unat (inode_group s ino * 32 mod 512)) 20 (view (x_dev s) (inode_table_lba s ino))) in
     (to_lba (sb_of s) (bg_inode_table bg) + idx div (512 div size) + part_of s,
      unat (idx mod (512 div size) * size)))"

text \<open>
  The inode can be read and written: the numbers in the superblock are not 0, the blocks exist, the
  inode lies inside its sector, and its sector is not the one with the descriptor.
\<close>

definition inode_ready :: "('d \<Rightarrow> blockno \<Rightarrow> bool) \<Rightarrow> ('d \<Rightarrow> blockno \<Rightarrow> sector) \<Rightarrow> 'd estate \<Rightarrow> u32 \<Rightarrow> bool" where
  "inode_ready ok view s ino \<longleftrightarrow>
    s_inodes_per_group (sb_of s) \<noteq> 0 \<and> (ucast (s_inode_size (sb_of s)) :: u32) \<noteq> 0 \<and>
    512 div (ucast (s_inode_size (sb_of s)) :: u32) \<noteq> 0 \<and>
    ok (x_dev s) (inode_table_lba s ino) \<and> ok (x_dev s) (fst (inode_place view s ino)) \<and>
    fst (inode_place view s ino) \<noteq> inode_table_lba s ino \<and> snd (inode_place view s ino) + 128 \<le> 512"

lemma length_inode_bytes: "wf_inode i \<Longrightarrow> length (inode_bytes i) = 128"
  by (simp add: inode_bytes_def wf_inode_def)

context block_device
begin

lemma locate_inode_ok:
  assumes "inode_ready ok view s ino"
  shows "locate_inode P ino s = Some (inode_place view s ino,
    upd_ctx (\<lambda>c. c\<lparr>x_sysbuf := view (x_dev s) (inode_table_lba s ino)\<rparr>) s)"
proof -
  have "ctx_read P (inode_table_lba s ino) s =
      upd_ctx (\<lambda>c. c\<lparr>x_sysbuf := view (x_dev s) (inode_table_lba s ino)\<rparr>) s"
    using assms by (simp add: ctx_read_ok inode_ready_def)
  then show ?thesis
    using assms
    by (simp add: locate_inode_def inode_ready_def inode_place_def inode_table_lba_def inode_group_def
        div32_def mod32_def Let_def)
qed

text \<open>
  What the flush of an inode does: its 128 bytes are replaced, and nothing else on the disk.
\<close>

lemma flush_inode_ok:
  assumes ready: "inode_ready ok view s (e_inode_number fe)" and wf: "wf_inode (e_inode fe)"
    and fs_dirty: "has (e_flags fe) EXT2_FLAG_FS_DIRTY" and clean: "\<not> has (e_flags fe) EXT2_FLAG_DIRTY"
  defines "place \<equiv> inode_place view s (e_inode_number fe)"
  defines "new \<equiv> splice (view (x_dev s) (fst place)) (snd place) (inode_bytes (e_inode fe))"
  shows "ext2_flush_inode P fe s =
    Some (0, fe\<lparr>e_flags := e_flags fe AND NOT EXT2_FLAG_FS_DIRTY\<rparr>,
      (upd_ctx (\<lambda>c. c\<lparr>x_sysbuf := new\<rparr>) s)\<lparr>x_dev := fst (blk_write P (x_dev s) (fst place) new)\<rparr>)"
proof -
  obtain lba off where p: "inode_place view s (e_inode_number fe) = (lba, off)" by fastforce
  have okp: "ok (x_dev s) lba" "off + 128 \<le> 512" "s_inodes_per_group (sb_of s) \<noteq> 0"
    using ready p by (simp_all add: inode_ready_def)
  then have "copy_to (view (x_dev s) lba) off (inode_bytes (e_inode fe)) = Some new"
    using wf by (simp add: copy_to_def length_inode_bytes new_def place_def p)
  then show ?thesis
    using locate_inode_ok [OF ready] okp fs_dirty
    by (simp add: ext2_flush_inode_def div32_def ext_flush_clean [OF clean] p place_def ctx_read_ok
        ctx_write_def case_prod_beta Let_def)
qed

text \<open>Opening an inode reads it from its place.\<close>

lemma open_inode_ok:
  assumes "inode_ready ok view s ino"
    and i: "i = inode_of (slice (snd (inode_place view s ino)) 128 (view (x_dev s) (fst (inode_place view s ino))))"
    and "ok (x_dev s) (first_sector s i)"
  shows "\<exists>fe' s'. ext2_open_inode P ino fe s = Some (fe', s') \<and> e_inode fe' = i \<and> x_dev s' = x_dev s"
proof -
  obtain lba off where p: "inode_place view s ino = (lba, off)" by fastforce
  have okp: "ok (x_dev s) lba" "off + 128 \<le> 512"
    using assms(1) p by (simp_all add: inode_ready_def)
  then have "copy_from (view (x_dev s) lba) off 128 = Some (slice off 128 (view (x_dev s) lba))"
    by (simp add: copy_from_def)
  then show ?thesis
    using locate_inode_ok [OF assms(1)] okp assms(2,3)
    by (simp add: ext2_open_inode_def p ctx_read_ok ent_read_ok enter_inode_def first_sector_def Let_def)
qed

end

section \<open>Properties\<close>

text \<open>
  C19: Reading a file of direct blocks delivers its bytes from the position of the cursor on, as many
  as asked for and as there are below the size, and moves the position behind them. The disk stays
  as it is, no byte outside the buffer is read and the call returns.
\<close>

theorem ext2_read_delivers:
  assumes "direct_file pc_ok s (e_inode fe) nb" and "ext_reading pc_view s nb p fe"
    and "unat count < 2 ^ 31"
  shows "let bytes = take (unat count) (drop p (ext_bytes pc_view s (e_inode fe) nb)) in
    \<exists>fe' s'. ext2_read (pc_platform clk junk) (Some fe) count e s =
        Some ((int (length bytes), e, bytes), Some fe', s') \<and>
      x_dev s' = x_dev s \<and> ext_reading pc_view s nb (p + length bytes) fe'"
  using pc.ext_read_file_bytes [OF assms refl, of clk junk]
  by (auto simp: ext2_read_def same_disk_def Let_def)

text \<open>
  C32: A seek inside a file of direct blocks goes to the byte it names, in all its cases: the sector
  with this byte is in the buffer and the cursor is on it.
\<close>

theorem ext2_lseek_arrives:
  assumes "direct_file pc_ok s (e_inode fe) nb" and "ext_reading pc_view s nb p fe"
    and "length (e_block_index fe) = 3" and "\<not> has (e_flags fe) EXT2_FLAG_DIRTY"
    and "ext_lseek_target fe ptr dir = of_nat p'" and "p' < 512 * (nb * spb s)"
    and "p' \<le> unat (i_size (e_inode fe))"
  shows "\<exists>fe'. ext2_lseek (pc_platform clk junk) (Some fe) ptr dir s = Some ((int p', 0), Some fe', s) \<and>
    ext_place pc_view s nb p' fe' \<and> e_inode fe' = e_inode fe"
  using pc.ext_lseek_arrives [OF assms, of clk junk] by (auto simp: ext2_lseek_def same_ent_def)

text \<open>
  After a seek from sector \<open>q\<close> to a later sector \<open>q'\<close> of the same block the countdown of the
  sectors that are left in the block is too large by twice the distance, so that a read goes on
  behind the end of the block. (\<open>fat_lseek\<close> subtracts where \<open>ext2_lseek\<close> adds.)
\<close>

theorem ext2_lseek_countdown:
  assumes "left_ok s q fe" and "q < 2 ^ 22" and "q' < 2 ^ 22" and "spb s \<le> 2 ^ 17" and "q \<le> q'"
    and "q div spb s = q' div spb s" and "unat new_pos div 512 = q'" and "unat old_pos div 512 = q"
  shows "unat (e_sectors_left (seek_in_block new_pos old_pos fe)) =
    (spb s - 1 - q' mod spb s) + 2 * (q' - q)"
proof -
  have n: "0 < spb s" by (simp add: spb_def)
  have mods: "q' mod spb s = q mod spb s + (q' - q)"
    using assms(5) div_mult_mod_eq [of q "spb s"] div_mult_mod_eq [of q' "spb s"]
    unfolding assms(6) by linarith
  have r: "q' mod spb s < spb s" using n by simp
  have left: "e_sectors_left fe = of_nat (spb s - 1 - q mod spb s)"
    using assms(1) by (intro word_of_unat) (simp add: left_ok_def)
  have words: "new_pos div 512 = of_nat q'" "old_pos div 512 = of_nat q"
    using assms(7,8) by (auto intro!: word_of_unat simp: unat_div)
  let ?n = "(spb s - 1 - q' mod spb s) + 2 * (q' - q)"
  have "spb s - 1 - q mod spb s + q' = ?n + q" using mods r assms(5) by linarith
  then have "of_nat (spb s - 1 - q mod spb s) + of_nat q' = (of_nat ?n + of_nat q :: u32)"
    by (simp only: of_nat_add [symmetric])
  then have "e_sectors_left (seek_in_block new_pos old_pos fe) = of_nat ?n"
    by (simp add: seek_in_block_def left words)
  moreover have "?n < 2 ^ 32" using assms(2-4) by simp
  ultimately show ?thesis by (simp only: unat_of_nat32)
qed

text \<open>
  C20: \<open>ext2_readdir\<close> at a directory entry returns the inode and the name of the entry and moves to
  the entry its record length leads to.
\<close>

theorem ext2_readdir_entry:
  assumes "direct_file pc_ok s (e_inode fe) nb" and "ext_reading pc_view s nb p fe"
    and "\<not> has (e_flags fe) EXT2_FLAG_DIRTY" and "bytes = ext_bytes pc_view s (e_inode fe) nb"
    and "rec = unat (get16 bytes (p + 4))" and "n = unat (bytes ! (p + 6))"
    and "8 + n \<le> rec" and "p + rec \<le> length bytes" and "p + rec < 512 * (nb * spb s)"
    and "0 < sint (get32 bytes p)"
    and "length (d_ino (x_dirent s)) = 4" and "length (d_name (x_dirent s)) = 256"
  shows "\<exists>de fe' s'. ext2_readdir (pc_platform clk junk) (Some fe) e s = Some ((Some de, 0), Some fe', s') \<and>
    dirent_ino de = get32 bytes p \<and> cstr (d_name de) = cstr (slice (p + 8) n bytes) \<and>
    ext_place pc_view s nb (p + rec) fe' \<and> x_dev s' = x_dev s"
  using pc.readdir_entry [OF assms(1-3), of clk junk e] assms(4-)
  by (auto simp: ext2_readdir_def same_disk_def)

text \<open>
  Closing a file that has no data to write. The device that the inode is written to, and what remains
  true there.
\<close>

lemma close_clean_saves_inode:
  assumes "inode_ready pc_ok pc_view s (e_inode_number fe)" and "wf_inode (e_inode fe)"
    and "has (e_flags fe) EXT2_FLAG_FS_DIRTY" and "\<not> has (e_flags fe) EXT2_FLAG_DIRTY"
    and "pc_ok (x_dev s) (first_sector s (e_inode fe))"
  shows "\<exists>s' fe2 s2. ext2_close (pc_platform clk junk) (Some fe) e s = Some ((0, e), s') \<and>
    ext2_open_inode (pc_platform clk junk) (e_inode_number fe) zero_ent s' = Some (fe2, s2) \<and>
    e_inode fe2 = e_inode fe \<and>
    (\<forall>b. pc_ok (x_dev s) b \<longrightarrow> b \<noteq> fst (inode_place pc_view s (e_inode_number fe)) \<longrightarrow>
      pc_view (x_dev s') b = pc_view (x_dev s) b)"
proof -
  let ?P = "pc_platform clk junk" and ?ino = "e_inode_number fe"
  obtain lba off where p: "inode_place pc_view s ?ino = (lba, off)" by fastforce
  let ?new = "splice (pc_view (x_dev s) lba) off (inode_bytes (e_inode fe))"
  let ?s' = "(upd_ctx (\<lambda>c. c\<lparr>x_sysbuf := ?new\<rparr>) s)\<lparr>x_dev := fst (blk_write ?P (x_dev s) lba ?new)\<rparr>"
  have okp: "pc_ok (x_dev s) lba" "off + 128 \<le> 512" "lba \<noteq> inode_table_lba s ?ino"
    "pc_ok (x_dev s) (inode_table_lba s ?ino)"
    using assms(1) p by (simp_all add: inode_ready_def)
  note len = length_inode_bytes [OF assms(2)]
  have new: "length ?new = 512" using okp len by (simp add: pc.length_view)
  have dom: "pc_ok (x_dev ?s') b = pc_ok (x_dev s) b" for b using pc.write_dom [OF okp(1) new] by simp
  have view: "pc_ok (x_dev s) b \<Longrightarrow> pc_view (x_dev ?s') b = (if b = lba then ?new else pc_view (x_dev s) b)" for b
    using pc.write_view [OF okp(1) new] by simp
  have ctx: "sb_of ?s' = sb_of s" "part_of ?s' = part_of s"
    "x_superblock_block (x_context ?s') = x_superblock_block (x_context s)" by simp_all
  have table: "inode_table_lba ?s' ?ino = inode_table_lba s ?ino"
    by (simp add: inode_table_lba_def inode_group_def)
  then have "pc_view (x_dev ?s') (inode_table_lba ?s' ?ino) = pc_view (x_dev s) (inode_table_lba s ?ino)"
    using view [OF okp(4)] okp(3) by simp
  then have place: "inode_place pc_view ?s' ?ino = (lba, off)"
    unfolding p [symmetric] inode_place_def inode_group_def ctx by simp
  have ready: "inode_ready pc_ok pc_view ?s' ?ino"
    using assms(1) unfolding inode_ready_def place p table ctx dom by simp
  have slice: "slice off 128 ?new = inode_bytes (e_inode fe)"
    using okp len by (simp add: pc.length_view)
  have i: "e_inode fe = inode_of (slice (snd (inode_place pc_view ?s' ?ino)) 128
      (pc_view (x_dev ?s') (fst (inode_place pc_view ?s' ?ino))))"
    using view [OF okp(1)] slice inode_of_bytes [OF assms(2), of "[]"] by (simp add: place)
  have "pc_ok (x_dev ?s') (first_sector ?s' (e_inode fe))"
    using assms(5) dom by (simp add: first_sector_def)
  then obtain fe2 s2 where "ext2_open_inode ?P ?ino zero_ent ?s' = Some (fe2, s2)" "e_inode fe2 = e_inode fe"
    using pc.open_inode_ok [OF ready i, of clk junk zero_ent] by auto
  moreover have "ext2_close ?P (Some fe) e s = Some ((0, e), ?s')"
    using pc.flush_inode_ok [OF assms(1-4), of clk junk] assms(3,4) by (simp add: ext2_close_def p)
  ultimately show ?thesis using view by (intro exI [of _ ?s'] exI [of _ fe2] exI [of _ s2]) (simp add: p)
qed

lemma flags_cleared:
  "\<not> has (f AND NOT EXT2_FLAG_DIRTY) EXT2_FLAG_DIRTY"
  "has (f AND NOT EXT2_FLAG_DIRTY) EXT2_FLAG_FS_DIRTY \<longleftrightarrow> has f EXT2_FLAG_FS_DIRTY" for f :: u32
proof -
  show "\<not> has (f AND NOT EXT2_FLAG_DIRTY) EXT2_FLAG_DIRTY"
    by (simp add: has_def and.assoc)
  show "has (f AND NOT EXT2_FLAG_DIRTY) EXT2_FLAG_FS_DIRTY \<longleftrightarrow> has f EXT2_FLAG_FS_DIRTY"
    by (rule has_and_not_disjoint) simp
qed

text \<open>A sector that is written apart from the descriptor of the group leaves the inode where it is.\<close>

lemma inode_ready_write:
  assumes "inode_ready pc_ok pc_view s ino" and "pc_ok (x_dev s) b" and "length buf = 512"
    and "b \<noteq> inode_table_lba s ino"
    and s1_def: "s1 = s\<lparr>x_dev := fst (blk_write (pc_platform clk junk) (x_dev s) b buf)\<rparr>"
  shows "inode_ready pc_ok pc_view s1 ino" and "inode_place pc_view s1 ino = inode_place pc_view s ino"
    and "pc_ok (x_dev s1) c \<longleftrightarrow> pc_ok (x_dev s) c"
    and "pc_ok (x_dev s) c \<Longrightarrow> pc_view (x_dev s1) c = (if c = b then buf else pc_view (x_dev s) c)"
proof -
  show dom: "pc_ok (x_dev s1) c \<longleftrightarrow> pc_ok (x_dev s) c" for c
    using pc.write_dom [OF assms(2,3)] by (simp add: s1_def)
  show view: "pc_ok (x_dev s) c \<Longrightarrow> pc_view (x_dev s1) c = (if c = b then buf else pc_view (x_dev s) c)" for c
    using pc.write_view [OF assms(2,3)] by (simp add: s1_def)
  have ctx: "x_context s1 = x_context s" by (simp add: s1_def)
  have table: "inode_table_lba s1 ino = inode_table_lba s ino"
    by (simp add: inode_table_lba_def inode_group_def ctx)
  have "pc_view (x_dev s1) (inode_table_lba s ino) = pc_view (x_dev s) (inode_table_lba s ino)"
    using view assms(1,4) by (simp add: inode_ready_def)
  then show place: "inode_place pc_view s1 ino = inode_place pc_view s ino"
    by (simp add: inode_place_def inode_group_def table ctx)
  show "inode_ready pc_ok pc_view s1 ino"
    using assms(1) unfolding inode_ready_def place table ctx dom .
qed

text \<open>
  C21: Closing a file whose inode was changed saves the inode: opening the same inode number afterwards
  finds the inode as it was in memory. When the buffer holds data that is not written yet, as after a
  write, its sector takes the buffer as well; no other sector of the disk changes. (The sector of the
  data must be neither the one of the inode nor the one of the group's descriptor.)
\<close>

theorem ext2_close_saves_inode:
  assumes "inode_ready pc_ok pc_view s (e_inode_number fe)" and "wf_inode (e_inode fe)"
    and "has (e_flags fe) EXT2_FLAG_FS_DIRTY"
    and "pc_ok (x_dev s) (first_sector s (e_inode fe))"
    and "has (e_flags fe) EXT2_FLAG_DIRTY \<longrightarrow>
      e_sector fe \<noteq> 0 \<and> pc_ok (x_dev s) (e_sector fe) \<and> length (e_buffer fe) = 512 \<and>
      e_sector fe \<noteq> inode_table_lba s (e_inode_number fe) \<and>
      e_sector fe \<noteq> fst (inode_place pc_view s (e_inode_number fe))"
  shows "\<exists>s' fe2 s2. ext2_close (pc_platform clk junk) (Some fe) e s = Some ((0, e), s') \<and>
    ext2_open_inode (pc_platform clk junk) (e_inode_number fe) zero_ent s' = Some (fe2, s2) \<and>
    e_inode fe2 = e_inode fe \<and>
    (\<forall>b. pc_ok (x_dev s) b \<longrightarrow> b \<noteq> fst (inode_place pc_view s (e_inode_number fe)) \<longrightarrow>
      pc_view (x_dev s') b =
        (if has (e_flags fe) EXT2_FLAG_DIRTY \<and> b = e_sector fe then e_buffer fe else pc_view (x_dev s) b))"
proof (cases "has (e_flags fe) EXT2_FLAG_DIRTY")
  case False
  then show ?thesis using close_clean_saves_inode [OF assms(1-3) _ assms(4)] by simp
next
  case True
  let ?P = "pc_platform clk junk" and ?fe = "fe\<lparr>e_flags := e_flags fe AND NOT EXT2_FLAG_DIRTY\<rparr>"
  let ?s = "s\<lparr>x_dev := fst (blk_write ?P (x_dev s) (e_sector fe) (e_buffer fe))\<rparr>"
  from True assms(5) have okd: "e_sector fe \<noteq> 0" "pc_ok (x_dev s) (e_sector fe)" "length (e_buffer fe) = 512"
    "e_sector fe \<noteq> inode_table_lba s (e_inode_number fe)"
    and apart: "e_sector fe \<noteq> fst (inode_place pc_view s (e_inode_number fe))" by auto
  note w = inode_ready_write [OF assms(1) okd(2,3,4) refl [of ?s]]
  have "ext2_flush ?P fe s = (0, ?fe, ?s)"
    using True okd pc.write_rc [OF okd(2,3)]
    by (simp add: ext2_flush_def ent_write_def case_prod_beta)
  then have close: "ext2_close ?P (Some fe) e s = ext2_close ?P (Some ?fe) e ?s"
    using True flags_cleared(1) [of "e_flags fe"] by (simp add: ext2_close_def)
  have "\<exists>s' fe2 s2. ext2_close ?P (Some ?fe) e ?s = Some ((0, e), s') \<and>
    ext2_open_inode ?P (e_inode_number ?fe) zero_ent s' = Some (fe2, s2) \<and> e_inode fe2 = e_inode ?fe \<and>
    (\<forall>b. pc_ok (x_dev ?s) b \<longrightarrow> b \<noteq> fst (inode_place pc_view ?s (e_inode_number ?fe)) \<longrightarrow>
      pc_view (x_dev s') b = pc_view (x_dev ?s) b)"
    by (rule close_clean_saves_inode)
      (use assms(2-4) w flags_cleared [of "e_flags fe"] in \<open>simp_all add: first_sector_def\<close>)
  then show ?thesis unfolding close using True w(2-4) by simp
qed

end
