(* ===== verification/Demo_Ext.thy ===== *)
theory Demo_Ext
  imports Ext_Read
begin

text \<open>
  A small ext2 volume in the memory of the PC driver, on which the theorems about embext.c are
  instantiated: eight blocks of one kilobyte, one block group. The superblock is in disk block 2,
  the group descriptors in 4, the inodes in 10, the root directory in 12 and 13 and the file
  \<open>a\<close>, 600 bytes, in 14 and 15. Disk block 3 is what the driver takes for the bitmap.
\<close>

definition demo_sb :: superblock where
  "demo_sb = (superblock_of (replicate 264 0))
    \<lparr>s_inodes_count := 8, s_blocks_count := 8, s_free_blocks_count := 2, s_first_data_block := 1,
     s_blocks_per_group := 8192, s_inodes_per_group := 8, s_inode_size := 128, s_rev_level := 1,
     s_magic := 0xEF53\<rparr>"

definition demo_bg :: block_group_descriptor where
  "demo_bg = (bg_of (replicate 20 0))\<lparr>bg_block_bitmap := 3, bg_inode_table := 5, bg_free_blocks_count := 2\<rparr>"

definition demo_root :: inode where
  "demo_root = (inode_of (replicate 128 0))
    \<lparr>i_mode := 0x41ED, i_size := 1024, i_block := 6 # replicate 14 0\<rparr>"

definition demo_inode :: inode where
  "demo_inode = (inode_of (replicate 128 0))
    \<lparr>i_mode := 0x81A4, i_size := 600, i_block := 7 # replicate 14 0\<rparr>"

text \<open>The entries \<open>.\<close> and \<open>a\<close> of the root directory.\<close>

definition demo_dir :: "byte list" where
  "demo_dir =
    [2, 0, 0, 0, 12, 0, 1, 2, 0x2E, 0, 0, 0,
     3, 0, 0, 0, 0xF4, 3, 1, 1, 0x61, 0, 0, 0]"

definition demo_sector :: "nat \<Rightarrow> sector" where
  "demo_sector k =
    (if k = 2 then superblock_bytes demo_sb @ replicate 248 0
     else if k = 3 then 0xFF # replicate 511 0
     else if k = 4 then bg_bytes demo_bg @ replicate 492 0
     else if k = 10 then replicate 128 0 @ inode_bytes demo_root @ inode_bytes demo_inode @ replicate 128 0
     else if k = 12 then demo_dir @ replicate 488 0
     else if k = 14 \<or> k = 15 then replicate 512 0x62
     else replicate 512 0)"

definition demo_edev :: pc_dev where
  "demo_edev =
    \<lparr>pc_blocks = (\<lambda>a. demo_sector (a div 512) ! (a mod 512)), block_fs_size = 8192, block_ro = 0, image_name = None\<rparr>"

definition demo_estate :: "pc_dev estate" where
  "demo_estate =
    \<lparr>x_dev = demo_edev,
     x_context =
       \<lparr>x_part_start = 0, x_superblock = remembered demo_sb 0, x_sparse = 0, x_sysbuf = demo_sector 2,
        x_superblock_block = 1, x_read_only = 0, x_num_blockgroups = 1, x_num_superblocks = 1,
        x_superblock_blocks = [1]\<rparr>,
     x_dirent = \<lparr>d_ino = replicate 4 0, d_name = replicate 256 0\<rparr>, x_ticks = 1\<rparr>"

text \<open>The file open at its first byte, and the same for the root directory.\<close>

definition demo_ent :: file_ent where
  "demo_ent = zero_ent
    \<lparr>e_flags := 2, e_inode_number := 3, e_sector := 14, e_sectors_left := 1,
     e_buffer := replicate 512 0x62, e_inode := demo_inode\<rparr>"

definition demo_root_ent :: file_ent where
  "demo_root_ent = zero_ent
    \<lparr>e_flags := 2, e_inode_number := 2, e_sector := 12, e_sectors_left := 1,
     e_buffer := demo_sector 12, e_inode := demo_root\<rparr>"

lemma demo_ext_wf [simp]: "wf_superblock demo_sb" "wf_inode demo_root" "wf_inode demo_inode"
  by (simp_all add: wf_superblock_def demo_sb_def superblock_of_def get32s_def wf_inode_def
      demo_root_def demo_inode_def inode_of_def)

lemma length_demo_sector [simp]: "length (demo_sector k) = 512"
  by (simp add: demo_sector_def length_superblock_bytes length_inode_bytes demo_dir_def)

lemma demo_eview: "pc_view demo_edev b = demo_sector (unat b)"
  by (rule nth_equalityI) (simp_all add: pc_view_def demo_edev_def)

lemma demo_eok: "pc_ok demo_edev b \<longleftrightarrow> unat b < 16"
  by (auto simp: pc_ok_def demo_edev_def)

lemma demo_estate_simps [simp]:
  "x_dev demo_estate = demo_edev" "sb_of demo_estate = remembered demo_sb 0" "part_of demo_estate = 0"
  "x_superblock_block (x_context demo_estate) = 1" "x_superblock_blocks (x_context demo_estate) = [1]"
  "x_num_blockgroups (x_context demo_estate) = 1"
  "x_dirent demo_estate = \<lparr>d_ino = replicate 4 0, d_name = replicate 256 0\<rparr>"
  by (simp_all add: demo_estate_def)

lemma demo_sb_simps [simp]:
  "s_log_block_size (remembered demo_sb t) = 0" "s_blocks_per_group demo_sb = 8192"
  "s_inodes_per_group (remembered demo_sb t) = 8" "s_inode_size (remembered demo_sb t) = 128"
  "s_log_block_size demo_sb = 0" "to_lba (remembered demo_sb t) b = 2 * b"
proof -
  have zero: "get32 (replicate 264 0) n = 0" if "n + 3 < 264" for n
    using that by (simp add: get32_def le32_def)
  show 1: "s_log_block_size demo_sb = 0" by (simp add: demo_sb_def superblock_of_def zero)
  show "s_log_block_size (remembered demo_sb t) = 0" "s_blocks_per_group demo_sb = 8192"
    "s_inodes_per_group (remembered demo_sb t) = 8" "s_inode_size (remembered demo_sb t) = 128"
    using 1 by (simp_all add: remembered_def demo_sb_def)
  show "to_lba (remembered demo_sb t) b = 2 * b"
    using 1 by (simp add: to_lba_def shl32_def remembered_def push_bit_eq_mult)
qed

section \<open>Mounting and the superblock\<close>

lemma demo_superblock: "superblock_of (pc_view demo_edev 2) = demo_sb"
  by (simp add: demo_eview demo_sector_def superblock_of_bytes)

lemma demo_ext_mount:
  "ext2_mount (pc_platform (\<lambda>_. 0) (\<lambda>_. 0)) 0 16 0x83 demo_edev
    \<lparr>d_ino = replicate 4 0, d_name = replicate 256 0\<rparr> 0 = Some (0, demo_estate)"
proof -
  have sb: "mount_sparse demo_sb = False" "num_groups demo_sb = Some 1"
  proof -
    have zero: "get32 (replicate 264 0) n = 0" if "n + 3 < 264" for n
      using that by (simp add: get32_def le32_def)
    show "mount_sparse demo_sb = False"
      by (simp add: mount_sparse_def demo_sb_def superblock_of_def zero has_def)
    show "num_groups demo_sb = Some 1"
      by (simp add: num_groups_def demo_sb_def div32_def mod32_def)
  qed
  then have groups: "copy_groups demo_sb = Some [0]" by (simp add: copy_groups_def)
  have ok: "pc_ok demo_edev (0 + 2)" by (simp add: demo_eok)
  have ro: "blk_read_only (pc_platform (\<lambda>_. 0) (\<lambda>_. 0)) demo_edev = 0"
    and clk: "plat_time (pc_platform (\<lambda>_. 0) (\<lambda>_. 0)) 0 = 0"
    by (simp_all add: pc_platform_def pc_get_device_read_only_def demo_edev_def)
  have buf: "demo_sector 2 = pc_view demo_edev 2" by (simp add: demo_eview)
  show ?thesis
    by (simp add: pc.mount_result [OF ok] demo_superblock groups sb ro clk demo_estate_def first_block_def buf)
qed

lemma demo_copy: "copy_block demo_estate b = 2 * b"
  by (simp add: copy_block_def)

lemma umount_writes_copies_witness:
  "pc_view (snd (ext2_umount (pc_platform (\<lambda>_. 0) (\<lambda>_. 0)) demo_estate)) 2 =
     copy_bytes (remembered demo_sb 0) 1 \<and>
   pc_view (snd (ext2_umount (pc_platform (\<lambda>_. 0) (\<lambda>_. 0)) demo_estate)) 12 = demo_sector 12"
  using umount_writes_copies [of demo_estate "\<lambda>_. 0" "\<lambda>_. 0" 0
      "snd (ext2_umount (pc_platform (\<lambda>_. 0) (\<lambda>_. 0)) demo_estate)"]
  by (simp add: demo_copy demo_eok demo_eview ext2_umount_def remembered_def)

lemma remount_sees_unmount_witness:
  "\<exists>s'. ext2_mount (pc_platform (\<lambda>_. 0) (\<lambda>_. 0)) 0 16 0x83
      (snd (ext2_umount (pc_platform (\<lambda>_. 0) (\<lambda>_. 0)) demo_estate))
      \<lparr>d_ino = replicate 4 0, d_name = replicate 256 0\<rparr> 5 = Some (0, s') \<and>
    s_mnt_count (sb_of s') = s_mnt_count demo_sb + 2"
  using remount_sees_unmount [OF demo_ext_mount, of
      "snd (ext2_umount (pc_platform (\<lambda>_. 0) (\<lambda>_. 0)) demo_estate)" 5]
  by (auto simp: demo_copy demo_eok ext2_umount_def remembered_def)

section \<open>The bitmap\<close>

lemma demo_table: "table_blocks demo_estate 0 = {4}"
  by (simp add: table_blocks_def bg_block_def)

lemma demo_bitmap_block:
  "off < 4096 \<Longrightarrow> unshifted_bitmap_block pc_view demo_estate 0 off = 3"
  "off < 4096 \<Longrightarrow> volume_bitmap_block pc_view demo_estate 0 off = 6"
proof -
  assume "off < 4096"
  then have "unat (off div 8 div 512) = 0" by (simp add: unat_div word_less_nat_alt)
  then have "off div 8 div 512 = 0" by (simp only: unat_eq_0)
  moreover have "group_descriptor pc_view demo_estate 0 = demo_bg"
    by (simp add: group_descriptor_def bg_block_def bg_offset_def demo_eview demo_sector_def slice_here
        bg_of_bytes [of _ "[]", simplified])
  ultimately show "unshifted_bitmap_block pc_view demo_estate 0 off = 3" "volume_bitmap_block pc_view demo_estate 0 off = 6"
    by (simp_all add: unshifted_bitmap_block_def volume_bitmap_block_def demo_bg_def)
qed

lemma demo_ext_ready: "ext_ready demo_estate 9 0 9" "ext_ready demo_estate 5 0 5"
  by (simp_all add: ext_ready_def demo_table demo_eok demo_bitmap_block remembered_def)

lemma demo_bits: "bitmap_bit (demo_sector 3) 5" "\<not> bitmap_bit (demo_sector 3) 9"
  by (simp_all add: bitmap_bit_def demo_sector_def)

lemma change_allocated_flips_bit_witness:
  "\<exists>s'. ext2_change_allocated (pc_platform (\<lambda>_. 0) (\<lambda>_. 0)) 9 1 0 demo_estate = Some (0, s') \<and>
    bitmap_bit (pc_view (x_dev s') 3) 9 \<and> pc_view (x_dev s') 4 = demo_sector 4 \<and>
    pc_view (x_dev s') 6 = demo_sector 6"
  using change_allocated_flips_bit [OF demo_ext_ready(1), of True "\<lambda>_. 0" "\<lambda>_. 0" 0] demo_bits(2)
  by (auto simp: demo_bitmap_block demo_eview demo_eok)

lemma change_allocated_refused_witness:
  "\<exists>s'. ext2_change_allocated (pc_platform (\<lambda>_. 0) (\<lambda>_. 0)) 5 1 0 demo_estate = Some (- 1, s') \<and>
    x_dev s' = demo_edev"
  using change_allocated_refused [OF demo_ext_ready(2), of True "\<lambda>_. 0" "\<lambda>_. 0" 0] demo_bits(1)
  by (auto simp: demo_bitmap_block demo_eview)

section \<open>Files\<close>

lemma demo_spb [simp]: "spb demo_estate = 2"
  by (simp add: spb_def)

lemma demo_lba:
  "q < 2 \<Longrightarrow> ext_lba demo_estate demo_inode q = 14 + of_nat q"
  "q < 2 \<Longrightarrow> ext_lba demo_estate demo_root q = 12 + of_nat q"
  by (simp_all add: ext_lba_def demo_inode_def demo_root_def)

lemma demo_direct:
  "direct_file pc_ok demo_estate demo_inode 1" "direct_file pc_ok demo_estate demo_root 1"
proof -
  have q: "q < 2 \<Longrightarrow> q = 0 \<or> q = 1" for q :: nat by auto
  then show "direct_file pc_ok demo_estate demo_inode 1" "direct_file pc_ok demo_estate demo_root 1"
    by (auto simp: direct_file_def demo_lba demo_eok dest!: q) (simp_all add: demo_inode_def demo_root_def)
qed

lemma demo_ent_reading: "ext_reading pc_view demo_estate 1 0 demo_ent"
  by (auto simp: ext_reading_def ext_at_def ext_on_def left_ok_def demo_lba demo_eview demo_ent_def
      zero_ent_def demo_sector_def intro!: disjI1 exI [of _ 0])

lemma demo_root_reading: "ext_reading pc_view demo_estate 1 0 demo_root_ent"
  by (auto simp: ext_reading_def ext_at_def ext_on_def left_ok_def demo_lba demo_eview demo_root_ent_def
      zero_ent_def intro!: disjI1 exI [of _ 0])

lemma demo_ents [simp]: "e_inode demo_ent = demo_inode" "e_inode demo_root_ent = demo_root"
  by (simp_all add: demo_ent_def demo_root_ent_def)

lemmas demo_simps = demo_direct [simplified] demo_ent_reading [simplified] demo_root_reading [simplified]

lemma demo_sectors:
  "ext_bytes pc_view demo_estate demo_inode (Suc 0) = take 600 (demo_sector 14 @ demo_sector 15)"
  "ext_bytes pc_view demo_estate demo_root (Suc 0) = demo_sector 12 @ demo_sector 13"
proof -
  have q: "[0..<2] = [0, 1 :: nat]" by (simp add: upt_rec)
  show "ext_bytes pc_view demo_estate demo_inode (Suc 0) = take 600 (demo_sector 14 @ demo_sector 15)"
    "ext_bytes pc_view demo_estate demo_root (Suc 0) = demo_sector 12 @ demo_sector 13"
    by (simp_all add: ext_bytes_def q demo_lba demo_eview) (simp_all add: demo_inode_def demo_root_def)
qed

lemma demo_ext_bytes: "ext_bytes pc_view demo_estate demo_inode (Suc 0) = replicate 600 0x62"
proof -
  have "demo_sector 14 @ demo_sector 15 = replicate 1024 0x62"
    by (simp add: demo_sector_def flip: replicate_add)
  then show ?thesis by (simp only: demo_sectors take_replicate) simp
qed

lemma demo_root_bytes: "length (ext_bytes pc_view demo_estate demo_root (Suc 0)) = 1024"
  by (simp add: demo_sectors)

lemma nth_root: "i < 24 \<Longrightarrow> ext_bytes pc_view demo_estate demo_root (Suc 0) ! i = demo_dir ! i"
proof -
  assume i: "i < 24"
  have "demo_sector 12 = demo_dir @ replicate 488 0" "length demo_dir = 24"
    by (simp_all add: demo_sector_def demo_dir_def)
  with i show ?thesis by (simp add: demo_sectors nth_append)
qed

lemma ext2_read_delivers_witness:
  "\<exists>fe' s'. ext2_read (pc_platform (\<lambda>_. 0) (\<lambda>_. 0)) (Some demo_ent) 1000 0 demo_estate =
    Some ((600, 0, replicate 600 0x62), Some fe', s') \<and> x_dev s' = demo_edev"
  using ext2_read_delivers [of demo_estate demo_ent 1 0 1000 "\<lambda>_. 0" "\<lambda>_. 0" 0] demo_simps
  by (auto simp: Let_def demo_ext_bytes)

lemma ext2_lseek_arrives_witness:
  "\<exists>fe'. ext2_lseek (pc_platform (\<lambda>_. 0) (\<lambda>_. 0)) (Some demo_ent) 550 SEEK_SET demo_estate =
    Some ((550, 0), Some fe', demo_estate) \<and> ext_place pc_view demo_estate 1 550 fe'"
  using ext2_lseek_arrives [of demo_estate demo_ent 1 0 550 SEEK_SET 550 "\<lambda>_. 0" "\<lambda>_. 0"]
    demo_simps
  by (auto simp: ext_lseek_target_def demo_ent_def zero_ent_def has_def demo_inode_def)

lemma ext2_lseek_countdown_witness:
  "unat (e_sectors_left (seek_in_block 550 0 demo_ent)) = 2"
  using ext2_lseek_countdown [of demo_estate 0 demo_ent 1 550 0]
  by (simp add: left_ok_def demo_ent_def)

lemma ext2_readdir_entry_witness:
  "\<exists>de fe' s'. ext2_readdir (pc_platform (\<lambda>_. 0) (\<lambda>_. 0)) (Some demo_root_ent) 0 demo_estate =
      Some ((Some de, 0), Some fe', s') \<and>
    dirent_ino de = 2 \<and> cstr (d_name de) = [0x2E] \<and> ext_place pc_view demo_estate 1 12 fe'"
proof -
  define B where "B = ext_bytes pc_view demo_estate demo_root 1"
  have nth: "i < 24 \<Longrightarrow> B ! i = demo_dir ! i" for i by (simp add: B_def nth_root)
  have len: "length B = 1024" by (simp add: B_def demo_root_bytes)
  have B: "get32 B 0 = 2" "get16 B 4 = 12" "B ! 6 = 1"
    by (simp_all add: get32_def get16_def nth demo_dir_def le32_def le16_def)
  have "slice 8 1 B = [0x2E]"
    using len by (simp add: slice_def take_Suc_conv_app_nth nth demo_dir_def)
  then have name: "cstr (slice 8 1 B) = [0x2E]" by (simp add: cstr_def)
  have ent: "\<not> has (e_flags demo_root_ent) EXT2_FLAG_DIRTY"
    by (simp add: demo_root_ent_def has_def)
  show ?thesis
    using ext2_readdir_entry [OF demo_direct(2) [folded demo_ents(2)] demo_root_reading ent, of B 12 1
        "\<lambda>_. 0" "\<lambda>_. 0" 0] B len name
    by (auto simp: B_def)
qed

text \<open>The file after a write: its first sector has new bytes, and the inode a new time.\<close>

definition demo_written_ent :: file_ent where
  "demo_written_ent = demo_ent\<lparr>e_flags := 0x36, e_inode := demo_inode\<lparr>i_mtime := 77\<rparr>, e_buffer := replicate 512 0x63\<rparr>"

lemma demo_place: "inode_place pc_view demo_estate 3 = (10, 256)" "inode_table_lba demo_estate 3 = 4"
proof -
  show "inode_table_lba demo_estate 3 = 4" by (simp add: inode_table_lba_def inode_group_def)
  then have "bg_of (slice (unat (inode_group demo_estate 3 * 32 mod 512)) 20
      (pc_view demo_edev (inode_table_lba demo_estate 3))) = demo_bg"
    by (simp add: inode_group_def demo_eview demo_sector_def slice_here bg_of_bytes [of _ "[]", simplified])
  then show "inode_place pc_view demo_estate 3 = (10, 256)"
    by (simp add: inode_place_def demo_bg_def)
qed

lemma ext2_close_saves_inode_witness:
  "\<exists>s' fe2 s2. ext2_close (pc_platform (\<lambda>_. 0) (\<lambda>_. 0)) (Some demo_written_ent) 0 demo_estate = Some ((0, 0), s') \<and>
    ext2_open_inode (pc_platform (\<lambda>_. 0) (\<lambda>_. 0)) 3 zero_ent s' = Some (fe2, s2) \<and>
    i_mtime (e_inode fe2) = 77 \<and> pc_view (x_dev s') 14 = replicate 512 0x63 \<and>
    pc_view (x_dev s') 12 = demo_sector 12"
proof -
  have ent: "e_inode_number demo_written_ent = 3" "e_inode demo_written_ent = demo_inode\<lparr>i_mtime := 77\<rparr>"
    "e_sector demo_written_ent = 14" "e_buffer demo_written_ent = replicate 512 0x63"
    by (simp_all add: demo_written_ent_def) (simp_all add: demo_ent_def)
  have "inode_ready pc_ok pc_view demo_estate 3" by (simp add: inode_ready_def demo_place demo_eok)
  moreover have "wf_inode (e_inode demo_written_ent)" using demo_ext_wf(3) by (simp add: ent wf_inode_def)
  moreover have "pc_ok demo_edev (first_sector demo_estate (e_inode demo_written_ent))"
    by (simp add: first_sector_def ent demo_inode_def demo_eok)
  moreover have "has (e_flags demo_written_ent) EXT2_FLAG_FS_DIRTY" "has (e_flags demo_written_ent) EXT2_FLAG_DIRTY"
    by (simp_all add: demo_written_ent_def has_def)
  ultimately obtain s' fe2 s2 where
    "ext2_close (pc_platform (\<lambda>_. 0) (\<lambda>_. 0)) (Some demo_written_ent) 0 demo_estate = Some ((0, 0), s')"
    "ext2_open_inode (pc_platform (\<lambda>_. 0) (\<lambda>_. 0)) 3 zero_ent s' = Some (fe2, s2)"
    "e_inode fe2 = demo_inode\<lparr>i_mtime := 77\<rparr>"
    "\<forall>b. pc_ok demo_edev b \<longrightarrow> b \<noteq> 10 \<longrightarrow>
      pc_view (x_dev s') b = (if b = 14 then replicate 512 0x63 else pc_view demo_edev b)"
    using ext2_close_saves_inode [of demo_estate demo_written_ent "\<lambda>_. 0" "\<lambda>_. 0" 0]
    by (simp add: ent demo_place demo_eok cong: if_cong) blast
  then show ?thesis by (auto simp: demo_eok demo_eview)
qed

end
