(* ===== verification/Sd_Card.thy ===== *)
theory Sd_Card
  imports Block_Device
begin

text \<open>
  The SD card driver, block_drivers/block_sd.c: the command layer (\<open>sd_command\<close>), the set-up of the
  card (\<open>sd_card_reset\<close>, \<open>block_init\<close>) and the block interface of block.h on top of it. The library
  behind it (libopencm3) and the hardware are the parameter \<open>'b hw\<close>; what a card does on the bus is
  stated in the theorems as the bytes it answers to the bytes it is sent (\<open>answers\<close>).
\<close>

section \<open>The hardware\<close>

text \<open>The names config.h gives to ports and pins, and the calls of libopencm3 the driver makes.\<close>

datatype sd_port = SD_PORT | SD_WP_PORT | SD_CP_PORT

datatype sd_pin = SD_CS_PIN | SD_MOSI_PIN | SD_SCK_PIN | SD_MISO_PIN | SD_WP_PIN | SD_CP_PIN | SD_WP | SD_CP

datatype gpio_mode = GPIO_MODE_INPUT | GPIO_MODE_OUTPUT_50_MHZ

datatype gpio_cnf = GPIO_CNF_OUTPUT_PUSHPULL | GPIO_CNF_OUTPUT_ALTFN_PUSHPULL | GPIO_CNF_INPUT_FLOAT

datatype rcc_bit = SD_SPI_APB_ENR_BIT | SD_IO_APB_ENR_BIT

datatype hw_call =
    rcc_peripheral_enable_clock rcc_bit
  | gpio_set_mode sd_port gpio_mode gpio_cnf sd_pin
  | gpio_set sd_port sd_pin
  | gpio_clear sd_port sd_pin
  | spi_set_unidirectional_mode
  | spi_disable_crc
  | spi_set_dff_8bit
  | spi_set_full_duplex_mode
  | spi_enable_software_slave_management
  | spi_set_nss_high
  | spi_set_baudrate_prescaler_4
  | spi_set_master_mode
  | spi_set_clock_polarity_0
  | spi_set_clock_phase_0
  | spi_disable_ss_output
  | spi_enable

text \<open>
  \<open>hw_do H b call\<close> is the state of the hardware after a call without a result, \<open>spi_xfer H b x\<close>
  sends one frame and gives the frame that came back, \<open>gpio_get H b port pin\<close> reads a pin. The
  last field says which macros config.h defines.
\<close>

record 'b hw =
  hw_do :: "'b \<Rightarrow> hw_call \<Rightarrow> 'b"
  spi_xfer :: "'b \<Rightarrow> u16 \<Rightarrow> 'b \<times> u16"
  gpio_get :: "'b \<Rightarrow> sd_port \<Rightarrow> sd_pin \<Rightarrow> u16"
  defined_pin :: "sd_pin \<Rightarrow> bool"

section \<open>Model\<close>

abbreviation (input) SD_CARD_SC :: u16 where "SD_CARD_SC \<equiv> 2"
abbreviation (input) SD_CARD_HC :: u16 where "SD_CARD_HC \<equiv> 3"
abbreviation (input) SD_CARD_ERROR :: u16 where "SD_CARD_ERROR \<equiv> 99"

abbreviation (input) CMD0 :: byte where "CMD0 \<equiv> 0"
abbreviation (input) CMD8 :: byte where "CMD8 \<equiv> 8"
abbreviation (input) CMD9 :: byte where "CMD9 \<equiv> 9"
abbreviation (input) CMD12 :: byte where "CMD12 \<equiv> 12"
abbreviation (input) CMD17 :: byte where "CMD17 \<equiv> 17"
abbreviation (input) CMD24 :: byte where "CMD24 \<equiv> 24"
abbreviation (input) ACMD41 :: byte where "ACMD41 \<equiv> 0xA9"

abbreviation (input) SD_ERR_NOT_PRESENT :: byte where "SD_ERR_NOT_PRESENT \<equiv> 2"

definition SD_RETRIES :: nat where
  "SD_RETRIES = 1000"

record SDCard =
  card_type :: u16
  card_read_only :: byte
  card_size :: u32
  card_error :: byte

text \<open>The state: the hardware and the global \<open>card\<close>.\<close>

record 'b sd =
  sd_bus :: 'b
  sd_card :: SDCard

definition card0 :: SDCard where
  "card0 = \<lparr>card_type = 0, card_read_only = 0, card_size = 0, card_error = 0\<rparr>"

subsection \<open>Frames on the bus\<close>

text \<open>A sequence of frames, with the frames that come back.\<close>

primrec spi_run :: "'b hw \<Rightarrow> u16 list \<Rightarrow> 'b \<Rightarrow> u16 list \<times> 'b" where
  "spi_run H [] b = ([], b)"
| "spi_run H (x # xs) b =
    (case spi_xfer H b x of (b1, r) \<Rightarrow> case spi_run H xs b1 of (rs, b2) \<Rightarrow> (r # rs, b2))"

definition spi_send :: "'b hw \<Rightarrow> u16 list \<Rightarrow> 'b \<Rightarrow> 'b" where
  "spi_send H xs b = snd (spi_run H xs b)"

definition spi_receive :: "'b hw \<Rightarrow> nat \<Rightarrow> 'b \<Rightarrow> u16 list \<times> 'b" where
  "spi_receive H n b = spi_run H (replicate n 0xFF) b"

text \<open>The loops that poll the card have no bound.\<close>

partial_function (option) spi_while :: "'b hw \<Rightarrow> (u16 \<Rightarrow> bool) \<Rightarrow> 'b \<Rightarrow> (u16 \<times> 'b) option" where
  "spi_while H again b =
    (case spi_xfer H b 0xFF of (b1, c) \<Rightarrow> if again c then spi_while H again b1 else Some (c, b1))"

subsection \<open>Commands\<close>

text \<open>The reply of the card: the first frame that is not \<open>0xFF\<close>, of at most \<open>n\<close>.\<close>

primrec sd_reply :: "'b hw \<Rightarrow> nat \<Rightarrow> u16 \<Rightarrow> 'b \<Rightarrow> u16 \<times> 'b" where
  "sd_reply H 0 c b = (c, b)"
| "sd_reply H (Suc n) c b =
    (case spi_xfer H b 0xFF of (b1, c1) \<Rightarrow> if c1 \<noteq> 0xFF then (c1, b1) else sd_reply H n c1 b1)"

definition sd_frame :: "byte \<Rightarrow> u32 \<Rightarrow> byte \<Rightarrow> u16 list" where
  "sd_frame code data chksm =
    [0xFF, 0x40 + (ucast code AND 0x7F),
     ucast (drop_bit 24 data AND 0xFF), ucast (drop_bit 16 data AND 0xFF),
     ucast (drop_bit 8 data AND 0xFF), ucast (data AND 0xFF), ucast chksm]"

text \<open>The 55 before an application command, and the wait for its reply.\<close>

definition sd_prefix :: "'b hw \<Rightarrow> byte \<Rightarrow> 'b \<Rightarrow> 'b option" where
  "sd_prefix H code b =
    (if code AND 0x80 \<noteq> 0 then
       do {
         (_, b1) \<leftarrow> spi_while H (\<lambda>c. c = 0xFF) (spi_send H [0xFF, 0x40 + 55, 0, 0, 0, 0, 1] b);
         Some b1 }
     else Some b)"

definition sd_command :: "'b hw \<Rightarrow> byte \<Rightarrow> u32 \<Rightarrow> byte \<Rightarrow> 'b \<Rightarrow> (u16 \<times> 'b) option" where
  "sd_command H code data chksm b =
    do {
      b1 \<leftarrow> sd_prefix H code b;
      let b2 = spi_send H (sd_frame code data chksm) b1;
          b3 = (if code = CMD12 then spi_send H [0xFF] b2 else b2) in
      Some (sd_reply H SD_RETRIES 0 b3) }"

subsection \<open>The card's register\<close>

text \<open>
  The rest of the CSD after its first byte, in the two layouts; the indices count the frames read.
  \<open>i - 9\<close> is negative for a block length below 512, where the shift is undefined (\<open>None\<close>).
\<close>

definition write_protected :: "u16 \<Rightarrow> SDCard \<Rightarrow> SDCard" where
  "write_protected c crd = (if c AND 0x30 \<noteq> 0 then crd\<lparr>card_read_only := 1\<rparr> else crd)"

definition csd_high :: "u16 list \<Rightarrow> SDCard \<Rightarrow> SDCard" where
  "csd_high r crd =
    write_protected (r ! 13) (crd\<lparr>card_type := SD_CARD_HC,
      card_size := push_bit 10 (push_bit 16 (ucast (r ! 6 AND 0xF)) + push_bit 8 (ucast (r ! 7)) +
        ucast (r ! 8) + 1)\<rparr>)"

definition csd_standard :: "u16 list \<Rightarrow> SDCard \<Rightarrow> SDCard option" where
  "csd_standard r crd =
    (let i = unat (r ! 4 AND 0xF);
         c_size = push_bit 10 (ucast (r ! 5 AND 3)) + push_bit 2 (ucast (r ! 6)) +
           (ucast (drop_bit 6 (r ! 7 AND 0xC0)) :: u32);
         c = push_bit 1 (r ! 8) + drop_bit 7 (r ! 9);
         mult = push_bit (unat (c AND 7) + 2) (1 :: u16) in
     if i < 9 then None
     else Some (write_protected (r ! 13) (crd\<lparr>card_type := SD_CARD_SC,
       card_size := push_bit (i - 9) ((c_size + 1) * ucast mult)\<rparr>)))"

subsection \<open>Starting the card\<close>

text \<open>The frames of the voltage check, left at the first that differs.\<close>

primrec spi_expect :: "'b hw \<Rightarrow> u16 list \<Rightarrow> 'b \<Rightarrow> bool \<times> 'b" where
  "spi_expect H [] b = (True, b)"
| "spi_expect H (x # xs) b =
    (case spi_xfer H b 0xFF of (b1, c) \<Rightarrow> if c \<noteq> x then (False, b1) else spi_expect H xs b1)"

text \<open>\<open>while(c == 1) c = sd_command(ACMD41, 1 << 30, 1)\<close>.\<close>

partial_function (option) sd_wait_ready :: "'b hw \<Rightarrow> 'b \<Rightarrow> 'b option" where
  "sd_wait_ready H b =
    do {
      (c, b1) \<leftarrow> sd_command H ACMD41 (push_bit 30 1) 1 b;
      if c = 1 then sd_wait_ready H b1 else Some b1 }"

text \<open>The first part, to the type the card has by its answer to \<open>CMD8\<close>; \<open>None\<close> in front is a failure.\<close>

definition sd_identify :: "'b hw \<Rightarrow> 'b sd \<Rightarrow> (bool \<times> 'b sd) option" where
  "sd_identify H s =
    (let fail = (\<lambda>b crd. Some (False, s\<lparr>sd_bus := b, sd_card := crd\<lparr>card_type := SD_CARD_ERROR\<rparr>\<rparr>));
         b1 = hw_do H (sd_bus s) (gpio_set SD_PORT SD_CS_PIN);
         b2 = spi_send H (replicate 20 0xFF) b1;
         b3 = hw_do H b2 (gpio_clear SD_PORT SD_CS_PIN) in
     do {
       (c, b4) \<leftarrow> sd_command H CMD0 0 0x95 b3;
       if c = 0xFF then fail b4 ((sd_card s)\<lparr>card_error := SD_ERR_NOT_PRESENT\<rparr>)
       else do {
         (c, b5) \<leftarrow> sd_command H CMD8 0x000001AA 0x87 b4;
         if c = 5 then Some (True, s\<lparr>sd_bus := b5, sd_card := (sd_card s)\<lparr>card_type := SD_CARD_SC\<rparr>\<rparr>)
         else if c = 1 then
           (case spi_expect H [0, 0, 1, 0xAA] b5 of (ok, b6) \<Rightarrow>
              if ok then Some (True, s\<lparr>sd_bus := b6, sd_card := (sd_card s)\<lparr>card_type := SD_CARD_HC\<rparr>\<rparr>)
              else fail b6 (sd_card s))
         else fail b5 (sd_card s) } })"

text \<open>The second part: the CSD.\<close>

definition sd_read_csd :: "'b hw \<Rightarrow> 'b sd \<Rightarrow> (int \<times> 'b sd) option" where
  "sd_read_csd H s =
    do {
      (c, b1) \<leftarrow> sd_command H CMD9 0 1 (sd_bus s);
      if c \<noteq> 0 then Some (- 1, s\<lparr>sd_bus := b1, sd_card := (sd_card s)\<lparr>card_type := SD_CARD_ERROR\<rparr>\<rparr>)
      else do {
        (_, b2) \<leftarrow> spi_while H (\<lambda>c. c = 0xFF) b1;
        (case spi_xfer H b2 0xFF of (b3, c) \<Rightarrow>
          (case spi_receive H 15 b3 of (r, b4) \<Rightarrow>
             if c AND 0x40 \<noteq> 0 then Some (0, s\<lparr>sd_bus := b4, sd_card := csd_high r (sd_card s)\<rparr>)
             else do {
               crd \<leftarrow> csd_standard r (sd_card s);
               Some (0, s\<lparr>sd_bus := b4, sd_card := crd\<rparr>) })) } }"

definition sd_card_reset :: "'b hw \<Rightarrow> 'b sd \<Rightarrow> (int \<times> 'b sd) option" where
  "sd_card_reset H s =
    (if defined_pin H SD_CP \<and> gpio_get H (sd_bus s) SD_CP_PORT SD_CP \<noteq> 0 then
       Some (- 1, s\<lparr>sd_card := (sd_card s)\<lparr>card_error := SD_ERR_NOT_PRESENT\<rparr>\<rparr>)
     else do {
       (ok, s1) \<leftarrow> sd_identify H s;
       if \<not> ok then Some (- 1, s1)
       else do {
         b \<leftarrow> sd_wait_ready H (sd_bus s1);
         sd_read_csd H (s1\<lparr>sd_bus := b\<rparr>) } })"

text \<open>The calls \<open>block_init\<close> makes before it resets the card.\<close>

definition sd_setup :: "'b hw \<Rightarrow> hw_call list" where
  "sd_setup H =
    [rcc_peripheral_enable_clock SD_SPI_APB_ENR_BIT,
     rcc_peripheral_enable_clock SD_IO_APB_ENR_BIT,
     gpio_set_mode SD_PORT GPIO_MODE_OUTPUT_50_MHZ GPIO_CNF_OUTPUT_PUSHPULL SD_CS_PIN,
     gpio_set_mode SD_PORT GPIO_MODE_OUTPUT_50_MHZ GPIO_CNF_OUTPUT_ALTFN_PUSHPULL SD_MOSI_PIN,
     gpio_set_mode SD_PORT GPIO_MODE_OUTPUT_50_MHZ GPIO_CNF_OUTPUT_ALTFN_PUSHPULL SD_SCK_PIN,
     gpio_set_mode SD_PORT GPIO_MODE_INPUT GPIO_CNF_INPUT_FLOAT SD_MISO_PIN] @
    (if defined_pin H SD_WP_PIN
     then [gpio_set_mode SD_WP_PORT GPIO_MODE_INPUT GPIO_CNF_INPUT_FLOAT SD_WP_PIN] else []) @
    (if defined_pin H SD_CP_PIN
     then [gpio_set_mode SD_CP_PORT GPIO_MODE_INPUT GPIO_CNF_INPUT_FLOAT SD_CP_PIN] else []) @
    [spi_set_unidirectional_mode, spi_disable_crc, spi_set_dff_8bit, spi_set_full_duplex_mode,
     spi_enable_software_slave_management, spi_set_nss_high, spi_set_baudrate_prescaler_4,
     spi_set_master_mode, spi_set_clock_polarity_0, spi_set_clock_phase_0, spi_disable_ss_output,
     spi_enable]"

definition sd_block_init :: "'b hw \<Rightarrow> 'b sd \<Rightarrow> (int \<times> 'b sd) option" where
  "sd_block_init H s =
    sd_card_reset H (s\<lparr>sd_bus := fold (\<lambda>call b. hw_do H b call) (sd_setup H) (sd_bus s)\<rparr>)"

subsection \<open>Blocks\<close>

text \<open>A standard capacity card is addressed by bytes.\<close>

definition sd_address :: "SDCard \<Rightarrow> blockno \<Rightarrow> u32" where
  "sd_address crd block = (if card_type crd = SD_CARD_SC then push_bit 9 block else block)"

definition sd_block_read :: "'b hw \<Rightarrow> 'b sd \<Rightarrow> blockno \<Rightarrow> sector \<Rightarrow> ('b sd \<times> sector \<times> int) option" where
  "sd_block_read H s block buf =
    do {
      (c, b1) \<leftarrow> sd_command H CMD17 (sd_address (sd_card s) block) 1 (sd_bus s);
      if c \<noteq> 0 then Some (s\<lparr>sd_bus := b1\<rparr>, buf, uint c)
      else do {
        (_, b2) \<leftarrow> spi_while H (\<lambda>c. c \<noteq> 0xFE) b1;
        (case spi_receive H 512 b2 of (r, b3) \<Rightarrow>
           Some (s\<lparr>sd_bus := spi_send H [0xFF, 0xFF] b3\<rparr>, map ucast r @ drop 512 buf, 0)) } }"

definition sd_block_write :: "'b hw \<Rightarrow> 'b sd \<Rightarrow> blockno \<Rightarrow> sector \<Rightarrow> ('b sd \<times> int) option" where
  "sd_block_write H s block buf =
    do {
      (c, b1) \<leftarrow> sd_command H CMD24 (sd_address (sd_card s) block) 1 (sd_bus s);
      if c \<noteq> 0 then Some (s\<lparr>sd_bus := b1\<rparr>, uint c)
      else
        let b2 = spi_send H ([0xFF, 0xFF, 0xFE] @ map ucast (take 512 buf) @ [0xFF, 0xFF]) b1;
            b3 = spi_send H [0xFF] b2 in
        do {
          (_, b4) \<leftarrow> spi_while H (\<lambda>c. c \<noteq> 0xFF) b3;
          Some (s\<lparr>sd_bus := b4\<rparr>, 0) } }"

definition sd_get_volume_size :: "'b sd \<Rightarrow> blockno" where
  "sd_get_volume_size s = card_size (sd_card s)"

definition sd_get_device_read_only :: "'b hw \<Rightarrow> 'b sd \<Rightarrow> int" where
  "sd_get_device_read_only H s =
    (if defined_pin H SD_WP \<and> gpio_get H (sd_bus s) SD_WP_PORT SD_WP \<noteq> 0 then 1
     else if card_read_only (sd_card s) \<noteq> 0 then 1 else 0)"

definition sd_block_sync :: int where "sd_block_sync = 0"

definition sd_block_halt :: int where "sd_block_halt = 0"

definition sd_get_error :: "'b sd \<Rightarrow> int" where
  "sd_get_error s = uint (card_error (sd_card s))"

end
