(* ===== verification/Sd_Proofs.thy ===== *)
theory Sd_Proofs
  imports Sd_Card
begin

text \<open>
  What the SD card driver does on the bus. \<open>answers H b xs ys b'\<close> says that the hardware in state
  \<open>b\<close>, sent the frames \<open>xs\<close>, gives the frames \<open>ys\<close> back and is then in state \<open>b'\<close>; a theorem names
  the conversation step by step and concludes what the driver returns.
\<close>

section \<open>Conversations\<close>

definition answers :: "'b hw \<Rightarrow> 'b \<Rightarrow> u16 list \<Rightarrow> u16 list \<Rightarrow> 'b \<Rightarrow> bool" where
  "answers H b xs ys b' \<longleftrightarrow> spi_run H xs b = (ys, b')"

text \<open>Polling: the card gives \<open>gap\<close>, then \<open>c\<close>.\<close>

definition polled :: "'b hw \<Rightarrow> 'b \<Rightarrow> u16 list \<Rightarrow> u16 \<Rightarrow> 'b \<Rightarrow> bool" where
  "polled H b gap c b' \<longleftrightarrow> answers H b (replicate (Suc (length gap)) 0xFF) (gap @ [c]) b'"

text \<open>
  The frames of a command as the specification of the cards lays them out, behind an idle frame: 01
  and the index in six bits, the argument with its highest byte first, and the checksum with the end
  bit. \<open>card_argument\<close> is what a card takes for the address of a block: the number of the block's
  first byte on a standard capacity card, the number of the block on a high capacity card.
\<close>

definition command_frame :: "nat \<Rightarrow> nat \<Rightarrow> nat \<Rightarrow> u16 list" where
  "command_frame index arg crc =
    map of_nat [255, 64 + index, arg div 2 ^ 24 mod 256, arg div 2 ^ 16 mod 256, arg div 2 ^ 8 mod 256,
      arg mod 256, crc]"

definition card_argument :: "SDCard \<Rightarrow> blockno \<Rightarrow> nat" where
  "card_argument crd block = (if card_type crd = SD_CARD_SC then 512 * unat block else unat block)"

text \<open>
  A command without the prefix of an application command, which is bit 7 of the driver's code, and the
  reply after \<open>k\<close> empty frames.
\<close>

definition replies :: "'b hw \<Rightarrow> 'b \<Rightarrow> byte \<Rightarrow> u32 \<Rightarrow> byte \<Rightarrow> nat \<Rightarrow> u16 \<Rightarrow> 'b \<Rightarrow> bool" where
  "replies H b code data chksm k c b' \<longleftrightarrow>
    (\<exists>junk b1. answers H b (command_frame (unat code mod 128) (unat data) (unat chksm)) junk b1 \<and>
      polled H b1 (replicate k 0xFF) c b')"

lemma unat_and_mask: "unat (x AND mask n) = unat x mod 2 ^ n" for x :: "'a::len word"
  unfolding take_bit_eq_mask [symmetric] by (simp only: unsigned_take_bit_eq) (simp only: take_bit_eq_mod)

lemma byte_of_word: "ucast (drop_bit n x AND 0xFF) = (of_nat (unat x div 2 ^ n mod 256) :: u16)" for x :: u32
proof -
  have "unat (drop_bit n x AND 0xFF) = unat x div 2 ^ n mod 256"
    using unat_and_mask [of "drop_bit n x" 8] unat_drop_bit_eq [of n x]
    by (simp only: drop_bit_eq_div) (simp add: mask_eq_exp_minus_1)
  then show ?thesis by (metis of_nat_unat)
qed

lemma sd_frame_command:
  "sd_frame code data chksm = command_frame (unat code mod 128) (unat data) (unat chksm)"
proof -
  have "unat (ucast code AND 0x7F :: u16) = unat code mod 128"
    using unat_and_mask [of "ucast code :: u16" 7] by (simp add: mask_eq_exp_minus_1 unat_ucast_8_16)
  then have "(ucast code AND 0x7F :: u16) = of_nat (unat code mod 128)" by (metis of_nat_unat ucast_id)
  then show ?thesis
    using byte_of_word [of 24 data] byte_of_word [of 16 data] byte_of_word [of 8 data] byte_of_word [of 0 data]
    by (simp add: sd_frame_def command_frame_def)
qed

lemma sd_address_argument: "sd_address crd block = of_nat (card_argument crd block)"
  by (simp add: sd_address_def card_argument_def push_bit_eq_mult)

lemma answers_send: "answers H b xs ys b' \<Longrightarrow> spi_send H xs b = b'"
  by (simp add: answers_def spi_send_def)

lemma answers_receive: "answers H b (replicate n 0xFF) ys b' \<Longrightarrow> spi_receive H n b = (ys, b')"
  by (simp add: answers_def spi_receive_def)

lemma answers_Cons:
  "answers H b (x # xs) (y # ys) b' \<longleftrightarrow> (\<exists>b1. spi_xfer H b x = (b1, y) \<and> answers H b1 xs ys b')"
  by (auto simp: answers_def split: prod.splits)

lemma polled_Nil: "polled H b [] c b' \<longleftrightarrow> spi_xfer H b 0xFF = (b', c)"
  by (auto simp: polled_def answers_def split: prod.splits)

lemma polled_Cons: "polled H b (x # gap) c b' \<longleftrightarrow> (\<exists>b1. spi_xfer H b 0xFF = (b1, x) \<and> polled H b1 gap c b')"
  by (simp add: polled_def answers_Cons)

lemma spi_while_polled:
  assumes "polled H b gap c b'" and "\<forall>x\<in>set gap. again x" and "\<not> again c"
  shows "spi_while H again b = Some (c, b')"
  using assms
proof (induction gap arbitrary: b)
  case Nil
  then show ?case by (subst spi_while.simps) (simp add: polled_Nil)
next
  case (Cons x gap)
  then show ?case by (subst spi_while.simps) (auto simp: polled_Cons)
qed

lemma sd_reply_polled:
  assumes "polled H b (replicate k 0xFF) c b'" and "c \<noteq> 0xFF" and "k < n"
  shows "sd_reply H n c0 b = (c, b')"
  using assms
proof (induction n arbitrary: k b c0)
  case (Suc n)
  then show ?case by (cases k) (auto simp: polled_Nil polled_Cons)
qed simp

lemma sd_reply_silent:
  assumes "answers H b (replicate n 0xFF) (replicate n 0xFF) b'" and "n = 0 \<longrightarrow> c0 = 0xFF"
  shows "sd_reply H n c0 b = (0xFF, b')"
  using assms
proof (induction n arbitrary: b c0)
  case 0
  then show ?case by (simp add: answers_def)
next
  case (Suc n)
  then show ?case by (auto simp: answers_Cons)
qed

lemma sd_command_replies:
  assumes "replies H b code data chksm k c b'" and "code AND 0x80 = 0" and "code \<noteq> CMD12"
    and "c \<noteq> 0xFF" and "k < SD_RETRIES"
  shows "sd_command H code data chksm b = Some (c, b')"
  using assms sd_reply_polled [of H _ k c b' SD_RETRIES 0]
  by (auto simp: replies_def sd_command_def sd_prefix_def sd_frame_command answers_send)

lemma sd_command_silent:
  assumes "answers H b (command_frame (unat code mod 128) (unat data) (unat chksm)) junk b1" and "code AND 0x80 = 0" and "code \<noteq> CMD12"
    and "answers H b1 (replicate SD_RETRIES 0xFF) (replicate SD_RETRIES 0xFF) b'"
  shows "sd_command H code data chksm b = Some (0xFF, b')"
  using assms sd_reply_silent [OF assms(4), of 0]
  by (simp add: sd_command_def sd_prefix_def sd_frame_command answers_send SD_RETRIES_def)

text \<open>The command of a block: its argument counts modulo 2^32, as the frame has four bytes for it.\<close>

lemma command_frame_address:
  "command_frame i (unat (sd_address crd block)) n = command_frame i (card_argument crd block) n"
proof -
  have "unat (sd_address crd block) = card_argument crd block mod 2 ^ 32"
    by (simp add: sd_address_argument unsigned_of_nat take_bit_eq_mod)
  moreover have "m mod 2 ^ 32 div 2 ^ k mod 256 = m div 2 ^ k mod 256" if "k + 8 \<le> 32" for m k :: nat
    using that drop_bit_take_bit [of k 32 m] take_bit_take_bit [of 8 "32 - k" "drop_bit k m"]
    by (simp add: drop_bit_eq_div take_bit_eq_mod min_def)
  note this [of 24] this [of 16] this [of 8] this [of 0]
  ultimately show ?thesis by (simp add: command_frame_def)
qed

lemma sd_command_block:
  assumes "answers H b (command_frame (unat code mod 128) (card_argument crd block) 1) junk b0"
    and "polled H b0 (replicate k 0xFF) c b1" and "k < SD_RETRIES" and "c \<noteq> 0xFF"
    and "code AND 0x80 = 0" and "code \<noteq> CMD12"
  shows "sd_command H code (sd_address crd block) 1 b = Some (c, b1)"
  by (rule sd_command_replies [OF _ assms(5,6,4,3)])
    (use assms(1,2) in \<open>auto simp: replies_def command_frame_address\<close>)

section \<open>Blocks\<close>

text \<open>
  C7: Reading a block of a card that follows the protocol delivers its 512 bytes: the card accepts
  command 17 with the block's address in the six bytes of a command, which for a standard capacity
  card is the number of the block's first byte and has to fit in 32 bits, lets some time pass, sends
  the start token and the data, and gets two more frames for the checksum. The driver waits as long
  as the card needs and does not look at the checksum.
\<close>

theorem sd_block_read_delivers:
  assumes "arg = card_argument (sd_card s) block" and "arg < 2 ^ 32"
    and "answers H (sd_bus s) (command_frame 17 arg 1) junk b0"
    and "polled H b0 (replicate k 0xFF) 0 b1" and "k < SD_RETRIES"
    and "polled H b1 gap 0xFE b2" and "0xFE \<notin> set gap"
    and "answers H b2 (replicate 512 0xFF) (map ucast bytes) b3" and "length bytes = 512"
    and "answers H b3 [0xFF, 0xFF] crc b4" and "length buf = 512"
  shows "sd_block_read H s block buf = Some (s\<lparr>sd_bus := b4\<rparr>, bytes, 0)"
proof -
  have cast: "ucast (ucast x :: u16) = (x :: byte)" for x
    by (rule bit_word_eqI) (simp add: bit_simps)
  have "spi_while H (\<lambda>c. c \<noteq> 0xFE) b1 = Some (0xFE, b2)"
    by (rule spi_while_polled [OF assms(6)]) (use assms(7) in auto)
  moreover have "sd_command H CMD17 (sd_address (sd_card s) block) 1 (sd_bus s) = Some (0, b1)"
    using assms(1-5) by (intro sd_command_block) simp_all
  moreover have "map ucast (map ucast bytes :: u16 list) = bytes"
    by (simp add: comp_def cast)
  ultimately show ?thesis
    by (simp only: sd_block_read_def answers_receive [OF assms(8)] answers_send [OF assms(10)] assms(11)
        Option.bind.bind_lunit prod.case if_False simp_thms list.size drop_all order_refl append_Nil2)
qed

text \<open>
  C27: Writing a block sends command 24 with the block's address as above, and, once the card has
  accepted it, the start token, the 512 bytes in order and two checksum frames, and then waits until
  the card is no longer busy. The card's verdict on the data, \<open>verdict\<close>, is thrown away: the driver
  reports success whatever it says.
\<close>

theorem sd_block_write_sends:
  assumes "arg = card_argument (sd_card s) block" and "arg < 2 ^ 32"
    and "answers H (sd_bus s) (command_frame 24 arg 1) junk b0"
    and "polled H b0 (replicate k 0xFF) 0 b1" and "k < SD_RETRIES"
    and "answers H b1 ([0xFF, 0xFF, 0xFE] @ map ucast bytes @ [0xFF, 0xFF]) echo b2" and "length bytes = 512"
    and "answers H b2 [0xFF] [verdict] b3"
    and "polled H b3 busy 0xFF b4" and "0xFF \<notin> set busy"
  shows "sd_block_write H s block bytes = Some (s\<lparr>sd_bus := b4\<rparr>, 0)"
proof -
  have "spi_while H (\<lambda>c. c \<noteq> 0xFF) b3 = Some (0xFF, b4)"
    by (rule spi_while_polled [OF assms(9)]) (use assms(10) in auto)
  moreover have "sd_command H CMD24 (sd_address (sd_card s) block) 1 (sd_bus s) = Some (0, b1)"
    using assms(1-5) by (intro sd_command_block) simp_all
  moreover have "take 512 bytes = bytes" using assms(7) by simp
  ultimately show ?thesis
    by (simp only: sd_block_write_def answers_send [OF assms(6)] answers_send [OF assms(8)] Let_def
        Option.bind.bind_lunit prod.case if_False simp_thms)
qed

text \<open>
  C30: When the card refuses the command, or there is no card that answers, the driver gives up after
  at most \<open>SD_RETRIES\<close> frames, returns the card's reply (255 for none) and leaves the buffer alone.
\<close>

theorem sd_block_read_refused:
  assumes "answers H (sd_bus s) (command_frame 17 (card_argument (sd_card s) block) 1) junk b0"
    and "(c \<noteq> 0xFF \<and> k < SD_RETRIES \<and> polled H b0 (replicate k 0xFF) c b1) \<or>
      (c = 0xFF \<and> answers H b0 (replicate SD_RETRIES 0xFF) (replicate SD_RETRIES 0xFF) b1)"
    and "c \<noteq> 0"
  shows "sd_block_read H s block buf = Some (s\<lparr>sd_bus := b1\<rparr>, buf, uint c)"
proof -
  have "sd_command H CMD17 (sd_address (sd_card s) block) 1 (sd_bus s) = Some (c, b1)"
    using assms(2)
  proof (elim disjE conjE)
    assume "c \<noteq> 0xFF" "k < SD_RETRIES" "polled H b0 (replicate k 0xFF) c b1"
    then show ?thesis using assms(1) by (intro sd_command_block) simp_all
  next
    assume c: "c = 0xFF" and silent: "answers H b0 (replicate SD_RETRIES 0xFF) (replicate SD_RETRIES 0xFF) b1"
    have "answers H (sd_bus s) (command_frame (unat CMD17 mod 128)
        (unat (sd_address (sd_card s) block)) (unat (1 :: byte))) junk b0"
      using assms(1) by (simp add: command_frame_address)
    from this _ _ silent show ?thesis unfolding c by (rule sd_command_silent) simp_all
  qed
  then show ?thesis using assms(3) by (simp add: sd_block_read_def)
qed

section \<open>The size of a card\<close>

lemma unat_and_low:
  "unat (x AND 3) = unat x mod 4" "unat (x AND 7) = unat x mod 8" "unat (x AND 0xF) = unat x mod 16"
  for x :: u16
  using unat_and_mask [of x 2] unat_and_mask [of x 3] unat_and_mask [of x 4]
  by (simp_all add: mask_eq_exp_minus_1)

lemma unat_top_bits: "unat (drop_bit 6 (x AND 0xC0)) = unat x div 64 mod 4" for x :: u16
proof -
  have "drop_bit 6 (x AND 0xC0) = drop_bit 6 x AND 3"
    by (simp add: drop_bit_and)
  then show ?thesis by (simp add: unat_and_low) (simp add: drop_bit_eq_div unat_div)
qed

lemma write_protected_simps [simp]:
  "card_size (write_protected c crd) = card_size crd" "card_type (write_protected c crd) = card_type crd"
  "card_error (write_protected c crd) = card_error crd"
  by (simp_all add: write_protected_def)

text \<open>
  The size of a high capacity card, in blocks, is 1024 times one more than the number in the CSD,
  of which the driver keeps 20 of 22 bits: a card of half a terabyte or more gets a size that is too
  small.
\<close>

theorem csd_high_size:
  assumes "c_size < 2 ^ 22" and "length r = 15"
    and "r ! 6 = of_nat (c_size div 65536)" and "r ! 7 = of_nat (c_size div 256 mod 256)"
    and "r ! 8 = of_nat (c_size mod 256)"
  shows "unat (card_size (csd_high r crd)) = (c_size mod 2 ^ 20 + 1) * 1024 \<and>
    card_type (csd_high r crd) = SD_CARD_HC"
proof -
  have bytes: "unat (r ! 6 AND 0xF) = c_size div 65536 mod 16" "unat (r ! 7) = c_size div 256 mod 256"
    "unat (r ! 8) = c_size mod 256"
    using assms by (simp_all add: unat_and_low unat_of_nat)
  define n where "n = c_size mod 2 ^ 20"
  have "n = 256 * (c_size div 256 mod (256 * 16)) + c_size mod 256"
    using mod_mult2_eq [of c_size 256 "256 * 16"] by (simp add: n_def)
  also have "c_size div 256 mod (256 * 16) = 256 * (c_size div 65536 mod 16) + c_size div 256 mod 256"
    using mod_mult2_eq [of "c_size div 256" 256 16] by (simp add: div_mult2_eq [symmetric])
  finally have n: "n = c_size div 65536 mod 16 * 65536 + c_size div 256 mod 256 * 256 + c_size mod 256"
    by simp
  have "push_bit 16 (ucast (r ! 6 AND 0xF)) + push_bit 8 (ucast (r ! 7)) + ucast (r ! 8) = (of_nat n :: u32)"
    unfolding n bytes [symmetric] by (simp add: push_bit_eq_mult of_nat_unat)
  then have size: "card_size (csd_high r crd) = of_nat ((n + 1) * 1024)"
    by (simp add: csd_high_def push_bit_eq_mult algebra_simps)
  have "n < 2 ^ 20" by (simp add: n_def)
  then have "unat (card_size (csd_high r crd)) = (n + 1) * 1024"
    unfolding size by (simp add: unat_of_nat del: of_nat_mult of_nat_add of_nat_Suc)
  then show ?thesis by (simp add: csd_high_def n_def)
qed

lemma csd_multiplier:
  fixes a b :: u16
  assumes "m < 8" and "unat a mod 4 = m div 2" and "unat b div 128 = m mod 2"
  shows "unat ((push_bit 1 a + drop_bit 7 b) AND 7) = m"
proof -
  let ?c = "push_bit 1 a + drop_bit 7 b"
  have "unat ?c mod 8 = (2 * unat a mod 8 + unat b div 128) mod 8"
    by (simp add: unat_word_ariths push_bit_eq_mult unsigned_drop_bit_eq drop_bit_eq_div mod_mod_cancel mod_simps)
      (simp add: mult.commute)
  also have "2 * unat a mod 8 = 2 * (unat a mod 4)"
    using mult_mod_right [of 2 "unat a" 4] by simp
  also have "(2 * (unat a mod 4) + unat b div 128) mod 8 = m"
    using assms by simp
  finally show ?thesis by (simp add: unat_and_low)
qed

lemma ucast_power:
  assumes "n < 16"
  shows "ucast (push_bit n (1 :: u16)) = (of_nat (2 ^ n) :: u32)"
proof -
  define m :: nat where "m = 2 ^ n"
  have small: "m < 2 ^ 16" using assms unfolding m_def by (intro power_strict_increasing) simp_all
  have m: "push_bit n (1 :: u16) = of_nat m" by (simp add: m_def push_bit_eq_mult)
  have "unat (ucast (of_nat m :: u16) :: u32) = unat (of_nat m :: u32)"
    using small by (simp add: unat_of_nat)
  then show ?thesis unfolding m_def [symmetric] m by (rule word_unat_eq_iff [THEN iffD2])
qed

text \<open>
  C29: The size of a standard capacity card: the three numbers of the CSD are put together as the
  specification of the cards says, \<open>(C_SIZE + 1) * 2 ^ (C_SIZE_MULT + 2) * 2 ^ READ_BL_LEN\<close> bytes,
  and counted in blocks of 512, for every value these fields can have.
\<close>

theorem csd_standard_size:
  assumes "c_size < 2 ^ 12" and "mult < 8" and "9 \<le> len" and "len \<le> 11" and "length r = 15"
    and "unat (r ! 4) mod 16 = len"
    and "unat (r ! 5) mod 4 = c_size div 1024" and "r ! 6 = of_nat (c_size div 4 mod 256)"
    and "unat (r ! 7) div 64 = c_size mod 4"
    and "unat (r ! 8) mod 4 = mult div 2" and "unat (r ! 9) div 128 = mult mod 2"
  shows "\<exists>crd'. csd_standard r crd = Some crd' \<and> card_type crd' = SD_CARD_SC \<and>
    512 * unat (card_size crd') = (c_size + 1) * 2 ^ (mult + 2) * 2 ^ len"
proof -
  have mult: "unat ((push_bit 1 (r ! 8) + drop_bit 7 (r ! 9)) AND 7) = mult"
    using assms(2,10,11) by (rule csd_multiplier)
  have parts: "unat (r ! 5 AND 3) = c_size div 1024" "unat (r ! 6) = c_size div 4 mod 256"
    "unat (drop_bit 6 (r ! 7 AND 0xC0)) = c_size mod 4" "unat (r ! 4 AND 0xF) = len"
  proof -
    have "c_size div 4 mod 256 < 256" by simp
    then show "unat (r ! 6) = c_size div 4 mod 256" using assms(8) by (simp add: unat_of_nat del: mod_less_divisor)
    show "unat (r ! 5 AND 3) = c_size div 1024" "unat (r ! 4 AND 0xF) = len"
      using assms(6,7) by (simp_all add: unat_and_low)
    show "unat (drop_bit 6 (r ! 7 AND 0xC0)) = c_size mod 4"
      using assms(9) by (simp only: unat_top_bits mod_mod_trivial)
  qed
  have "c_size div 1024 = c_size div 4 div 256"
    using div_mult2_eq [of c_size 4 256] by simp
  then have "c_size = 1024 * (c_size div 1024) + 4 * (c_size div 4 mod 256) + c_size mod 4"
    using div_mult_mod_eq [of c_size 4] div_mult_mod_eq [of "c_size div 4" 256] by linarith
  then have "push_bit 10 (ucast (r ! 5 AND 3)) + push_bit 2 (ucast (r ! 6)) +
      ucast (drop_bit 6 (r ! 7 AND 0xC0)) = (of_nat c_size :: u32)" (is "?size = _")
    unfolding parts [symmetric] by (simp add: push_bit_eq_mult of_nat_unat)
  moreover have "ucast (push_bit (mult + 2) (1 :: u16)) = (of_nat (2 ^ (mult + 2)) :: u32)"
    using assms(2) by (intro ucast_power) simp
  moreover have "\<not> unat (r ! 4 AND 0xF) < 9" using parts(4) assms(3) by simp
  ultimately obtain crd' where crd': "csd_standard r crd = Some crd'" "card_type crd' = SD_CARD_SC"
    "card_size crd' = push_bit (len - 9) ((of_nat c_size + 1) * of_nat (2 ^ (mult + 2)))"
    unfolding csd_standard_def Let_def mult parts(4) by auto
  have "card_size crd' = of_nat ((c_size + 1) * 2 ^ (mult + 2) * 2 ^ (len - 9))"
    unfolding crd'(3) by (simp add: push_bit_eq_mult algebra_simps)
  moreover have "(c_size + 1) * 2 ^ (mult + 2) * 2 ^ (len - 9) \<le> 2 ^ 12 * 2 ^ 9 * 2 ^ (2 :: nat)"
    using assms(1,2,4) by (intro mult_le_mono power_increasing) simp_all
  ultimately have "unat (card_size crd') = (c_size + 1) * 2 ^ (mult + 2) * 2 ^ (len - 9)"
    by (simp add: unat_of_nat del: of_nat_mult of_nat_add of_nat_power)
  moreover have "2 ^ len = 2 ^ (len - 9) * (512 :: nat)"
    using assms(3) power_add [of "2 :: nat" "len - 9" 9] by simp
  ultimately show ?thesis using crd' by simp
qed

section \<open>Starting a card\<close>

text \<open>
  An application command, with its prefix, and a card that is initialising: it answers 1 to
  \<open>ACMD41\<close> some number of times and then something else.
\<close>

definition app_replies :: "'b hw \<Rightarrow> 'b \<Rightarrow> byte \<Rightarrow> u32 \<Rightarrow> byte \<Rightarrow> nat \<Rightarrow> u16 \<Rightarrow> 'b \<Rightarrow> bool" where
  "app_replies H b code data chksm k c b' \<longleftrightarrow>
    (\<exists>junk b1 j c55 b2. answers H b [0xFF, 0x77, 0, 0, 0, 0, 1] junk b1 \<and>
      polled H b1 (replicate j 0xFF) c55 b2 \<and> c55 \<noteq> 0xFF \<and> replies H b2 code data chksm k c b')"

inductive initialising :: "'b hw \<Rightarrow> 'b \<Rightarrow> 'b \<Rightarrow> bool" where
  ready: "app_replies H b ACMD41 (push_bit 30 1) 1 k c b' \<Longrightarrow> k < SD_RETRIES \<Longrightarrow> c \<noteq> 1 \<Longrightarrow> c \<noteq> 0xFF \<Longrightarrow>
    initialising H b b'"
| busy: "app_replies H b ACMD41 (push_bit 30 1) 1 k 1 b1 \<Longrightarrow> k < SD_RETRIES \<Longrightarrow> initialising H b1 b' \<Longrightarrow>
    initialising H b b'"

lemma sd_command_app:
  assumes "app_replies H b code data chksm k c b'" and "code AND 0x80 \<noteq> 0" and "code \<noteq> CMD12"
    and "c \<noteq> 0xFF" and "k < SD_RETRIES"
  shows "sd_command H code data chksm b = Some (c, b')"
proof -
  obtain junk b1 j c55 b2 where
    1: "answers H b [0xFF, 0x77, 0, 0, 0, 0, 1] junk b1" "polled H b1 (replicate j 0xFF) c55 b2" "c55 \<noteq> 0xFF"
    and 2: "replies H b2 code data chksm k c b'"
    using assms(1) by (auto simp: app_replies_def)
  have "spi_while H (\<lambda>c. c = 0xFF) b1 = Some (c55, b2)"
    using 1(3) by (intro spi_while_polled [OF 1(2)]) auto
  then have "sd_prefix H code b = Some b2"
    using assms(2) answers_send [OF 1(1)] by (simp add: sd_prefix_def)
  then show ?thesis
    using 2 assms(3-5) sd_reply_polled [of H _ k c b' SD_RETRIES 0]
    by (auto simp: replies_def sd_command_def sd_frame_command answers_send)
qed

lemma initialising_ready: "initialising H b b' \<Longrightarrow> sd_wait_ready H b = Some b'"
proof (induction rule: initialising.induct)
  case (ready H b k c b')
  then have "sd_command H ACMD41 (push_bit 30 1) 1 b = Some (c, b')" by (intro sd_command_app) simp_all
  with ready show ?case by (subst sd_wait_ready.simps) simp
next
  case (busy H b k b1 b')
  then have "sd_command H ACMD41 (push_bit 30 1) 1 b = Some (1, b1)" by (intro sd_command_app) simp_all
  with busy show ?case by (subst sd_wait_ready.simps) simp
qed

lemma spi_expect_answers:
  "answers H b (replicate (length xs) 0xFF) xs b' \<Longrightarrow> spi_expect H xs b = (True, b')"
  by (induction xs arbitrary: b) (auto simp: answers_Cons, auto simp: answers_def)

text \<open>
  C28: A high capacity card that answers as the specification says is started: the driver resets it,
  finds the voltage accepted, waits until it is ready however often it has to ask, reads the CSD and
  returns 0 with the type, the size and the write protection taken from it.
\<close>

theorem sd_card_reset_high:
  assumes "\<not> defined_pin H SD_CP"
    and "answers H (hw_do H (sd_bus s) (gpio_set SD_PORT SD_CS_PIN)) (replicate 20 0xFF) junk b1"
    and "replies H (hw_do H b1 (gpio_clear SD_PORT SD_CS_PIN)) CMD0 0 0x95 k0 1 b2" and "k0 < SD_RETRIES"
    and "replies H b2 CMD8 0x1AA 0x87 k8 1 b3" and "k8 < SD_RETRIES"
    and "answers H b3 (replicate 4 0xFF) [0, 0, 1, 0xAA] b4"
    and "initialising H b4 b5"
    and "replies H b5 CMD9 0 1 k9 0 b6" and "k9 < SD_RETRIES"
    and "polled H b6 (replicate j 0xFF) 0xFE b7"
    and "answers H b7 (replicate 16 0xFF) (0x40 # r) b8"
  shows "sd_card_reset H s =
    Some (0, s\<lparr>sd_bus := b8, sd_card := csd_high r ((sd_card s)\<lparr>card_type := SD_CARD_HC\<rparr>)\<rparr>)"
proof -
  have "sd_command H CMD0 0 0x95 (hw_do H b1 (gpio_clear SD_PORT SD_CS_PIN)) = Some (1, b2)"
    using assms(3,4) by (intro sd_command_replies) simp_all
  moreover have "sd_command H CMD8 0x1AA 0x87 b2 = Some (1, b3)"
    using assms(5,6) by (intro sd_command_replies) simp_all
  moreover have "spi_expect H [0, 0, 1, 0xAA] b3 = (True, b4)"
    using assms(7) by (intro spi_expect_answers) (simp add: numeral_eq_Suc)
  ultimately have "sd_identify H s =
      Some (True, s\<lparr>sd_bus := b4, sd_card := (sd_card s)\<lparr>card_type := SD_CARD_HC\<rparr>\<rparr>)"
    using answers_send [OF assms(2)] by (simp add: sd_identify_def Let_def)
  moreover have "sd_command H CMD9 0 1 b5 = Some (0, b6)"
    using assms(9,10) by (intro sd_command_replies) simp_all
  moreover have "spi_while H (\<lambda>c. c = 0xFF) b6 = Some (0xFE, b7)"
    by (rule spi_while_polled [OF assms(11)]) auto
  moreover obtain b where "spi_xfer H b7 0xFF = (b, 0x40)" "answers H b (replicate 15 0xFF) r b8"
    using assms(12) by (auto simp: numeral_eq_Suc answers_Cons)
  ultimately show ?thesis
    using assms(1) initialising_ready [OF assms(8)] answers_receive
    by (fastforce simp: sd_card_reset_def sd_read_csd_def)
qed

text \<open>
  C31: Nothing bounds the wait for a card that answers 1 to every \<open>ACMD41\<close>: the driver does not return.
\<close>

theorem sd_wait_ready_hangs:
  assumes "\<And>b. again b \<Longrightarrow> \<exists>k b'. k < SD_RETRIES \<and> app_replies H b ACMD41 (push_bit 30 1) 1 k 1 b' \<and> again b'"
    and "again b"
  shows "sd_wait_ready H b = None"
proof -
  have "H' = H \<longrightarrow> \<not> again b" if "sd_wait_ready H' b = Some y" for H' b y
  proof (rule sd_wait_ready.raw_induct [where P = "\<lambda>H' b y. H' = H \<longrightarrow> \<not> again b", OF _ that],
      intro impI notI)
    fix wait H' b y
    assume IH: "\<And>H' b y. wait H' b = Some y \<Longrightarrow> H' = H \<longrightarrow> \<not> again b"
      and step: "sd_command H' ACMD41 (push_bit 30 1) 1 b \<bind> (\<lambda>(c, b1). if c = 1 then wait H' b1 else Some b1) = Some y"
      and "H' = H" and "again b"
    then obtain k b' where "k < SD_RETRIES" "app_replies H b ACMD41 (push_bit 30 1) 1 k 1 b'" "again b'"
      using assms(1) by blast
    moreover from this have "sd_command H ACMD41 (push_bit 30 1) 1 b = Some (1, b')"
      by (intro sd_command_app) simp_all
    ultimately show False using step IH [of H b' y] \<open>H' = H\<close> by simp
  qed
  then show ?thesis using assms(2) by (cases "sd_wait_ready H b") auto
qed

section \<open>A card on the bus\<close>

text \<open>
  A bus whose state is the list of the frames the card will send, on which the theorems are
  instantiated, and a card that answers 1 to every frame.
\<close>

definition scripted :: "u16 list hw" where
  "scripted = \<lparr>hw_do = (\<lambda>b _. b), spi_xfer = (\<lambda>b _. (tl b, hd b)), gpio_get = (\<lambda>_ _ _. 0),
    defined_pin = (\<lambda>_. False)\<rparr>"

definition stubborn :: "unit hw" where
  "stubborn = \<lparr>hw_do = (\<lambda>b _. b), spi_xfer = (\<lambda>b _. (b, 1)), gpio_get = (\<lambda>_ _ _. 0),
    defined_pin = (\<lambda>_. False)\<rparr>"

definition with_card :: "u16 \<Rightarrow> 'b \<Rightarrow> 'b sd" where
  "with_card type b = \<lparr>sd_bus = b, sd_card = card0\<lparr>card_type := type\<rparr>\<rparr>"

lemma with_card_simps [simp]:
  "sd_bus (with_card type b) = b" "sd_card (with_card type b) = card0\<lparr>card_type := type\<rparr>"
  "with_card type b\<lparr>sd_bus := b'\<rparr> = with_card type b'"
  by (simp_all add: with_card_def)

lemma scripted_answers: "length xs = length ys \<Longrightarrow> answers scripted (ys @ rest) xs ys rest"
proof (induction xs arbitrary: ys)
  case (Cons x xs)
  then show ?case by (cases ys) (auto simp: answers_Cons, simp_all add: scripted_def)
qed (simp add: answers_def)

lemma scripted_polled: "polled scripted (gap @ c # rest) gap c rest"
  unfolding polled_def using scripted_answers [of "replicate (Suc (length gap)) 0xFF" "gap @ [c]" rest] by simp

lemma scripted_replies:
  "length junk = 7 \<Longrightarrow> replies scripted (junk @ replicate k 0xFF @ c # rest) code data chksm k c rest"
  unfolding replies_def
  by (rule exI [of _ junk], rule exI [of _ "replicate k 0xFF @ c # rest"])
    (intro conjI scripted_answers scripted_polled, simp add: command_frame_def)

lemma scripted_app_replies:
  "length junk = 7 \<Longrightarrow> length junk' = 7 \<Longrightarrow>
    app_replies scripted (junk @ 1 # junk' @ replicate k 0xFF @ c # rest) code data chksm k c rest"
  unfolding app_replies_def
  by (intro exI [of _ junk] exI [of _ "1 # junk' @ replicate k 0xFF @ c # rest"] exI [of _ "0 :: nat"]
      exI [of _ "1 :: u16"] exI [of _ "junk' @ replicate k 0xFF @ c # rest"] conjI scripted_answers scripted_replies)
    (simp_all add: scripted_polled [of "[]", simplified])

lemma sd_block_read_delivers_witness:
  "sd_block_read scripted (with_card SD_CARD_SC (replicate 7 0 @ [0xFF, 0, 0xFF, 0xFF, 0xFE] @
      replicate 512 0x62 @ [1, 2, 3])) 5 (replicate 512 0) =
    Some (with_card SD_CARD_SC [3], replicate 512 0x62, 0)"
proof -
  let ?rest = "[0xFF, 0xFF, 0xFE] @ map ucast (replicate 512 (0x62 :: byte)) @ [1, 2, 3 :: u16]"
  let ?s = "with_card SD_CARD_SC (replicate 7 0 @ replicate 1 0xFF @ 0 # ?rest)"
  have "sd_block_read scripted ?s 5 (replicate 512 0) =
      Some (?s\<lparr>sd_bus := [3]\<rparr>, replicate 512 0x62, 0)"
  proof (rule sd_block_read_delivers)
    show "answers scripted (sd_bus ?s) (command_frame 17 (card_argument (sd_card ?s) 5) 1) (replicate 7 0)
        (replicate 1 0xFF @ 0 # ?rest)"
      unfolding with_card_simps by (rule scripted_answers) (simp add: command_frame_def)
    show "polled scripted (replicate 1 0xFF @ 0 # ?rest) (replicate 1 0xFF) 0 ?rest"
      by (rule scripted_polled)
    show "polled scripted ?rest [0xFF, 0xFF] 0xFE (map ucast (replicate 512 (0x62 :: byte)) @ [1, 2, 3])"
      using scripted_polled [of "[0xFF, 0xFF]" "0xFE"] by simp
    show "answers scripted (map ucast (replicate 512 (0x62 :: byte)) @ [1, 2, 3]) (replicate 512 0xFF)
        (map ucast (replicate 512 (0x62 :: byte))) [1, 2, 3]"
      by (rule scripted_answers) simp
    show "answers scripted [1, 2, 3] [0xFF, 0xFF] [1, 2] [3]"
      using scripted_answers [of "[0xFF, 0xFF]" "[1, 2]" "[3]"] by simp
  qed (simp_all add: SD_RETRIES_def card_argument_def)
  then show ?thesis by simp
qed

lemma sd_block_write_sends_witness:
  "sd_block_write scripted (with_card SD_CARD_HC (replicate 7 0 @ [0] @ replicate 517 0 @ [0x0D, 0, 0xFF]))
      5 (replicate 512 0x62) = Some (with_card SD_CARD_HC [], 0)"
proof -
  let ?rest = "replicate 517 0 @ [0x0D, 0, 0xFF :: u16]"
  let ?s = "with_card SD_CARD_HC (replicate 7 0 @ replicate 0 0xFF @ 0 # ?rest)"
  have "sd_block_write scripted ?s 5 (replicate 512 0x62) = Some (?s\<lparr>sd_bus := []\<rparr>, 0)"
  proof (rule sd_block_write_sends)
    show "answers scripted (sd_bus ?s) (command_frame 24 (card_argument (sd_card ?s) 5) 1) (replicate 7 0)
        (replicate 0 0xFF @ 0 # ?rest)"
      unfolding with_card_simps by (rule scripted_answers) (simp add: command_frame_def)
    show "polled scripted (replicate 0 0xFF @ 0 # ?rest) (replicate 0 0xFF) 0 ?rest"
      by (rule scripted_polled)
    show "answers scripted ?rest ([0xFF, 0xFF, 0xFE] @ map ucast (replicate 512 (0x62 :: byte)) @ [0xFF, 0xFF])
        (replicate 517 0) [0x0D, 0, 0xFF]"
      by (rule scripted_answers) simp
    show "answers scripted [0x0D, 0, 0xFF] [0xFF] [0x0D] [0, 0xFF]"
      using scripted_answers [of "[0xFF]" "[0x0D]" "[0, 0xFF]"] by simp
    show "polled scripted [0, 0xFF] [0] 0xFF []"
      using scripted_polled [of "[0]" "0xFF" "[]"] by simp
  qed (simp_all add: SD_RETRIES_def card_argument_def)
  then show ?thesis by simp
qed

lemma sd_block_read_refused_witness:
  "sd_block_read scripted (with_card SD_CARD_HC (replicate 7 0 @ [0xFF, 0x04, 9])) 5 [7] =
    Some (with_card SD_CARD_HC [9], [7], 4)"
proof -
  let ?s = "with_card SD_CARD_HC (replicate 7 0 @ replicate 1 0xFF @ [0x04, 9])"
  have "answers scripted (sd_bus ?s) (command_frame 17 (card_argument (sd_card ?s) 5) 1) (replicate 7 0)
      (replicate 1 0xFF @ [0x04, 9])"
    unfolding with_card_simps by (rule scripted_answers) (simp add: command_frame_def)
  moreover have "polled scripted (replicate 1 0xFF @ [0x04, 9]) (replicate 1 0xFF) 0x04 [9]"
    by (rule scripted_polled)
  ultimately have "sd_block_read scripted ?s 5 [7] = Some (?s\<lparr>sd_bus := [9]\<rparr>, [7], uint (0x04 :: u16))"
    by (intro sd_block_read_refused [where k = 1] disjI1) (simp_all add: SD_RETRIES_def)
  then show ?thesis by simp
qed

lemma csd_high_size_witness:
  "unat (card_size (csd_high ([0, 0, 0, 0, 0, 0, 0, 0x1D, 0x59] @ replicate 6 0) card0)) = 7694336"
  using csd_high_size [of 7513 "[0, 0, 0, 0, 0, 0, 0, 0x1D, 0x59] @ replicate 6 0" card0] by simp

lemma csd_standard_size_witness:
  "\<exists>crd. csd_standard ([0, 0, 0, 0, 0x5A, 0x03, 0xB3, 0x80, 3, 0x80] @ replicate 5 0) card0 = Some crd \<and>
    512 * unat (card_size crd) = 3791 * 2 ^ 9 * 2 ^ 10"
  using csd_standard_size [of 3790 7 10 "[0, 0, 0, 0, 0x5A, 0x03, 0xB3, 0x80, 3, 0x80] @ replicate 5 0" card0]
  by auto

lemma sd_card_reset_high_witness:
  "\<exists>bus. sd_card_reset scripted (with_card 0 bus) =
    Some (0, with_card SD_CARD_HC []\<lparr>sd_card := csd_high (replicate 15 0x11) (card0\<lparr>card_type := SD_CARD_HC\<rparr>)\<rparr>)"
proof -
  let ?b6 = "0xFE # 0x40 # replicate 15 (0x11 :: u16)"
  let ?b5 = "replicate 7 0 @ replicate 1 0xFF @ 0 # ?b6"
  let ?b4 = "replicate 7 0 @ 1 # replicate 7 0 @ replicate 1 0xFF @ 1 #
    replicate 7 0 @ 1 # replicate 7 0 @ replicate 1 0xFF @ 0 # ?b5"
  let ?b2 = "replicate 7 0 @ replicate 1 0xFF @ 1 # [0, 0, 1, 0xAA] @ ?b4"
  let ?b1 = "replicate 7 0 @ replicate 1 0xFF @ 1 # ?b2"
  let ?s = "with_card 0 (replicate 20 0xFF @ ?b1)"
  have hw: "hw_do scripted b call = b" "\<not> defined_pin scripted p" for b call p
    by (simp_all add: scripted_def)
  have "sd_card_reset scripted ?s =
    Some (0, ?s\<lparr>sd_bus := [], sd_card := csd_high (replicate 15 0x11) ((sd_card ?s)\<lparr>card_type := SD_CARD_HC\<rparr>)\<rparr>)"
  proof (rule sd_card_reset_high)
    show "answers scripted (hw_do scripted (sd_bus ?s) (gpio_set SD_PORT SD_CS_PIN)) (replicate 20 0xFF)
        (replicate 20 0xFF) ?b1"
      unfolding hw with_card_simps by (rule scripted_answers) simp
    show "replies scripted (hw_do scripted ?b1 (gpio_clear SD_PORT SD_CS_PIN)) CMD0 0 0x95 1 1 ?b2"
      unfolding hw by (rule scripted_replies) simp
    show "replies scripted ?b2 CMD8 0x1AA 0x87 1 1 ([0, 0, 1, 0xAA] @ ?b4)"
      by (rule scripted_replies) simp
    show "answers scripted ([0, 0, 1, 0xAA] @ ?b4) (replicate 4 0xFF) [0, 0, 1, 0xAA] ?b4"
      by (rule scripted_answers) simp
    show "initialising scripted ?b4 ?b5"
      by (rule initialising.busy [OF scripted_app_replies], simp, simp, simp add: SD_RETRIES_def,
          rule initialising.ready [OF scripted_app_replies]) (simp_all add: SD_RETRIES_def)
    show "replies scripted ?b5 CMD9 0 1 1 0 ?b6" by (rule scripted_replies) simp
    show "polled scripted ?b6 (replicate 0 0xFF) 0xFE (0x40 # replicate 15 0x11)"
      using scripted_polled [of "[]"] by simp
    show "answers scripted (0x40 # replicate 15 0x11) (replicate 16 0xFF) (0x40 # replicate 15 0x11) []"
      using scripted_answers [of "replicate 16 0xFF" "0x40 # replicate 15 0x11" "[]"] by simp
  qed (simp_all add: hw SD_RETRIES_def)
  then show ?thesis by (intro exI) (simp add: with_card_def)
qed

lemma sd_wait_ready_hangs_witness: "sd_wait_ready stubborn () = None"
proof -
  have run: "spi_run stubborn xs b = (replicate (length xs) 1, b)" for xs b
    by (induction xs) (simp_all add: stubborn_def)
  have "app_replies stubborn b ACMD41 (push_bit 30 1) 1 0 1 b" for b
    unfolding app_replies_def replies_def polled_def answers_def run
    by (intro exI [of _ "[1, 1, 1, 1, 1, 1, 1]"] exI [of _ b] exI [of _ "0 :: nat"] exI [of _ "1 :: u16"])
      (simp add: command_frame_def)
  then show ?thesis
    by (intro sd_wait_ready_hangs [where again = "\<lambda>_. True"] TrueI exI [of _ "0 :: nat"] exI conjI)
      (simp_all add: SD_RETRIES_def)
qed

end
