(* ===== verification/Spec2Isabelle.thy ===== *)
theory Spec2Isabelle
  imports Md5 Partition Fat_Fuel Fat_Seek Fat_Open Demo_Ext Sd_Proofs
begin

text \<open>
  A model of gristle, a FAT16 and FAT32 file system driver for small controllers with an ext2 driver
  (embext) beside it and two drivers for block devices under them, and proofs of what its operations
  do.

  The program. A block device is a set of functions (src/block.h): \<open>block_pc.c\<close> keeps an image in
  memory, \<open>block_sd.c\<close> talks to an SD card over SPI. \<open>partition.c\<close> reads the table of a disk.
  \<open>gristle.c\<close> mounts one FAT partition into the global \<open>fatfs\<close> and gives POSIX-like calls over four
  file structures, the global \<open>file_num\<close>, each with a one-block buffer; \<open>embext.c\<close> does the same for
  ext2, with a context and a file structure for each open file that the caller holds.

  Theories and sources.
  \<^item> Gristle_Prelude: bytes, blocks, little-endian fields, \<open>memcpy\<close>, errno values, and the numbers
    that the bytes of a block store (\<open>le_number\<close>), in which the layouts on disk are specified.
  \<^item> Block_Device: block.h as a record of functions (\<open>platform\<close>, with the clock and the bytes of
    uninitialised memory), the locale \<open>block_device\<close> with what a driver promises, and block_pc.c,
    for which the locale is interpreted (\<open>pc\<close>).
  \<^item> Md5: the digest of test/hash.c, which block_pc.c uses to identify images.
  \<^item> Partition: partition.c. Fat_Time, Fat_Name: the conversions of times and names in gristle.c.
  \<^item> Fat_Types: gristle.h and the globals, as \<open>gstate\<close>. Fat_Mount: \<open>fat_mount\<close>. Fat_Alloc: the
    allocation table. Fat_File: the cursor and the write-back of a file. Fat_Lookup: paths.
    Fat_Ops: open, close, read, write, seek, stat, listing. Fat_Dir: unlink, rmdir, mkdir.
    Fat_Api: all of these as steps, and the reachable states.
  \<^item> Fat_Read, Fat_Write, Fat_Seek: the abstract file and the refinement proofs for FAT; Fat_Entry: the
    directory entry that closing leaves on the disk; Fat_Open: from a name to the bytes; Fat_Fuel: termination. Demo_Volume: the volume on which the theorems are instantiated.
  \<^item> Ext_Types: embext.h. Ext_Mount: superblocks, mounting, unmounting. Ext_Alloc: block bitmaps.
    Ext_File: inodes, files, directories. Ext_Read: the proofs about them. Demo_Ext: a volume.
  \<^item> Sd_Card, Sd_Proofs: block_sd.c over a parameter that stands for libopencm3 and the hardware,
    with the exchanges on the bus as the vocabulary of the proofs.

  State. The globals are passed explicitly: a call takes a \<open>gstate\<close> (device, \<open>fatfs\<close>, \<open>file_num\<close>,
  clock) or \<open>estate\<close> and returns the new one with the result, and the value of \<open>rerrno\<close> where the C
  function has this parameter. Machine integers are words of their C width. An ext2 file structure
  is passed and returned, as the caller owns it.

  Results that are missing. \<open>None\<close> is a call that has not returned, or has no defined result: for
  gristle.c the fuel is used up; for embext.c a division by zero, an access outside a buffer, or a
  loop that has no end. The fuel of gristle.c bounds the mutual recursion of the two flush functions
  and the loops that go through a directory. Theory Fat_Fuel shows that a result does not depend
  on the fuel, and that two are enough to read, write, seek and close a file with a directory entry.
  Loops that poll (block_sd.c), that follow a chain (\<open>fat_free_clusters\<close>) and that divide
  (\<open>is_power\<close>) are partial functions without fuel. Loops over a count are structural.

  What is shown.
  \<^item> Invariant: every state a client can reach is well formed, so that no index leaves a buffer
    (\<open>reachable_states_wf\<close>), and calls leave the files of other descriptors alone.
  \<^item> Refinement: reading, writing and seeking act on the byte list of a cluster chain, with the
    buffer of the descriptor laid over the disk; a write is read back (\<open>fat_write_read_back\<close>), and a
    file opened by its name is read (\<open>open_read_delivers\<close>). The
    same for reading and seeking in an ext2 file of direct blocks. These theorems are about one
    descriptor on a chain that stays inside its clusters; a write that takes new clusters is
    covered by the invariant and by the theorems on allocation.
  \<^item> The FAT: allocation takes the first free entry, freeing clears a chain and nothing else.
  \<^item> Formats: the names of directory entries against the rules of the FAT format (\<open>name_byte\<close>), an entry
    on the disk byte by byte (\<open>entry_on_disk\<close>), dates, inodes, superblocks, the partition table
    (\<open>mbr_numbers\<close>, \<open>numbers_fit\<close>) and the sizes in the CSD. What the driver does otherwise than the
    format is in the statements: a name of one letter with an extension gets a byte nobody wrote, and the
    end of a partition is taken modulo \<open>2^32\<close>.
  \<^item> The incremental MD5 agrees with the definition of RFC 1321.
  \<^item> ext2: unmounting and mounting, saving an inode and the data of a file, reading a directory. The
    theorems on \<open>ext2_change_allocated\<close> are about the block the driver takes for a bitmap
    (\<open>unshifted_bitmap_block\<close>), which in general is not the one of the volume, and those on unmounting
    about the copies that mounting has recorded.
  \<^item> The SD driver: start of a card, reading and writing a block with the command frame and the address
    the card expects (\<open>command_frame\<close>, \<open>card_argument\<close>), refused commands, and the wait that has no bound.

  The theorems about the disk are stated for the interpretation on block_pc.c and proved in the locale
  of the contract. The SD driver is not an interpretation of it: with a card that does not answer it
  need not return, and it leaves the buffer as it is instead.

  Not modelled: the printing functions and messages (EXT_DEBUG, show_info), the lock macros, which
  have no effect unless a build defines them, the declarations of dirent.h that no source defines,
  and the programs in test/ but for the digest. A negative descriptor, which indexes in front of
  \<open>file_num\<close>, is outside the model, as descriptors are natural numbers.
\<close>

end
